(* ===== verification/Prelude.thy ===== *)
theory Prelude
  imports Main "HOL-Library.Word"
begin

text \<open>
  Shared vocabulary of the development.

  \<^item> \<open>failure\<close> and \<open>result\<close>: how the C program can stop. \<open>span_err\<close> (util.c) prints a message
    and calls \<open>exit(1)\<close>: \<open>Span_Err\<close>. \<open>abort()\<close> and a failed \<open>assert\<close>: \<open>Abort\<close>. A step whose
    behaviour C leaves undefined (a null or dangling pointer, an index out of range, the wrong
    member of a union): \<open>Undefined\<close>, with a short reason. A recursion that never returns:
    \<open>Diverges\<close>.
  \<^item> \<open>bindr\<close>: run a step, go on with its result, stop at its failure.
  \<^item> \<open>io\<close>: the diagnostic output of the program, one event per print call.
  \<^item> \<open>dec\<close>: what \<open>%d\<close> and \<open>%ld\<close> print.
  \<^item> \<open>res_simps\<close>, \<open>res_elims\<close>: the fact collections the component proofs use.
\<close>

named_theorems res_simps
named_theorems res_elims

section \<open>Failures and results\<close>

datatype failure = Span_Err string | Abort | Undefined string | Diverges

type_synonym 'a result = "failure + 'a"

definition bindr :: "'a result \<Rightarrow> ('a \<Rightarrow> 'b result) \<Rightarrow> 'b result" where
  "bindr m f = (case m of Inl e \<Rightarrow> Inl e | Inr x \<Rightarrow> f x)"

lemma bindr_simps [simp]:
  "bindr (Inl e) f = Inl e"
  "bindr (Inr x) f = f x"
  by (simp_all add: bindr_def)

lemma bindr_cong [fundef_cong]:
  "m = m' \<Longrightarrow> (\<And>x. m' = Inr x \<Longrightarrow> f x = g x) \<Longrightarrow> bindr m f = bindr m' g"
  by (cases m') simp_all

lemma bindr_Inr_iff [res_simps]: "bindr m f = Inr y \<longleftrightarrow> (\<exists>x. m = Inr x \<and> f x = Inr y)"
  by (cases m) simp_all

lemma bindr_InrE [res_elims, elim!]:
  assumes "bindr m f = Inr y"
  obtains x where "m = Inr x" and "f x = Inr y"
  using assms by (cases m) simp_all

lemma if_Inl_Inr [res_simps]:
  "((if b then Inl e else m) = Inr y) \<longleftrightarrow> \<not> b \<and> m = Inr y"
  "((if b then m else Inl e) = Inr y) \<longleftrightarrow> b \<and> m = Inr y"
  by auto

section \<open>Lists\<close>

lemma nth_snoc_length [simp]: "(xs @ [x]) ! length xs = x"
  by simp

lemma list_update_append_last: "(xs @ [x])[length xs := y] = xs @ [y]"
  by simp

section \<open>Text\<close>

text \<open>The streams the program prints diagnostics to.\<close>

datatype io = Stdout string | Stderr string

definition nl :: string where
  "nl = [CHR 0x0A]"

fun dec_nat :: "nat \<Rightarrow> string" where
  "dec_nat n = (if n < 10 then [''0123456789'' ! n]
                else dec_nat (n div 10) @ [''0123456789'' ! (n mod 10)])"

declare dec_nat.simps [simp del]

definition dec :: "int \<Rightarrow> string" where
  "dec i = (if i < 0 then ''-'' @ dec_nat (nat (- i)) else dec_nat (nat i))"

lemma dec_nat_nonempty: "dec_nat n \<noteq> []"
  by (subst dec_nat.simps) simp

text \<open>
  The \<open>INDENT\<close> macro of util.h: \<open>indent\<close> blanks.
\<close>

definition spaces :: "nat \<Rightarrow> string" where
  "spaces n = replicate n CHR 0x20"

lemma length_spaces [simp]: "length (spaces n) = n"
  by (simp add: spaces_def)

end
