(* ===== verification/Ast.thy ===== *)
theory Ast
  imports Prelude
begin

text \<open>
  The abstract syntax of ast.h: tagged unions become datatypes with the tags as constructors.
  A pointer the grammar can leave null (the body of an empty \<open>begin end\<close>, the result type of a
  procedure) is an option; an \<open>ast_path\<close> is the list of its components. The tokens are those of
  parser.y, with \<open>Ch c\<close> for a token that is its character and \<open>TOK_EOF\<close> for 0.
\<close>

datatype token =
    TOK_EOF | Ch char
  | T_AND | T_ARRAY | T_BOOLEAN | T_CHAR | T_DIV | T_DO | T_ELSE | T_END | T_FOR | T_FUNCTION
  | T_ID string | T_IF | T_INTEGER | T_MOD | T_NOT | T_NUM string | T_OF | T_OR | T_PROCEDURE
  | T_PROGRAM | T_REAL | T_RECORD | T_STRING | T_TBEGIN | T_THEN | T_TO | T_TYPE | T_VAR | T_WHILE
  | T_NEQ | T_DOTDOT | T_ASSIGNOP | T_LE | T_GE

datatype subprogs = SUB_FUNCTION | SUB_PROCEDURE

text \<open>\<open>struct ast_type\<close>, \<open>struct ast_decls\<close> and \<open>struct ast_record_field\<close>.\<close>

datatype ast_type =
    TYPE_ARRAY (ta_lower: string) (ta_upper: string) (ta_elt: ast_type)
  | TYPE_BOOLEAN
  | TYPE_CHAR
  | TYPE_FUNCTION (tf_type: subprogs) (tf_args: "ast_decls list") (tf_retty: "ast_type option")
  | TYPE_INTEGER
  | TYPE_POINTER ast_type
  | TYPE_REAL
  | TYPE_RECORD "ast_record_field list"
  | TYPE_REF string
  | TYPE_STRING
  | TYPE_VOID
and ast_decls = Decls (d_names: "string list") (d_type: ast_type)
and ast_record_field = Field (rf_name: string) (rf_type: ast_type)

record ast_type_decl =
  td_name :: string
  td_type :: ast_type

type_synonym ast_path = "string list"

datatype ast_expr =
    EXPR_APP ast_path "ast_expr list"
  | EXPR_BIN ast_expr token ast_expr
  | EXPR_DEREF ast_expr
  | EXPR_IDX ast_path ast_expr
  | EXPR_LIT string
  | EXPR_PATH ast_path
  | EXPR_UN token ast_expr
  | EXPR_ADDROF ast_expr

text \<open>\<open>STMT_ASSIGN\<close> takes the left-hand side first, as the constructor function does.\<close>

datatype ast_stmt =
    STMT_ASSIGN ast_expr ast_expr
  | STMT_FOR string ast_expr ast_expr "ast_stmt option"
  | STMT_ITE ast_expr "ast_stmt option" "ast_stmt option"
  | STMT_PROC ast_path "ast_expr list"
  | STMT_STMTS "ast_stmt option list"
  | STMT_WDO ast_expr "ast_stmt option"

datatype ast_subdecl =
  Subdecl (sd_head: ast_type) (sd_name: string) (sd_decls: "ast_decls list")
    (sd_subprogs: "ast_subdecl list") (sd_types: "ast_type_decl list") (sd_body: "ast_stmt option")

record ast_program =
  p_name :: string
  p_args :: "string list"
  p_decls :: "ast_decls list"
  p_subprogs :: "ast_subdecl list"
  p_types :: "ast_type_decl list"
  p_body :: "ast_stmt option"

text \<open>\<open>is_relop\<close>.\<close>

fun is_relop :: "token \<Rightarrow> bool" where
  "is_relop T_NEQ = True"
| "is_relop T_LE = True"
| "is_relop T_GE = True"
| "is_relop (Ch c) = (c = CHR ''<'' \<or> c = CHR ''>'' \<or> c = CHR ''='')"
| "is_relop _ = False"

section \<open>Constructor functions\<close>

text \<open>
  The constructor functions of ast.c have the names of the types they build, here with the suffix
  \<open>_new\<close>. The variadic ones take a tag and read as many arguments as the tag needs; an argument
  of another kind than the one read is undefined, and so is a missing one. A tag the function does
  not know gives a null pointer.
\<close>

datatype expr_tag = EXPR_APP_T | EXPR_BIN_T | EXPR_DEREF_T | EXPR_IDX_T | EXPR_LIT_T | EXPR_PATH_T
  | EXPR_UN_T | EXPR_ADDROF_T

datatype stmt_tag = STMT_ASSIGN_T | STMT_FOR_T | STMT_ITE_T | STMT_PROC_T | STMT_STMTS_T | STMT_WDO_T

datatype type_tag = TYPE_ARRAY_T | TYPE_BOOLEAN_T | TYPE_CHAR_T | TYPE_FUNCTION_T | TYPE_INTEGER_T
  | TYPE_POINTER_T | TYPE_REAL_T | TYPE_RECORD_T | TYPE_REF_T | TYPE_STRING_T | TYPE_VOID_T

datatype va_arg =
    VExpr ast_expr | VExprs "ast_expr list" | VPath ast_path | VTok token | VStr string
  | VStmt "ast_stmt option" | VStmts "ast_stmt option list" | VType "ast_type option"
  | VSub subprogs | VDecls "ast_decls list" | VFields "ast_record_field list"

definition va_bad :: "'a result" where
  "va_bad = Inl (Undefined ''va_arg of the wrong type'')"

fun va_expr :: "va_arg list \<Rightarrow> (ast_expr \<times> va_arg list) result" where
  "va_expr (VExpr x # args) = Inr (x, args)"
| "va_expr _ = va_bad"

fun va_exprs :: "va_arg list \<Rightarrow> (ast_expr list \<times> va_arg list) result" where
  "va_exprs (VExprs x # args) = Inr (x, args)"
| "va_exprs _ = va_bad"

fun va_path :: "va_arg list \<Rightarrow> (ast_path \<times> va_arg list) result" where
  "va_path (VPath x # args) = Inr (x, args)"
| "va_path _ = va_bad"

fun va_tok :: "va_arg list \<Rightarrow> (token \<times> va_arg list) result" where
  "va_tok (VTok x # args) = Inr (x, args)"
| "va_tok _ = va_bad"

fun va_str :: "va_arg list \<Rightarrow> (string \<times> va_arg list) result" where
  "va_str (VStr x # args) = Inr (x, args)"
| "va_str _ = va_bad"

fun va_stmt :: "va_arg list \<Rightarrow> (ast_stmt option \<times> va_arg list) result" where
  "va_stmt (VStmt x # args) = Inr (x, args)"
| "va_stmt _ = va_bad"

fun va_stmts :: "va_arg list \<Rightarrow> (ast_stmt option list \<times> va_arg list) result" where
  "va_stmts (VStmts x # args) = Inr (x, args)"
| "va_stmts _ = va_bad"

fun va_type :: "va_arg list \<Rightarrow> (ast_type option \<times> va_arg list) result" where
  "va_type (VType x # args) = Inr (x, args)"
| "va_type _ = va_bad"

fun va_sub :: "va_arg list \<Rightarrow> (subprogs \<times> va_arg list) result" where
  "va_sub (VSub x # args) = Inr (x, args)"
| "va_sub _ = va_bad"

fun va_decls :: "va_arg list \<Rightarrow> (ast_decls list \<times> va_arg list) result" where
  "va_decls (VDecls x # args) = Inr (x, args)"
| "va_decls _ = va_bad"

fun va_fields :: "va_arg list \<Rightarrow> (ast_record_field list \<times> va_arg list) result" where
  "va_fields (VFields x # args) = Inr (x, args)"
| "va_fields _ = va_bad"

text \<open>A null where the tree type has no option: the constructor stores it, and the first use fails.\<close>

definition nonnull_type :: "ast_type option \<Rightarrow> ast_type result" where
  "nonnull_type t = (case t of None \<Rightarrow> Inl (Undefined ''null type'') | Some t \<Rightarrow> Inr t)"

definition ast_expr_new :: "expr_tag \<Rightarrow> va_arg list \<Rightarrow> ast_expr result" where
  "ast_expr_new tag args = (case tag of
     EXPR_APP_T \<Rightarrow> bindr (va_path args) (\<lambda>(name, args).
       bindr (va_exprs args) (\<lambda>(es, _). Inr (EXPR_APP name es)))
   | EXPR_BIN_T \<Rightarrow> bindr (va_expr args) (\<lambda>(left, args).
       bindr (va_tok args) (\<lambda>(op, args).
       bindr (va_expr args) (\<lambda>(right, _). Inr (EXPR_BIN left op right))))
   | EXPR_DEREF_T \<Rightarrow> bindr (va_expr args) (\<lambda>(e, _). Inr (EXPR_DEREF e))
   | EXPR_IDX_T \<Rightarrow> bindr (va_path args) (\<lambda>(path, args).
       bindr (va_expr args) (\<lambda>(e, _). Inr (EXPR_IDX path e)))
   | EXPR_LIT_T \<Rightarrow> bindr (va_str args) (\<lambda>(lit, _). Inr (EXPR_LIT lit))
   | EXPR_PATH_T \<Rightarrow> bindr (va_path args) (\<lambda>(path, _). Inr (EXPR_PATH path))
   | EXPR_UN_T \<Rightarrow> bindr (va_tok args) (\<lambda>(op, args).
       bindr (va_expr args) (\<lambda>(e, _). Inr (EXPR_UN op e)))
   | EXPR_ADDROF_T \<Rightarrow> bindr (va_expr args) (\<lambda>(e, _). Inr (EXPR_ADDROF e)))"

definition ast_stmt_new :: "stmt_tag \<Rightarrow> va_arg list \<Rightarrow> ast_stmt result" where
  "ast_stmt_new tag args = (case tag of
     STMT_ASSIGN_T \<Rightarrow> bindr (va_expr args) (\<lambda>(lvalue, args).
       bindr (va_expr args) (\<lambda>(rvalue, _). Inr (STMT_ASSIGN lvalue rvalue)))
   | STMT_FOR_T \<Rightarrow> bindr (va_str args) (\<lambda>(i, args).
       bindr (va_expr args) (\<lambda>(start, args).
       bindr (va_expr args) (\<lambda>(stop, args).
       bindr (va_stmt args) (\<lambda>(body, _). Inr (STMT_FOR i start stop body)))))
   | STMT_ITE_T \<Rightarrow> bindr (va_expr args) (\<lambda>(c, args).
       bindr (va_stmt args) (\<lambda>(th, args).
       bindr (va_stmt args) (\<lambda>(el, _). Inr (STMT_ITE c th el))))
   | STMT_PROC_T \<Rightarrow> bindr (va_path args) (\<lambda>(name, args).
       bindr (va_exprs args) (\<lambda>(es, _). Inr (STMT_PROC name es)))
   | STMT_STMTS_T \<Rightarrow> bindr (va_stmts args) (\<lambda>(ss, _). Inr (STMT_STMTS ss))
   | STMT_WDO_T \<Rightarrow> bindr (va_expr args) (\<lambda>(c, args).
       bindr (va_stmt args) (\<lambda>(body, _). Inr (STMT_WDO c body))))"

text \<open>\<open>ast_type_new\<close> (\<open>ast_type\<close>) knows every tag but \<open>TYPE_VOID\<close>.\<close>

definition ast_type_new :: "type_tag \<Rightarrow> va_arg list \<Rightarrow> ast_type option result" where
  "ast_type_new tag args = (case tag of
     TYPE_ARRAY_T \<Rightarrow> bindr (va_str args) (\<lambda>(lower, args).
       bindr (va_str args) (\<lambda>(upper, args).
       bindr (va_type args) (\<lambda>(t, _).
       bindr (nonnull_type t) (\<lambda>elt. Inr (Some (TYPE_ARRAY lower upper elt))))))
   | TYPE_POINTER_T \<Rightarrow> bindr (va_type args) (\<lambda>(t, _).
       bindr (nonnull_type t) (\<lambda>p. Inr (Some (TYPE_POINTER p))))
   | TYPE_FUNCTION_T \<Rightarrow> bindr (va_sub args) (\<lambda>(k, args).
       bindr (va_decls args) (\<lambda>(ds, args).
       bindr (va_type args) (\<lambda>(retty, _). Inr (Some (TYPE_FUNCTION k ds retty)))))
   | TYPE_RECORD_T \<Rightarrow> bindr (va_fields args) (\<lambda>(fs, _). Inr (Some (TYPE_RECORD fs)))
   | TYPE_REF_T \<Rightarrow> bindr (va_str args) (\<lambda>(n, _). Inr (Some (TYPE_REF n)))
   | TYPE_INTEGER_T \<Rightarrow> Inr (Some TYPE_INTEGER)
   | TYPE_REAL_T \<Rightarrow> Inr (Some TYPE_REAL)
   | TYPE_STRING_T \<Rightarrow> Inr (Some TYPE_STRING)
   | TYPE_BOOLEAN_T \<Rightarrow> Inr (Some TYPE_BOOLEAN)
   | TYPE_CHAR_T \<Rightarrow> Inr (Some TYPE_CHAR)
   | TYPE_VOID_T \<Rightarrow> Inr None)"

definition ast_path_new :: "string \<Rightarrow> ast_path" where
  "ast_path_new c = [c]"

definition ast_path_append :: "ast_path \<Rightarrow> string \<Rightarrow> ast_path" where
  "ast_path_append p n = p @ [n]"

definition ast_decls_new :: "string list \<Rightarrow> ast_type \<Rightarrow> ast_decls" where
  "ast_decls_new names t = Decls names t"

definition ast_subprogram_decl ::
  "ast_type \<Rightarrow> string \<Rightarrow> ast_subdecl list \<Rightarrow> ast_type_decl list \<Rightarrow> ast_decls list \<Rightarrow>
   ast_stmt option \<Rightarrow> ast_subdecl" where
  "ast_subprogram_decl sig name subprogs types decls body = Subdecl sig name decls subprogs types body"

definition ast_program_new ::
  "string \<Rightarrow> string list \<Rightarrow> ast_decls list \<Rightarrow> ast_type_decl list \<Rightarrow> ast_subdecl list \<Rightarrow>
   ast_stmt option \<Rightarrow> ast_program" where
  "ast_program_new name args decls types subprogs body =
     \<lparr>p_name = name, p_args = args, p_decls = decls, p_subprogs = subprogs, p_types = types,
      p_body = body\<rparr>"

definition ast_type_decl_new :: "string \<Rightarrow> ast_type \<Rightarrow> ast_type_decl" where
  "ast_type_decl_new name t = \<lparr>td_name = name, td_type = t\<rparr>"

definition ast_record_field_new :: "string \<Rightarrow> ast_type \<Rightarrow> ast_record_field" where
  "ast_record_field_new name t = Field name t"

end
