(* ===== verification/HashTable.thy ===== *)
theory HashTable
  imports Prelude
begin

unbundle bit_operations_syntax

text \<open>
  The chained hash table of util.h and util.c (\<open>struct hash_table\<close>) with its hash function
  \<open>hashpjw\<close>. A table keeps, as the C struct does, the number of buckets, the hash and comparison
  functions and the array of buckets; a bucket is the list of its entries in insertion order (the
  list of theory DList, used here for iteration and append only). \<open>None\<close> is the \<open>(void *)-1\<close> that
  \<open>hash_lookup\<close> returns for an absent key.

  The lemmas show that a table stands for a map and that insertion and lookup are update and
  application of it; the locale \<open>map_impl\<close> is that contract. The macro \<open>HFOREACH\<close> does not visit
  every bucket once: \<open>hfe_order\<close> computes what it does visit.
\<close>

section \<open>The hash function\<close>

definition hashpjw_step :: "64 word \<Rightarrow> char \<Rightarrow> 64 word" where
  "hashpjw_step h c =
     (let h = push_bit 4 h + scast (of_char c :: 8 word);
          g = h AND 0xf000000000000000 in
      if g \<noteq> 0 then (h XOR drop_bit 48 g) XOR g else h)"

definition hashpjw :: "string \<Rightarrow> 64 word" where
  "hashpjw s = foldl hashpjw_step 0 s"

text \<open>\<open>hash_pointer\<close> hashes the eight bytes of the pointer, lowest first (x86).\<close>

definition hash_pointer :: "64 word \<Rightarrow> 64 word" where
  "hash_pointer p = hashpjw (map (\<lambda>i. char_of (uint (drop_bit (8 * i) p))) [0..<8])"

definition compare_pointer :: "64 word \<Rightarrow> 64 word \<Rightarrow> bool" where
  "compare_pointer a b \<longleftrightarrow> a = b"

text \<open>The top four bits are clear after every step, so the next shift loses nothing.\<close>

lemma top_nibble: "(0xf000000000000000 :: 64 word) = push_bit 60 (mask 4)"
  by (simp add: mask_eq_exp_minus_1 push_bit_eq_mult)

lemma bit_top_nibble: "bit (0xf000000000000000 :: 64 word) n \<longleftrightarrow> 60 \<le> n \<and> n < 64"
  unfolding top_nibble by (auto simp: bit_simps)

lemma clear_top:
  assumes "\<And>n. bit m n \<longleftrightarrow> 60 \<le> n \<and> n < 64"
  shows "((h XOR drop_bit 48 (h AND m)) XOR (h AND m)) AND m = (0 :: 64 word)"
  by (rule bit_word_eqI) (auto simp: assms bit_and_iff bit_xor_iff bit_drop_bit_eq)

lemma hashpjw_step_top: "hashpjw_step h c AND 0xf000000000000000 = 0"
  unfolding hashpjw_step_def Let_def using clear_top [OF bit_top_nibble] by auto

lemma clear_top_bound:
  assumes m: "\<And>n. bit m n \<longleftrightarrow> 60 \<le> n \<and> n < 64" and "h AND m = (0 :: 64 word)"
  shows "h < 2 ^ 60"
proof -
  have "take_bit 60 h = h"
  proof (rule bit_word_eqI)
    fix n assume "n < LENGTH(64)"
    have "\<not> bit (h AND m) n" by (simp add: assms(2))
    with \<open>n < LENGTH(64)\<close> show "bit (take_bit 60 h) n = bit h n"
      by (auto simp: bit_and_iff m bit_take_bit_iff)
  qed
  then have "uint h = take_bit 60 (uint h)" by (metis unsigned_take_bit_eq)
  then have "uint h < 2 ^ 60" by (metis take_bit_int_less_exp)
  then show ?thesis by (simp add: word_less_def)
qed

lemma hashpjw_step_bound: "hashpjw_step h c < 2 ^ 60"
  by (rule clear_top_bound [OF bit_top_nibble]) (rule hashpjw_step_top)

lemma hashpjw_bound: "hashpjw s < 2 ^ 60"
proof (cases s rule: rev_cases)
  case Nil
  then show ?thesis by (simp add: hashpjw_def)
next
  case (snoc t c)
  then show ?thesis by (simp only: hashpjw_def foldl_append foldl.simps hashpjw_step_bound)
qed


section \<open>The table\<close>

record ('k, 'v) hash_table =
  ht_num_buckets :: nat
  ht_hash :: "'k \<Rightarrow> 64 word"
  ht_comp :: "'k \<Rightarrow> 'k \<Rightarrow> bool"
  ht_buckets :: "nat \<Rightarrow> ('k \<times> 'v) list"

definition hash_new :: "nat \<Rightarrow> ('k \<Rightarrow> 64 word) \<Rightarrow> ('k \<Rightarrow> 'k \<Rightarrow> bool) \<Rightarrow> ('k, 'v) hash_table" where
  "hash_new n hash cmp = \<lparr>ht_num_buckets = n, ht_hash = hash, ht_comp = cmp, ht_buckets = (\<lambda>_. [])\<rparr>"

text \<open>The macro \<open>HASH\<close>: the index of a key's bucket. A remainder by 0 is undefined.\<close>

definition ht_index :: "('k, 'v) hash_table \<Rightarrow> 'k \<Rightarrow> nat" where
  "ht_index t k = nat (uint (ht_hash t k) mod int (ht_num_buckets t))"

fun bucket_lookup :: "('k \<Rightarrow> 'k \<Rightarrow> bool) \<Rightarrow> 'k \<Rightarrow> ('k \<times> 'v) list \<Rightarrow> 'v option" where
  "bucket_lookup cmp k [] = None"
| "bucket_lookup cmp k ((k', v) # es) = (if cmp k k' then Some v else bucket_lookup cmp k es)"

definition hash_lookup :: "('k, 'v) hash_table \<Rightarrow> 'k \<Rightarrow> 'v option result" where
  "hash_lookup t k =
     (if ht_num_buckets t = 0 then Inl (Undefined ''remainder by zero'')
      else Inr (bucket_lookup (ht_comp t) k (ht_buckets t (ht_index t k))))"

text \<open>
  \<open>hash_insert\<close> walks the whole bucket and remembers the last entry that compares equal (\<open>elt\<close>);
  it overwrites that entry's value, or appends a new entry.
\<close>

fun last_match :: "('k \<Rightarrow> 'k \<Rightarrow> bool) \<Rightarrow> 'k \<Rightarrow> ('k \<times> 'v) list \<Rightarrow> nat \<Rightarrow> nat option \<Rightarrow> nat option" where
  "last_match cmp k [] i elt = elt"
| "last_match cmp k ((k', v) # es) i elt =
     last_match cmp k es (Suc i) (if cmp k k' then Some i else elt)"

definition bucket_insert :: "('k \<Rightarrow> 'k \<Rightarrow> bool) \<Rightarrow> 'k \<Rightarrow> 'v \<Rightarrow> ('k \<times> 'v) list \<Rightarrow> ('k \<times> 'v) list" where
  "bucket_insert cmp k v es =
     (case last_match cmp k es 0 None of
        Some i \<Rightarrow> es[i := (fst (es ! i), v)]
      | None \<Rightarrow> es @ [(k, v)])"

definition hash_insert :: "('k, 'v) hash_table \<Rightarrow> 'k \<Rightarrow> 'v \<Rightarrow> ('k, 'v) hash_table result" where
  "hash_insert t k v =
     (if ht_num_buckets t = 0 then Inl (Undefined ''remainder by zero'')
      else Inr (t\<lparr>ht_buckets := (ht_buckets t)
        (ht_index t k := bucket_insert (ht_comp t) k v (ht_buckets t (ht_index t k)))\<rparr>))"

text \<open>\<open>hash_free\<close>: the entries handed to the two destructors, bucket by bucket.\<close>

definition hash_free :: "('k, 'v) hash_table \<Rightarrow> ('k \<times> 'v) list" where
  "hash_free t = concat (map (ht_buckets t) [0..<ht_num_buckets t])"

text \<open>
  \<open>HFOREACH\<close>: the loop \<open>for (__hi = 0, b = buckets[0]; __hi < n; b = buckets[__hi++])\<close>. The
  argument \<open>b\<close> is the index of the bucket at hand, \<open>hi\<close> the counter.
\<close>

function hfe_from :: "nat \<Rightarrow> nat \<Rightarrow> nat \<Rightarrow> nat list" where
  "hfe_from n hi b = (if hi < n then b # hfe_from n (Suc hi) hi else [])"
  by pat_completeness auto
termination
  by (relation "measure (\<lambda>(n, hi, b). n - hi)") auto

declare hfe_from.simps [simp del]

definition hfe_order :: "nat \<Rightarrow> nat list" where
  "hfe_order n = hfe_from n 0 0"

definition hforeach :: "('k, 'v) hash_table \<Rightarrow> ('k \<times> 'v) list" where
  "hforeach t = concat (map (ht_buckets t) (hfe_order (ht_num_buckets t)))"

lemma hfe_from_eq: "hi < n \<Longrightarrow> hfe_from n hi b = b # [hi..<n - 1]"
proof (induction n hi b rule: hfe_from.induct)
  case (1 n hi b)
  show ?case
  proof (cases "Suc hi < n")
    case True
    with 1 show ?thesis by (subst hfe_from.simps) (simp add: upt_rec [of hi])
  next
    case False
    with "1.prems" have "n = Suc hi" by simp
    then show ?thesis by (simp add: hfe_from.simps)
  qed
qed

lemma hfe_order_eq: "0 < n \<Longrightarrow> hfe_order n = 0 # [0..<n - 1]"
  by (simp add: hfe_order_def hfe_from_eq)

section \<open>The table stands for a map\<close>

definition ht_map :: "('k, 'v) hash_table \<Rightarrow> 'k \<Rightarrow> 'v option" where
  "ht_map t k = map_of (ht_buckets t (ht_index t k)) k"

text \<open>
  The invariant: some buckets, a comparison that is equality, no key twice in a bucket, and every
  entry in the bucket its key hashes to.
\<close>

definition ht_inv :: "('k, 'v) hash_table \<Rightarrow> bool" where
  "ht_inv t \<longleftrightarrow> 0 < ht_num_buckets t \<and> ht_comp t = (=)
     \<and> (\<forall>i. distinct (map fst (ht_buckets t i)) \<and> (\<forall>k \<in> fst ` set (ht_buckets t i). ht_index t k = i))"

lemma bucket_lookup_eq: "bucket_lookup (=) k es = map_of es k"
  by (induction es) auto

lemma last_match_absent: "k \<notin> fst ` set es \<Longrightarrow> last_match (=) k es i elt = elt"
  by (induction es arbitrary: i elt) auto

lemma last_match_present:
  "k \<notin> fst ` set as \<Longrightarrow> k \<notin> fst ` set bs \<Longrightarrow>
   last_match (=) k (as @ (k, v) # bs) i elt = Some (i + length as)"
  by (induction as arbitrary: i elt) (auto simp: last_match_absent)

lemma bucket_insert_absent: "k \<notin> fst ` set es \<Longrightarrow> bucket_insert (=) k v es = es @ [(k, v)]"
  by (simp add: bucket_insert_def last_match_absent)

lemma bucket_insert_present:
  "k \<notin> fst ` set as \<Longrightarrow> k \<notin> fst ` set bs \<Longrightarrow>
   bucket_insert (=) k v (as @ (k, u) # bs) = as @ (k, v) # bs"
  by (simp add: bucket_insert_def last_match_present)

lemma distinct_split:
  assumes "distinct (map fst es)" and "k \<in> fst ` set es"
  obtains as u bs where "es = as @ (k, u) # bs" "k \<notin> fst ` set as" "k \<notin> fst ` set bs"
proof -
  from assms(2) obtain u where "(k, u) \<in> set es" by auto
  then obtain as bs where es: "es = as @ (k, u) # bs" by (meson split_list)
  with assms(1) that show thesis by auto
qed

lemma bucket_insert_props:
  assumes "distinct (map fst es)"
  shows "map_of (bucket_insert (=) k v es) = (map_of es)(k \<mapsto> v)"
    and "distinct (map fst (bucket_insert (=) k v es))"
    and "fst ` set (bucket_insert (=) k v es) = insert k (fst ` set es)"
proof -
  consider "k \<notin> fst ` set es"
    | as u bs where "es = as @ (k, u) # bs" "k \<notin> fst ` set as" "k \<notin> fst ` set bs"
    using distinct_split [OF assms] by metis
  then have "map_of (bucket_insert (=) k v es) = (map_of es)(k \<mapsto> v)
    \<and> distinct (map fst (bucket_insert (=) k v es))
    \<and> fst ` set (bucket_insert (=) k v es) = insert k (fst ` set es)"
  proof cases
    case 1
    then have "map_of es k = None" by (simp add: map_of_eq_None_iff)
    with 1 assms show ?thesis
      by (auto simp: bucket_insert_absent map_add_def fun_eq_iff split: option.splits)
  next
    case 2
    then have "map_of as k = None" by (simp add: map_of_eq_None_iff)
    with 2 assms show ?thesis
      by (auto simp: bucket_insert_present map_add_def fun_eq_iff split: option.splits)
  qed
  then show "map_of (bucket_insert (=) k v es) = (map_of es)(k \<mapsto> v)"
    and "distinct (map fst (bucket_insert (=) k v es))"
    and "fst ` set (bucket_insert (=) k v es) = insert k (fst ` set es)"
    by blast+
qed

lemma hash_new_inv: "0 < n \<Longrightarrow> ht_inv (hash_new n hash (=))"
  by (simp add: ht_inv_def hash_new_def)

lemma hash_new_map: "ht_map (hash_new n hash cmp) = Map.empty"
  by (simp add: ht_map_def hash_new_def fun_eq_iff)

lemma hash_lookup_map: "ht_inv t \<Longrightarrow> hash_lookup t k = Inr (ht_map t k)"
  by (simp add: hash_lookup_def ht_inv_def ht_map_def bucket_lookup_eq)

lemma hash_insert_inv:
  assumes "ht_inv t"
  shows "\<exists>t'. hash_insert t k v = Inr t' \<and> ht_inv t' \<and> ht_map t' = (ht_map t)(k \<mapsto> v)"
proof -
  let ?b = "bucket_insert (=) k v (ht_buckets t (ht_index t k))"
  let ?t = "t\<lparr>ht_buckets := (ht_buckets t)(ht_index t k := ?b)\<rparr>"
  have d: "distinct (map fst (ht_buckets t (ht_index t k)))"
    using assms by (auto simp: ht_inv_def)
  have idx: "ht_index ?t = ht_index t" by (simp add: ht_index_def fun_eq_iff)
  have "hash_insert t k v = Inr ?t"
    using assms by (simp add: hash_insert_def ht_inv_def)
  moreover have "\<forall>k' \<in> fst ` set ?b. ht_index t k' = ht_index t k"
    unfolding bucket_insert_props(3) [OF d] using assms by (auto simp: ht_inv_def)
  then have "ht_inv ?t"
    using assms bucket_insert_props(2) [OF d, of k v] by (auto simp: ht_inv_def idx)
  moreover have "ht_map ?t = (ht_map t)(k \<mapsto> v)"
    using bucket_insert_props(1) [OF d] by (auto simp: ht_map_def idx fun_eq_iff)
  ultimately show ?thesis by blast
qed

section \<open>The interface\<close>

text \<open>
  What a client of a table relies on: the table stands for a map, lookup applies it, insertion
  updates it.
\<close>

locale map_impl =
  fixes inv :: "'t \<Rightarrow> bool"
    and abs :: "'t \<Rightarrow> 'k \<Rightarrow> 'v option"
    and lookup :: "'t \<Rightarrow> 'k \<Rightarrow> 'v option result"
    and insert :: "'t \<Rightarrow> 'k \<Rightarrow> 'v \<Rightarrow> 't result"
  assumes lookup: "inv t \<Longrightarrow> lookup t k = Inr (abs t k)"
    and insert: "inv t \<Longrightarrow> \<exists>t'. insert t k v = Inr t' \<and> inv t' \<and> abs t' = (abs t)(k \<mapsto> v)"
begin

lemma insert_Inr:
  assumes "inv t" and "insert t k v = Inr t'"
  shows "inv t'" and "abs t' = (abs t)(k \<mapsto> v)"
  using insert [OF assms(1), of k v] assms(2) by auto

lemma lookup_insert:
  assumes "inv t" and "insert t k v = Inr t'"
  shows "lookup t' k' = (if k' = k then Inr (Some v) else lookup t k')"
  using insert_Inr [OF assms] lookup assms(1) by auto

text \<open>
  Looking a name up along a list of tables, innermost first: the first table that binds it decides.
\<close>

fun chain_lookup :: "'t list \<Rightarrow> 'k \<Rightarrow> 'v option result" where
  "chain_lookup [] k = Inr None"
| "chain_lookup (t # ts) k =
     bindr (lookup t k) (\<lambda>r. case r of Some v \<Rightarrow> Inr (Some v) | None \<Rightarrow> chain_lookup ts k)"

fun chain_abs :: "'t list \<Rightarrow> 'k \<Rightarrow> 'v option" where
  "chain_abs [] = Map.empty"
| "chain_abs (t # ts) = chain_abs ts ++ abs t"

lemma chain_lookup_abs: "\<forall>t \<in> set ts. inv t \<Longrightarrow> chain_lookup ts k = Inr (chain_abs ts k)"
  by (induction ts) (auto simp: lookup map_add_def split: option.splits)

end

interpretation ht: map_impl ht_inv ht_map hash_lookup hash_insert
  by unfold_locales (simp_all add: hash_lookup_map hash_insert_inv)

end
