(* ===== verification/PtrVec.thy ===== *)
theory PtrVec
  imports Prelude
begin

text \<open>
  The growable vector of util.h and util.c (\<open>struct ptrvec\<close>): a length, a capacity and the memory
  cells \<open>data\<close> points to. A cell at or beyond the capacity is outside the allocation; a cell inside
  it that was never written holds no element (\<open>calloc\<close>'s zero, or whatever \<open>realloc\<close> left).
  The lemmas show that a vector made with a positive capacity keeps its length below its capacity
  and stands for the list of the elements pushed; \<open>ptrvec_pop\<close> is the exception, it reads the cell
  behind the last element. The locale \<open>table\<close> is the interface of the symbol table's arenas: a
  table is only ever appended to, so an index once given out keeps its entry.
\<close>

record 'a ptrvec =
  pv_length :: nat
  pv_capacity :: nat
  pv_data :: "nat \<Rightarrow> 'a option"

section \<open>Operations\<close>

text \<open>
  \<open>ptrvec_wcap\<close>: \<open>calloc(cap, 8)\<close>. For a capacity of 0 the C library may return null, and then the
  function aborts: the parameter \<open>calloc0\<close> says whether it returns a block.
\<close>

definition ptrvec_wcap :: "bool \<Rightarrow> nat \<Rightarrow> 'a ptrvec result" where
  "ptrvec_wcap calloc0 cap =
     (if cap = 0 \<and> \<not> calloc0 then Inl Abort
      else Inr \<lparr>pv_length = 0, pv_capacity = cap, pv_data = Map.empty\<rparr>)"

definition ptrvec_reserve :: "'a ptrvec \<Rightarrow> nat \<Rightarrow> 'a ptrvec" where
  "ptrvec_reserve v len =
     (if len < pv_capacity v then v else v\<lparr>pv_capacity := pv_capacity v * 2\<rparr>)"

text \<open>Writing and reading \<open>data[idx]\<close>: undefined outside the allocated block.\<close>

definition pv_write :: "'a ptrvec \<Rightarrow> nat \<Rightarrow> 'a \<Rightarrow> 'a ptrvec result" where
  "pv_write v i x = (if i < pv_capacity v then Inr (v\<lparr>pv_data := (pv_data v)(i \<mapsto> x)\<rparr>)
     else Inl (Undefined ''write outside the vector''))"

definition pv_read :: "'a ptrvec \<Rightarrow> nat \<Rightarrow> 'a option result" where
  "pv_read v i = (if i < pv_capacity v then Inr (pv_data v i)
     else Inl (Undefined ''read outside the vector''))"

definition ptrvec_push :: "'a ptrvec \<Rightarrow> 'a \<Rightarrow> (nat \<times> 'a ptrvec) result" where
  "ptrvec_push v x =
     (let idx = pv_length v;
          v = v\<lparr>pv_length := pv_length v + 1\<rparr>;
          v = ptrvec_reserve v (pv_length v) in
      bindr (pv_write v idx x) (\<lambda>v. Inr (idx, v)))"

text \<open>
  \<open>ptrvec_pop\<close>: \<open>idx = vec->length--\<close> is the old length. The decrement of a \<open>size_t\<close> that is 0 wraps.
\<close>

definition ptrvec_pop :: "'a ptrvec \<Rightarrow> ('a option \<times> 'a ptrvec) result" where
  "ptrvec_pop v =
     (let idx = pv_length v;
          v = v\<lparr>pv_length := (if pv_length v = 0 then 2 ^ 64 - 1 else pv_length v - 1)\<rparr> in
      bindr (pv_read v idx) (\<lambda>x. Inr (x, v)))"

definition ptrvec_last :: "'a ptrvec \<Rightarrow> 'a option result" where
  "ptrvec_last v = (if pv_length v = 0 then Inl (Undefined ''read outside the vector'')
     else pv_read v (pv_length v - 1))"

fun ptrvec_push_all :: "'a ptrvec \<Rightarrow> 'a list \<Rightarrow> 'a ptrvec result" where
  "ptrvec_push_all v [] = Inr v"
| "ptrvec_push_all v (x # xs) = bindr (ptrvec_push v x) (\<lambda>(_, v). ptrvec_push_all v xs)"

text \<open>\<open>ptrvec_new\<close>: a vector of the variable arguments.\<close>

definition ptrvec_new :: "bool \<Rightarrow> 'a list \<Rightarrow> 'a ptrvec result" where
  "ptrvec_new calloc0 xs = bindr (ptrvec_wcap calloc0 (length xs)) (\<lambda>v. ptrvec_push_all v xs)"

text \<open>\<open>ptrvec_free\<close>: the entries handed to the destructor, in order.\<close>

definition ptrvec_free :: "'a ptrvec \<Rightarrow> 'a option list" where
  "ptrvec_free v = map (pv_data v) [0..<pv_length v]"

section \<open>The vector stands for a list\<close>

definition pv_inv :: "'a ptrvec \<Rightarrow> bool" where
  "pv_inv v \<longleftrightarrow> pv_length v < pv_capacity v \<and> (\<forall>i. pv_data v i = None \<longleftrightarrow> pv_length v \<le> i)"

definition pv_list :: "'a ptrvec \<Rightarrow> 'a list" where
  "pv_list v = map (\<lambda>i. the (pv_data v i)) [0..<pv_length v]"

lemma length_pv_list [simp]: "length (pv_list v) = pv_length v"
  by (simp add: pv_list_def)

lemma pv_inv_cap: "pv_inv v \<Longrightarrow> pv_length v < pv_capacity v"
  by (simp add: pv_inv_def)

lemma pv_inv_data: "pv_inv v \<Longrightarrow> (pv_data v i = None) = (pv_length v \<le> i)"
  by (simp add: pv_inv_def)

lemma pv_invI:
  "pv_length v < pv_capacity v \<Longrightarrow> (\<And>i. (pv_data v i = None) = (pv_length v \<le> i)) \<Longrightarrow> pv_inv v"
  by (simp add: pv_inv_def)

lemma ptrvec_wcap_inv: "0 < cap \<Longrightarrow> \<exists>v. ptrvec_wcap b cap = Inr v \<and> pv_inv v \<and> pv_list v = []"
  by (simp add: ptrvec_wcap_def pv_inv_def pv_list_def)

lemma ptrvec_push_inv:
  assumes inv: "pv_inv v"
  shows "\<exists>v'. ptrvec_push v x = Inr (pv_length v, v') \<and> pv_inv v' \<and> pv_list v' = pv_list v @ [x]"
proof -
  let ?n = "pv_length v"
  let ?v = "ptrvec_reserve (v\<lparr>pv_length := Suc ?n\<rparr>) (Suc ?n)"
  let ?v' = "?v\<lparr>pv_data := (pv_data v)(?n \<mapsto> x)\<rparr>"
  have v: "pv_length ?v = Suc ?n" "pv_data ?v = pv_data v" "Suc ?n < pv_capacity ?v"
    using pv_inv_cap [OF inv] by (auto simp: ptrvec_reserve_def)
  then have "ptrvec_push v x = Inr (?n, ?v')"
    by (simp add: ptrvec_push_def pv_write_def Let_def)
  moreover have "pv_inv ?v'"
  proof (rule pv_invI)
    show "(pv_data ?v' i = None) = (pv_length ?v' \<le> i)" for i
      using v pv_inv_data [OF inv, of i] by (cases "i = ?n") auto
  qed (use v in simp)
  moreover have "pv_list ?v' = pv_list v @ [x]"
    using v by (simp add: pv_list_def)
  ultimately show ?thesis by blast
qed

lemma pv_read_inv:
  assumes "pv_inv v" and "i < pv_length v"
  shows "pv_read v i = Inr (Some (pv_list v ! i))"
  using pv_inv_cap [OF assms(1)] pv_inv_data [OF assms(1), of i] assms(2)
  by (cases "pv_data v i") (simp_all add: pv_read_def pv_list_def)

lemma pv_read_Some: "pv_inv v \<Longrightarrow> pv_read v i = Inr (Some x) \<Longrightarrow> i < pv_length v"
  using pv_inv_data [of v i] by (simp add: pv_read_def linorder_not_le [symmetric] split: if_splits)

lemma pv_write_inv:
  assumes inv: "pv_inv v" and i: "i < pv_length v"
  shows "\<exists>v'. pv_write v i x = Inr v' \<and> pv_inv v' \<and> pv_list v' = (pv_list v)[i := x]"
proof -
  let ?v' = "v\<lparr>pv_data := (pv_data v)(i \<mapsto> x)\<rparr>"
  have "pv_write v i x = Inr ?v'"
    using pv_inv_cap [OF inv] i by (simp add: pv_write_def)
  moreover have "pv_inv ?v'"
  proof (rule pv_invI)
    show "(pv_data ?v' j = None) = (pv_length ?v' \<le> j)" for j
      using pv_inv_data [OF inv, of j] i by (cases "j = i") simp_all
  qed (use pv_inv_cap [OF inv] in simp)
  moreover have "pv_list ?v' = (pv_list v)[i := x]"
    using i by (simp add: pv_list_def list_eq_iff_nth_eq nth_list_update)
  ultimately show ?thesis by blast
qed

lemma ptrvec_last_inv: "pv_inv v \<Longrightarrow> pv_length v \<noteq> 0 \<Longrightarrow> ptrvec_last v = Inr (Some (last (pv_list v)))"
  by (auto simp: ptrvec_last_def pv_read_inv last_conv_nth pv_list_def)

lemma ptrvec_free_inv: "pv_inv v \<Longrightarrow> ptrvec_free v = map Some (pv_list v)"
  by (simp add: ptrvec_free_def pv_list_def pv_inv_data)

lemma ptrvec_push_all_inv:
  "pv_inv v \<Longrightarrow> \<exists>v'. ptrvec_push_all v xs = Inr v' \<and> pv_inv v' \<and> pv_list v' = pv_list v @ xs"
proof (induction xs arbitrary: v)
  case Nil
  then show ?case by simp
next
  case (Cons x xs)
  from ptrvec_push_inv [OF Cons.prems, of x] obtain v1 where
    v1: "ptrvec_push v x = Inr (pv_length v, v1)" "pv_inv v1" "pv_list v1 = pv_list v @ [x]" by blast
  from Cons.IH [OF v1(2)] v1 show ?case by simp
qed

section \<open>The interface of the arenas\<close>

locale table =
  fixes inv :: "'t \<Rightarrow> bool"
    and entries :: "'t \<Rightarrow> 'e list"
    and push :: "'t \<Rightarrow> 'e \<Rightarrow> (nat \<times> 't) result"
    and get :: "'t \<Rightarrow> nat \<Rightarrow> 'e option result"
  assumes push: "inv t \<Longrightarrow> \<exists>t'. push t e = Inr (length (entries t), t') \<and> inv t' \<and> entries t' = entries t @ [e]"
    and get: "inv t \<Longrightarrow> i < length (entries t) \<Longrightarrow> get t i = Inr (Some (entries t ! i))"
begin

text \<open>An index stays valid, and keeps its entry, whatever is pushed later.\<close>

lemma push_stable:
  assumes "inv t" and "push t e = Inr (i, t')"
  shows "i = length (entries t)" and "inv t'" and "get t' i = Inr (Some e)"
    and "j < length (entries t) \<Longrightarrow> get t' j = get t j"
  using push [OF assms(1), of e] assms get by (auto simp: nth_append)

end

interpretation pv: table pv_inv pv_list ptrvec_push pv_read
  by unfold_locales (simp_all add: ptrvec_push_inv pv_read_inv)

end
