(* ===== verification/Symbol.thy ===== *)
theory Symbol
  imports Ast HashTable PtrVec
begin

text \<open>
  The symbol table of symbol.h and symbol.c (\<open>struct stab\<close>): the arenas of variables and of types,
  the arena of scopes and the chain of the scopes that are open, innermost last. A \<open>size_t\<close> id is
  an \<open>int\<close>: an index into an arena, or \<open>RESOLVE_FAILURE\<close>, which is -1. A scope is reached through a
  pointer both from the chain and from the arena; its identity here is its index in the arena, so
  an update is seen through both. The chain is a list in the sense of theory DList
  (\<open>chain_impl\<close> below).

  Left out of the records: the \<open>defn\<close> fields (always null), the unused \<open>layout\<close> and
  \<open>stack_frame_length\<close>.
\<close>

definition RESOLVE_FAILURE :: int where "RESOLVE_FAILURE = -1"

definition MAGIC_READ :: int where "MAGIC_READ = -2"
definition MAGIC_READLN :: int where "MAGIC_READLN = -3"
definition MAGIC_WRITE :: int where "MAGIC_WRITE = -4"
definition MAGIC_WRITELN :: int where "MAGIC_WRITELN = -5"

definition INTEGER_TYPE_IDX :: int where "INTEGER_TYPE_IDX = 0"
definition REAL_TYPE_IDX :: int where "REAL_TYPE_IDX = 1"
definition STRING_TYPE_IDX :: int where "STRING_TYPE_IDX = 2"
definition BOOLEAN_TYPE_IDX :: int where "BOOLEAN_TYPE_IDX = 3"
definition CHAR_TYPE_IDX :: int where "CHAR_TYPE_IDX = 4"
definition VOID_TYPE_IDX :: int where "VOID_TYPE_IDX = 5"

definition ABI_POINTER_SIZE :: int where "ABI_POINTER_SIZE = 8"
definition ABI_POINTER_ALIGN :: int where "ABI_POINTER_ALIGN = 8"
definition ABI_CLOSURE_SIZE :: int where "ABI_CLOSURE_SIZE = 16"
definition ABI_CLOSURE_ALIGN :: int where "ABI_CLOSURE_ALIGN = 16"

lemmas magic_defs = MAGIC_READ_def MAGIC_READLN_def MAGIC_WRITE_def MAGIC_WRITELN_def

lemmas idx_defs = INTEGER_TYPE_IDX_def REAL_TYPE_IDX_def STRING_TYPE_IDX_def BOOLEAN_TYPE_IDX_def
  CHAR_TYPE_IDX_def VOID_TYPE_IDX_def RESOLVE_FAILURE_def

lemmas abi_defs = ABI_POINTER_SIZE_def ABI_POINTER_ALIGN_def ABI_CLOSURE_SIZE_def ABI_CLOSURE_ALIGN_def

section \<open>Records\<close>

text \<open>
  \<open>struct stab_resolved_type\<close>. The arguments of a function are the ids of its parameter variables;
  \<open>None\<close> is the null list of the built-in procedures.
\<close>

datatype stab_resolved_type =
    R_ARRAY (ra_lower: int) (ra_upper: int) (ra_elt: int)
  | R_BOOLEAN
  | R_CHAR
  | R_FUNCTION (rf_kind: subprogs) (rf_args: "int list option") (rf_retty: int) (rf_ret_assigned: bool)
  | R_INTEGER
  | R_POINTER (rp_target: int)
  | R_REAL
  | R_RECORD (rr_fields: "(string \<times> int) list")
  | R_REF
  | R_STRING
  | R_VOID

record stab_var =
  sv_type :: int
  sv_name :: string
  sv_disp_offset :: int
  sv_stack_base_offset :: int
  sv_captured :: bool

record stab_type =
  st_ty :: stab_resolved_type
  st_name :: string
  st_size :: int
  st_align :: int
  st_magic :: int

record stab_scope =
  sc_vars :: "(string, int) hash_table"
  sc_funcs :: "(string, int) hash_table"
  sc_types :: "(string, int) hash_table"

record stab =
  vars :: "stab_var ptrvec"
  types :: "stab_type ptrvec"
  scopes :: "stab_scope ptrvec"
  chain :: "nat list"

section \<open>Machine arithmetic\<close>

text \<open>
  Sizes are \<open>uint64_t\<close>, kept in \<open>0 ..< 2^64\<close>; a stack offset is a C \<open>int\<close>. Adding a \<open>uint64_t\<close> to
  an \<open>int\<close> and storing the sum keeps its low 32 bits.
\<close>

definition to_uint64 :: "int \<Rightarrow> int" where
  "to_uint64 x = x mod 2 ^ 64"

definition to_int32 :: "int \<Rightarrow> int" where
  "to_int32 x = (let y = x mod 2 ^ 32 in if y < 2 ^ 31 then y else y - 2 ^ 32)"

lemma to_int32_id: "- (2 ^ 31) \<le> x \<Longrightarrow> x < 2 ^ 31 \<Longrightarrow> to_int32 x = x"
proof -
  assume x: "- (2 ^ 31) \<le> x" "x < 2 ^ 31"
  show ?thesis
  proof (cases "0 \<le> x")
    case True
    with x have "x mod 2 ^ 32 = x" by (intro mod_pos_pos_trivial) auto
    with x show ?thesis by (simp add: to_int32_def)
  next
    case False
    with x have "(x + 2 ^ 32) mod 2 ^ 32 = x + 2 ^ 32" by (intro mod_pos_pos_trivial) auto
    then have "x mod 2 ^ 32 = x + 2 ^ 32" by simp
    with x False show ?thesis by (simp add: to_int32_def)
  qed
qed

text \<open>\<open>atoi\<close>: blanks, a sign, digits; a value outside \<open>int\<close> is undefined.\<close>

definition is_blank :: "char \<Rightarrow> bool" where
  "is_blank c \<longleftrightarrow> c = CHR 0x20 \<or> (9 \<le> (of_char c :: nat) \<and> (of_char c :: nat) \<le> 13)"

definition is_digit :: "char \<Rightarrow> bool" where
  "is_digit c \<longleftrightarrow> 48 \<le> (of_char c :: nat) \<and> (of_char c :: nat) \<le> 57"

definition digits_value :: "string \<Rightarrow> int" where
  "digits_value s = foldl (\<lambda>n c. 10 * n + (of_char c - 48)) 0 (takeWhile is_digit s)"

definition atoi :: "string \<Rightarrow> int result" where
  "atoi s =
     (let s = dropWhile is_blank s;
          v = (case s of
                 CHR ''-'' # t \<Rightarrow> - digits_value t
               | CHR ''+'' # t \<Rightarrow> digits_value t
               | _ \<Rightarrow> digits_value s) in
      if - (2 ^ 31) \<le> v \<and> v < 2 ^ 31 then Inr v else Inl (Undefined ''atoi out of range''))"

section \<open>Scopes\<close>

definition hash_string :: "string \<Rightarrow> 64 word" where
  "hash_string s = hashpjw s"

definition streq :: "string \<Rightarrow> string \<Rightarrow> bool" where
  "streq = (=)"

definition stab_scope_new :: stab_scope where
  "stab_scope_new =
     \<lparr>sc_vars = hash_new 256 hash_string streq, sc_funcs = hash_new 256 hash_string streq,
      sc_types = hash_new 256 hash_string streq\<rparr>"

text \<open>
  The chain as a list: \<open>list_add\<close>, \<open>list_pop\<close> (which crashes with one element, lemma
  \<open>list_pop_short\<close>) and the scope \<open>list_last\<close> points to. An empty list's \<open>last\<close> element is null,
  and every caller dereferences it.
\<close>

definition chain_add :: "nat list \<Rightarrow> nat \<Rightarrow> nat list result" where
  "chain_add c i = Inr (c @ [i])"

definition chain_pop :: "nat list \<Rightarrow> (nat \<times> nat list) result" where
  "chain_pop c = (if length c \<le> 1 then Inl (Undefined ''null pointer'') else Inr (last c, butlast c))"

definition chain_last :: "nat list \<Rightarrow> nat result" where
  "chain_last c = (if c = [] then Inl (Undefined ''null pointer'') else Inr (last c))"

definition scope_at :: "stab \<Rightarrow> nat \<Rightarrow> stab_scope result" where
  "scope_at st i = bindr (pv_read (scopes st) i) (\<lambda>sc. case sc of
       None \<Rightarrow> Inl (Undefined ''null pointer'') | Some sc \<Rightarrow> Inr sc)"

definition scope_put :: "stab \<Rightarrow> nat \<Rightarrow> stab_scope \<Rightarrow> stab result" where
  "scope_put st i sc = bindr (pv_write (scopes st) i sc) (\<lambda>v. Inr (st\<lparr>scopes := v\<rparr>))"

definition top_scope :: "stab \<Rightarrow> (nat \<times> stab_scope) result" where
  "top_scope st = bindr (chain_last (chain st)) (\<lambda>i.
     bindr (scope_at st i) (\<lambda>sc. Inr (i, sc)))"

definition stab_enter :: "stab \<Rightarrow> stab result" where
  "stab_enter st =
     bindr (ptrvec_push (scopes st) stab_scope_new) (\<lambda>(i, v).
     bindr (chain_add (chain st) i) (\<lambda>c.
     Inr (st\<lparr>scopes := v, chain := c\<rparr>)))"

definition stab_leave :: "stab \<Rightarrow> stab result" where
  "stab_leave st = bindr (chain_pop (chain st)) (\<lambda>(_, c). Inr (st\<lparr>chain := c\<rparr>))"

section \<open>Arena access\<close>

text \<open>The macros \<open>STAB_VAR\<close> and \<open>STAB_TYPE\<close>: no bounds check, so -1 is outside the arena.\<close>

definition STAB_VAR :: "stab \<Rightarrow> int \<Rightarrow> stab_var result" where
  "STAB_VAR st i = (if i < 0 then Inl (Undefined ''read outside the vector'')
     else bindr (pv_read (vars st) (nat i)) (\<lambda>v. case v of
       None \<Rightarrow> Inl (Undefined ''null pointer'') | Some v \<Rightarrow> Inr v))"

definition STAB_TYPE :: "stab \<Rightarrow> int \<Rightarrow> stab_type result" where
  "STAB_TYPE st i = (if i < 0 then Inl (Undefined ''read outside the vector'')
     else bindr (pv_read (types st) (nat i)) (\<lambda>t. case t of
       None \<Rightarrow> Inl (Undefined ''null pointer'') | Some t \<Rightarrow> Inr t))"

definition stab_var_put :: "stab \<Rightarrow> int \<Rightarrow> stab_var \<Rightarrow> stab result" where
  "stab_var_put st i v = bindr (pv_write (vars st) (nat i) v) (\<lambda>vs. Inr (st\<lparr>vars := vs\<rparr>))"

definition push_var :: "stab \<Rightarrow> stab_var \<Rightarrow> (int \<times> stab) result" where
  "push_var st v = bindr (ptrvec_push (vars st) v) (\<lambda>(i, vs). Inr (int i, st\<lparr>vars := vs\<rparr>))"

definition push_type :: "stab \<Rightarrow> stab_type \<Rightarrow> (int \<times> stab) result" where
  "push_type st t = bindr (ptrvec_push (types st) t) (\<lambda>(i, ts). Inr (int i, st\<lparr>types := ts\<rparr>))"

section \<open>A new table\<close>

definition basic_type :: "stab_resolved_type \<Rightarrow> string \<Rightarrow> int \<Rightarrow> stab_type" where
  "basic_type ty name sz =
     \<lparr>st_ty = ty, st_name = name, st_size = sz, st_align = sz, st_magic = 0\<rparr>"

definition basic_types :: "stab_type list" where
  "basic_types =
     [basic_type R_INTEGER ''integer'' 8, basic_type R_REAL ''real'' 8,
      basic_type R_STRING ''string'' ABI_POINTER_SIZE, basic_type R_BOOLEAN ''boolean'' 1,
      basic_type R_CHAR ''char'' 1, basic_type R_VOID ''<void>'' 4]"

definition stab_new :: "stab result" where
  "stab_new =
     bindr (ptrvec_wcap True 256) (\<lambda>vs.
     bindr (ptrvec_wcap True 256) (\<lambda>ts.
     bindr (ptrvec_wcap True 256) (\<lambda>scs.
     bindr (ptrvec_push_all ts basic_types) (\<lambda>ts.
     Inr \<lparr>vars = vs, types = ts, scopes = scs, chain = []\<rparr>))))"

section \<open>Resolution\<close>

text \<open>
  The loop the three resolve functions share (\<open>LFOREACHREV\<close> over the chain, with a \<open>continue\<close> on a
  lookup of -1); \<open>ids\<close> is the chain in the order it is walked.
\<close>

fun resolve_walk :: "stab \<Rightarrow> (stab_scope \<Rightarrow> (string, int) hash_table) \<Rightarrow> nat list \<Rightarrow> string \<Rightarrow> int result" where
  "resolve_walk st tab [] name = Inr RESOLVE_FAILURE"
| "resolve_walk st tab (i # ids) name =
     bindr (scope_at st i) (\<lambda>sc.
     bindr (hash_lookup (tab sc) name) (\<lambda>r. case r of
         None \<Rightarrow> resolve_walk st tab ids name
       | Some v \<Rightarrow> if v = -1 then resolve_walk st tab ids name else Inr v))"

definition stab_resolve_type_name :: "stab \<Rightarrow> string \<Rightarrow> int result" where
  "stab_resolve_type_name st name = resolve_walk st sc_types (rev (chain st)) name"

definition stab_resolve_func :: "stab \<Rightarrow> string \<Rightarrow> int result" where
  "stab_resolve_func st name = resolve_walk st sc_funcs (rev (chain st)) name"

definition stab_resolve_var :: "stab \<Rightarrow> string \<Rightarrow> int result" where
  "stab_resolve_var st name = resolve_walk st sc_vars (rev (chain st)) name"

definition has_local :: "stab \<Rightarrow> (stab_scope \<Rightarrow> (string, int) hash_table) \<Rightarrow> string \<Rightarrow> bool result" where
  "has_local st tab name =
     bindr (top_scope st) (\<lambda>(_, sc).
     bindr (hash_lookup (tab sc) name) (\<lambda>r.
     Inr (case r of None \<Rightarrow> False | Some v \<Rightarrow> v \<noteq> RESOLVE_FAILURE)))"

definition stab_has_local_type :: "stab \<Rightarrow> string \<Rightarrow> bool result" where
  "stab_has_local_type st name = has_local st sc_types name"

definition stab_has_local_var :: "stab \<Rightarrow> string \<Rightarrow> bool result" where
  "stab_has_local_var st name = has_local st sc_vars name"

definition stab_has_local_func :: "stab \<Rightarrow> string \<Rightarrow> bool result" where
  "stab_has_local_func st name = has_local st sc_funcs name"


section \<open>Adding variables\<close>

text \<open>
  \<open>stab_add_var\<close>: \<open>off\<close> is what \<open>curr_var_offset\<close> points to, \<open>None\<close> for a null pointer. Gives the id,
  the new offset and the table.
\<close>

definition stab_add_var ::
  "stab \<Rightarrow> string \<Rightarrow> int \<Rightarrow> int option \<Rightarrow> bool \<Rightarrow> (int \<times> int option \<times> stab) result" where
  "stab_add_var st name ty off add_to_locals =
     bindr (case off of
         None \<Rightarrow> Inr (-1, None)
       | Some p \<Rightarrow> bindr (STAB_TYPE st ty) (\<lambda>t.
           Inr (p, Some (to_int32 (p + (if add_to_locals then 1 else -1) * st_size t)))))
       (\<lambda>(base, off).
     bindr (push_var st \<lparr>sv_type = ty, sv_name = name, sv_disp_offset = -1,
         sv_stack_base_offset = base, sv_captured = False\<rparr>) (\<lambda>(vid, st).
     bindr (top_scope st) (\<lambda>(i, sc).
     bindr (hash_insert (sc_vars sc) name vid) (\<lambda>h.
     bindr (scope_put st i (sc\<lparr>sc_vars := h\<rparr>)) (\<lambda>st.
     Inr (vid, off, st))))))"

section \<open>Resolving types\<close>

definition type_entry :: "stab_resolved_type \<Rightarrow> string \<Rightarrow> int \<Rightarrow> int \<Rightarrow> stab_type" where
  "type_entry ty name sz al =
     \<lparr>st_ty = ty, st_name = name, st_size = sz, st_align = al, st_magic = 0\<rparr>"

text \<open>The trees get smaller: a weight that also counts the names of a declaration.\<close>

primrec ty_weight :: "ast_type \<Rightarrow> nat"
  and decls_weight :: "ast_decls \<Rightarrow> nat"
  and field_weight :: "ast_record_field \<Rightarrow> nat" where
  "ty_weight (TYPE_ARRAY l u t) = ty_weight t + 3"
| "ty_weight TYPE_BOOLEAN = 0"
| "ty_weight TYPE_CHAR = 0"
| "ty_weight (TYPE_FUNCTION k ds r) =
     sum_list (map decls_weight ds) + (case map_option ty_weight r of None \<Rightarrow> 0 | Some n \<Rightarrow> n) + 3"
| "ty_weight TYPE_INTEGER = 0"
| "ty_weight (TYPE_POINTER t) = ty_weight t + 3"
| "ty_weight TYPE_REAL = 0"
| "ty_weight (TYPE_RECORD fs) = sum_list (map field_weight fs) + 3"
| "ty_weight (TYPE_REF n) = 0"
| "ty_weight TYPE_STRING = 0"
| "ty_weight TYPE_VOID = 0"
| "decls_weight (Decls ns t) = ty_weight t + length ns + 5"
| "field_weight (Field n t) = ty_weight t + 5"

definition opt_weight :: "ast_type option \<Rightarrow> nat" where
  "opt_weight r = (case r of None \<Rightarrow> 0 | Some t \<Rightarrow> ty_weight t)"

text \<open>
  \<open>stab_resolve_type\<close> (a null type is void) and \<open>stab_resolve_complex_type\<close>, with the loops over the
  fields of a record and over the parameters of a subprogram. The entry of a record keeps the size 0
  and that of an array the alignment 0 of the zeroed allocation. The parameters become variables of
  the scope that is open when the signature is resolved.
\<close>

function (sequential)
  stab_resolve_type :: "stab \<Rightarrow> string \<Rightarrow> ast_type option \<Rightarrow> (int \<times> stab) result"
  and stab_resolve_complex_type :: "stab \<Rightarrow> string \<Rightarrow> ast_type \<Rightarrow> (int \<times> stab) result"
  and resolve_fields :: "stab \<Rightarrow> ast_record_field list \<Rightarrow> ((string \<times> int) list \<times> stab) result"
  and resolve_params :: "stab \<Rightarrow> ast_decls list \<Rightarrow> (int list \<times> stab) result"
  and resolve_param_names :: "stab \<Rightarrow> string list \<Rightarrow> ast_type \<Rightarrow> (int list \<times> stab) result"
where
  "stab_resolve_type st name None = Inr (VOID_TYPE_IDX, st)"
| "stab_resolve_type st name (Some ty) = (case ty of
       TYPE_REF n \<Rightarrow> bindr (stab_resolve_type_name st n) (\<lambda>i. Inr (i, st))
     | TYPE_INTEGER \<Rightarrow> Inr (INTEGER_TYPE_IDX, st)
     | TYPE_REAL \<Rightarrow> Inr (REAL_TYPE_IDX, st)
     | TYPE_STRING \<Rightarrow> Inr (STRING_TYPE_IDX, st)
     | TYPE_BOOLEAN \<Rightarrow> Inr (BOOLEAN_TYPE_IDX, st)
     | TYPE_CHAR \<Rightarrow> Inr (CHAR_TYPE_IDX, st)
     | TYPE_VOID \<Rightarrow> Inr (VOID_TYPE_IDX, st)
     | _ \<Rightarrow> stab_resolve_complex_type st name ty)"
| "stab_resolve_complex_type st name (TYPE_POINTER t) =
     bindr (stab_resolve_type st name (Some t)) (\<lambda>(p, st).
     push_type st (type_entry (R_POINTER p) name ABI_POINTER_SIZE ABI_POINTER_ALIGN))"
| "stab_resolve_complex_type st name (TYPE_RECORD fs) =
     bindr (resolve_fields st fs) (\<lambda>(rfs, st).
     push_type st (type_entry (R_RECORD rfs) name 0 0))"
| "stab_resolve_complex_type st name (TYPE_ARRAY lower upper elt) =
     bindr (atoi lower) (\<lambda>lo.
     bindr (atoi upper) (\<lambda>up.
     bindr (stab_resolve_type st ''<array elts>'' (Some elt)) (\<lambda>(e, st).
     bindr (STAB_TYPE st e) (\<lambda>et.
     push_type st (type_entry (R_ARRAY lo up e) name (to_uint64 (st_size et * (up - lo))) 0)))))"
| "stab_resolve_complex_type st name (TYPE_FUNCTION k args retty) =
     bindr (stab_resolve_type st ''<func ret>'' retty) (\<lambda>(r, st).
     bindr (resolve_params st args) (\<lambda>(as, st).
     push_type st (type_entry (R_FUNCTION k (Some as) r False) name ABI_CLOSURE_SIZE ABI_CLOSURE_ALIGN)))"
| "stab_resolve_complex_type st name ty = Inl Abort"
| "resolve_fields st [] = Inr ([], st)"
| "resolve_fields st (Field n t # fs) =
     bindr (stab_resolve_type st n (Some t)) (\<lambda>(i, st).
     bindr (resolve_fields st fs) (\<lambda>(rfs, st).
     Inr ((n, i) # rfs, st)))"
| "resolve_params st [] = Inr ([], st)"
| "resolve_params st (Decls names t # ds) =
     bindr (resolve_param_names st names t) (\<lambda>(as, st).
     bindr (resolve_params st ds) (\<lambda>(bs, st).
     Inr (as @ bs, st)))"
| "resolve_param_names st [] t = Inr ([], st)"
| "resolve_param_names st (n # ns) t =
     bindr (stab_resolve_type st n (Some t)) (\<lambda>(i, st).
     bindr (stab_add_var st n i None False) (\<lambda>(vid, _, st).
     bindr (resolve_param_names st ns t) (\<lambda>(as, st).
     Inr (vid # as, st))))"
  by pat_completeness auto

termination
  by (relation "measure (\<lambda>x. case x of
        Inl (Inl (_, _, t)) \<Rightarrow> opt_weight t + 1
      | Inl (Inr (_, _, t)) \<Rightarrow> ty_weight t
      | Inr (Inl (_, fs)) \<Rightarrow> sum_list (map field_weight fs)
      | Inr (Inr (Inl (_, ds))) \<Rightarrow> sum_list (map decls_weight ds)
      | Inr (Inr (Inr (_, ns, t))) \<Rightarrow> ty_weight t + length ns + 2)")
    (auto simp: opt_weight_def split: option.splits)


section \<open>Adding declarations, subprograms and types\<close>

definition already_defined :: "string \<Rightarrow> failure" where
  "already_defined name = Span_Err (name @ '' is already defined'')"

fun add_names :: "stab \<Rightarrow> string list \<Rightarrow> int \<Rightarrow> int option \<Rightarrow> bool \<Rightarrow> (int option \<times> stab) result" where
  "add_names st [] ty off arguments = Inr (off, st)"
| "add_names st (n # ns) ty off arguments =
     bindr (stab_has_local_var st n) (\<lambda>b.
     if b then Inl (already_defined n)
     else bindr (stab_add_var st n ty off arguments) (\<lambda>(_, off, st).
       add_names st ns ty off arguments))"

definition stab_add_decls ::
  "stab \<Rightarrow> ast_decls \<Rightarrow> int option \<Rightarrow> bool \<Rightarrow> (int option \<times> stab) result" where
  "stab_add_decls st d off arguments =
     bindr (stab_resolve_type st ''<decls>'' (Some (d_type d))) (\<lambda>(ty, st).
     add_names st (d_names d) ty off arguments)"

definition bind_func :: "stab \<Rightarrow> string \<Rightarrow> int \<Rightarrow> stab result" where
  "bind_func st name i =
     bindr (top_scope st) (\<lambda>(s, sc).
     bindr (hash_insert (sc_funcs sc) name i) (\<lambda>h.
     scope_put st s (sc\<lparr>sc_funcs := h\<rparr>)))"

definition bind_type :: "stab \<Rightarrow> string \<Rightarrow> int \<Rightarrow> stab result" where
  "bind_type st name i =
     bindr (top_scope st) (\<lambda>(s, sc).
     bindr (hash_insert (sc_types sc) name i) (\<lambda>h.
     scope_put st s (sc\<lparr>sc_types := h\<rparr>)))"

definition is_function_type :: "ast_type \<Rightarrow> bool" where
  "is_function_type ty = (case ty of TYPE_FUNCTION _ _ _ \<Rightarrow> True | _ \<Rightarrow> False)"

definition stab_add_func :: "stab \<Rightarrow> string \<Rightarrow> ast_type \<Rightarrow> stab result" where
  "stab_add_func st name sig =
     (if \<not> is_function_type sig then Inl Abort else
      bindr (stab_has_local_func st name) (\<lambda>b.
      if b then Inl (already_defined name)
      else bindr (stab_resolve_complex_type st name sig) (\<lambda>(i, st). bind_func st name i)))"

definition stab_add_magic_func :: "stab \<Rightarrow> int \<Rightarrow> stab result" where
  "stab_add_magic_func st which =
     bindr (if which = MAGIC_READLN then Inr ''readln''
            else if which = MAGIC_READ then Inr ''read''
            else if which = MAGIC_WRITELN then Inr ''writeln''
            else if which = MAGIC_WRITE then Inr ''write''
            else Inl Abort) (\<lambda>name.
     bindr (push_type st \<lparr>st_ty = R_FUNCTION SUB_FUNCTION None 0 False, st_name = name,
         st_size = 0, st_align = 0, st_magic = which\<rparr>) (\<lambda>(i, st).
     bind_func st name i))"

text \<open>
  \<open>stab_add_type\<close>. \<open>stab_resolve_type\<close> takes over the name it is given: a compound type keeps it in
  its entry, for any other type it is freed (\<open>keeps_name\<close>), and the \<open>hash_insert\<close> that follows hashes
  freed memory.
\<close>

definition keeps_name :: "ast_type \<Rightarrow> bool" where
  "keeps_name ty = (case ty of
       TYPE_POINTER _ \<Rightarrow> True | TYPE_RECORD _ \<Rightarrow> True | TYPE_ARRAY _ _ _ \<Rightarrow> True
     | TYPE_FUNCTION _ _ _ \<Rightarrow> True | _ \<Rightarrow> False)"

definition stab_add_type :: "stab \<Rightarrow> string \<Rightarrow> ast_type \<Rightarrow> stab result" where
  "stab_add_type st name ty =
     bindr (stab_has_local_type st name) (\<lambda>b.
     if b then Inl (already_defined name)
     else bindr (stab_resolve_type st name (Some ty)) (\<lambda>(i, st).
       if \<not> keeps_name ty then Inl (Undefined ''use after free'')
       else bind_type st name i))"

section \<open>Comparing and printing types\<close>

definition tag_of :: "stab_resolved_type \<Rightarrow> type_tag" where
  "tag_of ty = (case ty of
       R_ARRAY _ _ _ \<Rightarrow> TYPE_ARRAY_T | R_BOOLEAN \<Rightarrow> TYPE_BOOLEAN_T | R_CHAR \<Rightarrow> TYPE_CHAR_T
     | R_FUNCTION _ _ _ _ \<Rightarrow> TYPE_FUNCTION_T | R_INTEGER \<Rightarrow> TYPE_INTEGER_T
     | R_POINTER _ \<Rightarrow> TYPE_POINTER_T | R_REAL \<Rightarrow> TYPE_REAL_T | R_RECORD _ \<Rightarrow> TYPE_RECORD_T
     | R_REF \<Rightarrow> TYPE_REF_T | R_STRING \<Rightarrow> TYPE_STRING_T | R_VOID \<Rightarrow> TYPE_VOID_T)"

text \<open>
  \<open>stab_types_eq\<close> recurses through pointers. The fuel is the number of arena entries plus one: a
  recursion that outlives it has met an entry twice and goes on for ever.
\<close>

fun types_eq_fuel :: "nat \<Rightarrow> stab \<Rightarrow> int \<Rightarrow> int \<Rightarrow> bool result" where
  "types_eq_fuel 0 st a b = Inl Diverges"
| "types_eq_fuel (Suc n) st a b =
     bindr (STAB_TYPE st a) (\<lambda>at.
     bindr (STAB_TYPE st b) (\<lambda>bt.
     if tag_of (st_ty at) \<noteq> tag_of (st_ty bt) then Inr False
     else case st_ty at of
         R_BOOLEAN \<Rightarrow> Inr True
       | R_CHAR \<Rightarrow> Inr True
       | R_INTEGER \<Rightarrow> Inr True
       | R_REAL \<Rightarrow> Inr True
       | R_STRING \<Rightarrow> Inr True
       | R_ARRAY lo up e \<Rightarrow>
           Inr (up = ra_upper (st_ty bt) \<and> lo = ra_lower (st_ty bt) \<and> e = ra_elt (st_ty bt))
       | R_FUNCTION _ _ _ _ \<Rightarrow> Inr (a = b)
       | R_RECORD _ \<Rightarrow> Inr (a = b)
       | R_POINTER p \<Rightarrow> types_eq_fuel n st p (rp_target (st_ty bt))
       | R_REF \<Rightarrow> Inl Abort
       | R_VOID \<Rightarrow> Inl Abort))"

definition stab_types_eq :: "stab \<Rightarrow> int \<Rightarrow> int \<Rightarrow> bool result" where
  "stab_types_eq st a b = types_eq_fuel (Suc (pv_length (types st))) st a b"

text \<open>\<open>stab_print_type\<close>: the indentation goes to standard output, the text to standard error.\<close>

definition stab_print_type :: "stab \<Rightarrow> int \<Rightarrow> nat \<Rightarrow> io list result" where
  "stab_print_type st t i =
     bindr (STAB_TYPE st t) (\<lambda>ty.
     bindr (case st_ty ty of
         R_BOOLEAN \<Rightarrow> Inr ''boolean''
       | R_CHAR \<Rightarrow> Inr ''char''
       | R_INTEGER \<Rightarrow> Inr ''integer''
       | R_REAL \<Rightarrow> Inr ''real''
       | R_STRING \<Rightarrow> Inr ''string''
       | R_ARRAY _ _ _ \<Rightarrow> Inr (''array `'' @ st_name ty @ ''`'')
       | R_FUNCTION k _ _ _ \<Rightarrow>
           Inr ((if k = SUB_PROCEDURE then ''procedure'' else ''function'') @ '' '' @ st_name ty)
       | R_RECORD _ \<Rightarrow> Inr (''record `'' @ st_name ty @ ''`'')
       | R_POINTER _ \<Rightarrow> Inr (''pointer to `'' @ st_name ty @ ''`'')
       | R_VOID \<Rightarrow> Inr ''void''
       | R_REF \<Rightarrow> Inl Abort) (\<lambda>s.
     Inr [Stdout (spaces i), Stderr (''<id '' @ dec t @ ''> ''), Stdout (spaces i), Stderr (s @ nl)]))"

end
