(* ===== verification/DList.thy ===== *)
theory DList
  imports Prelude
begin

text \<open>
  The doubly linked list of util.h and util.c (\<open>struct node\<close>, \<open>struct list\<close>), at the level of
  its pointers. A heap maps addresses to nodes; the first node is embedded in the list header
  (\<open>inner\<close>), \<open>last\<close> points to the tail node and \<open>length\<close> caches the number of elements. An
  element is a \<open>void *\<close> and may be null (\<open>None\<close>).

  The representation predicate \<open>list_rep\<close> says which HOL list a header stands for; the lemmas
  show that \<open>list_add\<close> appends to it, that \<open>list_pop\<close> drops its last element as long as two are
  left and dereferences a null pointer otherwise, that \<open>LFOREACH\<close> visits it forwards and
  \<open>LFOREACHREV\<close> backwards, and that \<open>list_free\<close> destroys each element once. The locale
  \<open>list_impl\<close> is the interface the rest of the compiler relies on.
\<close>

section \<open>Nodes, headers and the heap\<close>

type_synonym addr = nat

record 'a node =
  n_elt :: "'a option"
  n_prev :: "addr option"
  n_next :: "addr option"

record dlist =
  l_inner :: addr
  l_last :: "addr option"
  l_length :: nat

text \<open>
  \<open>M(...)\<close> (\<open>calloc\<close>) takes the next unused address; allocation is taken to succeed, as the
  source never tests it here.
\<close>

record 'a heap =
  hp_next :: addr
  hp_cells :: "addr \<Rightarrow> 'a node option"

definition heap_alloc :: "'a heap \<Rightarrow> 'a node \<Rightarrow> addr \<times> 'a heap" where
  "heap_alloc h nd = (hp_next h,
     h\<lparr>hp_next := Suc (hp_next h), hp_cells := (hp_cells h)(hp_next h \<mapsto> nd)\<rparr>)"

definition heap_get :: "'a heap \<Rightarrow> addr option \<Rightarrow> 'a node result" where
  "heap_get h p = (case p of
       None \<Rightarrow> Inl (Undefined ''null pointer'')
     | Some a \<Rightarrow> (case hp_cells h a of
           None \<Rightarrow> Inl (Undefined ''dangling pointer'')
         | Some nd \<Rightarrow> Inr nd))"

definition heap_put :: "'a heap \<Rightarrow> addr \<Rightarrow> 'a node \<Rightarrow> 'a heap" where
  "heap_put h a nd = h\<lparr>hp_cells := (hp_cells h)(a \<mapsto> nd)\<rparr>"

definition heap_free :: "'a heap \<Rightarrow> addr \<Rightarrow> 'a heap" where
  "heap_free h a = h\<lparr>hp_cells := (hp_cells h)(a := None)\<rparr>"

section \<open>Operations\<close>

definition list_empty :: "'a heap \<Rightarrow> dlist \<times> 'a heap" where
  "list_empty h = (let (a, h') = heap_alloc h \<lparr>n_elt = None, n_prev = None, n_next = None\<rparr> in
     (\<lparr>l_inner = a, l_last = Some a, l_length = 0\<rparr>, h'))"

definition list_is_empty :: "dlist \<Rightarrow> bool" where
  "list_is_empty l \<longleftrightarrow> l_length l = 0"

text \<open>\<open>list_append(a, b)\<close>, with its two assertions.\<close>

definition list_append :: "'a heap \<Rightarrow> addr option \<Rightarrow> addr \<Rightarrow> 'a heap result" where
  "list_append h a b =
     bindr (heap_get h a) (\<lambda>na.
     if n_next na \<noteq> None then Inl Abort else
     let h = heap_put h (the a) (na\<lparr>n_next := Some b\<rparr>) in
     bindr (heap_get h (Some b)) (\<lambda>nb.
     if n_prev nb \<noteq> None then Inl Abort else
     Inr (heap_put h b (nb\<lparr>n_prev := a\<rparr>))))"

definition list_add :: "'a heap \<Rightarrow> dlist \<Rightarrow> 'a option \<Rightarrow> (dlist \<times> 'a heap) result" where
  "list_add h l x =
     (if l_length l = 0 then
        bindr (heap_get h (Some (l_inner l))) (\<lambda>nd.
        Inr (l\<lparr>l_length := l_length l + 1\<rparr>, heap_put h (l_inner l) (nd\<lparr>n_elt := x\<rparr>)))
      else
        let (new, h) = heap_alloc h \<lparr>n_elt = x, n_prev = None, n_next = None\<rparr> in
        bindr (list_append h (l_last l) new) (\<lambda>h.
        Inr (l\<lparr>l_length := l_length l + 1, l_last := Some new\<rparr>, h)))"

definition list_new :: "'a heap \<Rightarrow> 'a option \<Rightarrow> (dlist \<times> 'a heap) result" where
  "list_new h x = (let (l, h) = list_empty h in list_add h l x)"

text \<open>
  \<open>list_pop\<close>: the store to \<open>a->last->next\<close> after \<open>a->last = last->prev\<close> goes through a null
  pointer when the tail node is the first node.
\<close>

definition list_pop :: "'a heap \<Rightarrow> dlist \<Rightarrow> ('a option \<times> dlist \<times> 'a heap) result" where
  "list_pop h l = (case l_last l of
       None \<Rightarrow> Inr (None, l, h)
     | Some tail \<Rightarrow>
         bindr (heap_get h (Some tail)) (\<lambda>nd.
         let l = l\<lparr>l_last := n_prev nd\<rparr> in
         bindr (heap_get h (l_last l)) (\<lambda>np.
         let h = heap_put h (the (l_last l)) (np\<lparr>n_next := None\<rparr>) in
         let h = heap_free h tail in
         Inr (n_elt nd, l\<lparr>l_length := l_length l - 1\<rparr>, h))))"

definition list_last :: "'a heap \<Rightarrow> dlist \<Rightarrow> 'a option result" where
  "list_last h l = (case l_last l of
       None \<Rightarrow> Inr None
     | Some a \<Rightarrow> bindr (heap_get h (Some a)) (\<lambda>nd. Inr (n_elt nd)))"

text \<open>
  \<open>LFOREACH\<close>: \<open>length\<close> rounds from the embedded node along \<open>next\<close>; the elements in the order the
  body sees them. \<open>LFOREACHREV\<close>: from \<open>last\<close> along \<open>prev\<close> until null, skipping null elements;
  \<open>None\<close> stands for a walk that does not end.
\<close>

fun walk_next :: "'a heap \<Rightarrow> nat \<Rightarrow> addr option \<Rightarrow> 'a option list result" where
  "walk_next h 0 p = Inr []"
| "walk_next h (Suc n) p =
     bindr (heap_get h p) (\<lambda>nd.
     bindr (walk_next h n (n_next nd)) (\<lambda>xs.
     Inr (n_elt nd # xs)))"

definition lforeach :: "'a heap \<Rightarrow> dlist \<Rightarrow> 'a option list result" where
  "lforeach h l = walk_next h (l_length l) (Some (l_inner l))"

partial_function (option) walk_prev ::
    "'a heap \<Rightarrow> addr option \<Rightarrow> 'a list \<Rightarrow> 'a list result option" where
  "walk_prev h p acc = (case p of
       None \<Rightarrow> Some (Inr (rev acc))
     | Some a \<Rightarrow> (case hp_cells h a of
           None \<Rightarrow> Some (Inl (Undefined ''dangling pointer''))
         | Some nd \<Rightarrow> walk_prev h (n_prev nd)
             (case n_elt nd of None \<Rightarrow> acc | Some x \<Rightarrow> x # acc)))"

definition lforeachrev :: "'a heap \<Rightarrow> dlist \<Rightarrow> 'a list result option" where
  "lforeachrev h l = walk_prev h (l_last l) []"

text \<open>
  \<open>list_free\<close> and \<open>node_free\<close>: the elements handed to the destructor, in order, and the heap
  left. The header owns its first node, which goes with \<open>D(a)\<close>.
\<close>

partial_function (option) node_free ::
    "'a heap \<Rightarrow> addr option \<Rightarrow> 'a list \<Rightarrow> ('a list \<times> 'a heap) result option" where
  "node_free h p freed = (case p of
       None \<Rightarrow> Some (Inr (rev freed, h))
     | Some a \<Rightarrow> (case hp_cells h a of
           None \<Rightarrow> Some (Inl (Undefined ''dangling pointer''))
         | Some nd \<Rightarrow>
             let freed' = (case n_elt nd of None \<Rightarrow> freed | Some x \<Rightarrow> x # freed);
                 h' = heap_free h a in
             (case n_next nd of
                None \<Rightarrow> Some (Inr (rev freed', h'))
              | Some q \<Rightarrow> (case hp_cells h' q of
                    None \<Rightarrow> Some (Inl (Undefined ''dangling pointer''))
                  | Some nq \<Rightarrow>
                      if n_prev nq \<noteq> Some a then Some (Inl Abort)
                      else node_free h' (Some q) freed'))))"

definition list_free :: "'a heap \<Rightarrow> dlist \<Rightarrow> ('a list \<times> 'a heap) result option" where
  "list_free h l =
     (if l_length l \<noteq> 0 then
        (case hp_cells h (l_inner l) of
           None \<Rightarrow> Some (Inl (Undefined ''dangling pointer''))
         | Some nd \<Rightarrow> (case node_free h (n_next nd) [] of
               None \<Rightarrow> None
             | Some (Inl e) \<Rightarrow> Some (Inl e)
             | Some (Inr (xs, h')) \<Rightarrow>
                 Some (Inr (xs @ (case n_elt nd of None \<Rightarrow> [] | Some x \<Rightarrow> [x]),
                            heap_free h' (l_inner l)))))
      else Some (Inr ([], heap_free h (l_inner l))))"


section \<open>What a header represents\<close>

text \<open>
  \<open>dseg h p as xs q\<close>: the nodes at the addresses \<open>as\<close> hold the elements \<open>xs\<close> and are linked both
  ways, with \<open>p\<close> before the first and \<open>q\<close> after the last.
\<close>

definition hd_or :: "'b option \<Rightarrow> 'b list \<Rightarrow> 'b option" where
  "hd_or q as = (case as of [] \<Rightarrow> q | b # _ \<Rightarrow> Some b)"

definition last_or :: "'b option \<Rightarrow> 'b list \<Rightarrow> 'b option" where
  "last_or p as = (if as = [] then p else Some (last as))"

lemma hd_or_simps [simp]: "hd_or q [] = q" "hd_or q (b # bs) = Some b"
  by (simp_all add: hd_or_def)

lemma hd_or_append [simp]: "hd_or q (as @ bs) = hd_or (hd_or q bs) as"
  by (cases as) simp_all

lemma last_or_simps [simp]: "last_or p [] = p" "last_or p (as @ [a]) = Some a"
    "last_or p (a # as) = last_or (Some a) as"
  by (simp_all add: last_or_def)

fun dseg :: "'a heap \<Rightarrow> addr option \<Rightarrow> addr list \<Rightarrow> 'a option list \<Rightarrow> addr option \<Rightarrow> bool" where
  "dseg h p [] [] q = True"
| "dseg h p (a # as) (x # xs) q =
     (hp_cells h a = Some \<lparr>n_elt = x, n_prev = p, n_next = hd_or q as\<rparr> \<and> dseg h (Some a) as xs q)"
| "dseg h p [] (x # xs) q = False"
| "dseg h p (a # as) [] q = False"

lemma dseg_length: "dseg h p as xs q \<Longrightarrow> length as = length xs"
  by (induction h p as xs q rule: dseg.induct) simp_all

lemma dseg_append:
  "length as = length xs \<Longrightarrow>
   dseg h p (as @ bs) (xs @ ys) q \<longleftrightarrow> dseg h p as xs (hd_or q bs) \<and> dseg h (last_or p as) bs ys q"
  by (induction as xs arbitrary: p rule: list_induct2) auto

lemma dseg_cong:
  "(\<And>a. a \<in> set as \<Longrightarrow> hp_cells h' a = hp_cells h a) \<Longrightarrow> dseg h' p as xs q = dseg h p as xs q"
proof (induction as arbitrary: p xs)
  case Nil
  then show ?case by (cases xs) simp_all
next
  case (Cons a as)
  then show ?case by (cases xs) simp_all
qed

definition list_rep :: "'a heap \<Rightarrow> dlist \<Rightarrow> 'a option list \<Rightarrow> bool" where
  "list_rep h l xs \<longleftrightarrow> (\<exists>as. distinct as \<and> as \<noteq> [] \<and> hd as = l_inner l \<and> l_last l = Some (last as)
     \<and> (\<forall>a \<in> set as. a < hp_next h) \<and> l_length l = length xs
     \<and> dseg h None as (if xs = [] then [None] else xs) None)"

lemma list_repI:
  "distinct as \<Longrightarrow> as \<noteq> [] \<Longrightarrow> hd as = l_inner l \<Longrightarrow> l_last l = Some (last as) \<Longrightarrow>
   (\<And>a. a \<in> set as \<Longrightarrow> a < hp_next h) \<Longrightarrow> l_length l = length xs \<Longrightarrow>
   dseg h None as (if xs = [] then [None] else xs) None \<Longrightarrow> list_rep h l xs"
  unfolding list_rep_def by blast

lemma list_repE:
  assumes "list_rep h l xs"
  obtains as where "distinct as" "as \<noteq> []" "hd as = l_inner l" "l_last l = Some (last as)"
    "\<And>a. a \<in> set as \<Longrightarrow> a < hp_next h" "l_length l = length xs"
    "dseg h None as (if xs = [] then [None] else xs) None"
  using assms unfolding list_rep_def by blast

lemma list_rep_length: "list_rep h l xs \<Longrightarrow> l_length l = length xs"
  by (auto simp: list_rep_def)

lemma heap_get_Some [simp]: "hp_cells h a = Some nd \<Longrightarrow> heap_get h (Some a) = Inr nd"
  by (simp add: heap_get_def)

lemma heap_get_None [simp]: "heap_get h None = Inl (Undefined ''null pointer'')"
  by (simp add: heap_get_def)

lemma heap_put_simps [simp]:
  "hp_next (heap_put h a nd) = hp_next h"
  "hp_cells (heap_put h a nd) = (hp_cells h)(a \<mapsto> nd)"
  by (simp_all add: heap_put_def)

lemma heap_free_simps [simp]:
  "hp_next (heap_free h a) = hp_next h"
  "hp_cells (heap_free h a) = (hp_cells h)(a := None)"
  by (simp_all add: heap_free_def)

text \<open>Splitting off the tail node of a nonempty segment.\<close>

lemma dseg_snocE:
  assumes "dseg h None as xs None" and "as \<noteq> []"
  obtains bs b ys y where "as = bs @ [b]" "xs = ys @ [y]" "dseg h None bs ys (Some b)"
    "hp_cells h b = Some \<lparr>n_elt = y, n_prev = last_or None bs, n_next = None\<rparr>"
proof -
  from assms(2) obtain bs b where as: "as = bs @ [b]" by (metis append_butlast_last_id)
  from dseg_length [OF assms(1)] as have "xs \<noteq> []" by auto
  then obtain ys y where xs: "xs = ys @ [y]" by (metis append_butlast_last_id)
  from dseg_length [OF assms(1)] as xs have len: "length bs = length ys" by simp
  from assms(1) have "dseg h None bs ys (Some b) \<and> dseg h (last_or None bs) [b] [y] None"
    unfolding as xs by (simp only: dseg_append [OF len] hd_or_simps)
  with that [OF as xs] show thesis by simp
qed

section \<open>The operations implement those of a sequence\<close>

lemma list_empty_rep:
  assumes "list_empty h = (l, h')"
  shows "list_rep h' l []"
  using assms
  by (auto simp: list_empty_def heap_alloc_def Let_def intro!: list_repI [where as = "[hp_next h]"])

lemma list_add_first:
  assumes "list_rep h l []"
  shows "\<exists>l' h'. list_add h l x = Inr (l', h') \<and> list_rep h' l' [x]"
proof -
  from assms obtain as where as: "distinct as" "as \<noteq> []" "hd as = l_inner l" "l_last l = Some (last as)"
    "\<And>a. a \<in> set as \<Longrightarrow> a < hp_next h" "l_length l = 0" "dseg h None as [None] None"
    by (auto elim: list_repE)
  from dseg_length [OF as(7)] as(2,3) have "as = [l_inner l]"
    by (cases as) auto
  with as show ?thesis
    by (auto simp: list_add_def intro!: list_repI [where as = "[l_inner l]"])
qed

lemma list_add_more:
  assumes "list_rep h l xs" and ne: "xs \<noteq> []"
  shows "\<exists>l' h'. list_add h l x = Inr (l', h') \<and> list_rep h' l' (xs @ [x])"
proof -
  from assms obtain as where as: "distinct as" "as \<noteq> []" "hd as = l_inner l" "l_last l = Some (last as)"
    "\<And>a. a \<in> set as \<Longrightarrow> a < hp_next h" "l_length l = length xs" "dseg h None as xs None"
    by (auto elim: list_repE)
  obtain bs b ys y where bs: "as = bs @ [b]" "xs = ys @ [y]" "dseg h None bs ys (Some b)"
    "hp_cells h b = Some \<lparr>n_elt = y, n_prev = last_or None bs, n_next = None\<rparr>"
    using as(7,2) by (rule dseg_snocE)
  let ?n = "hp_next h"
  let ?B = "\<lparr>n_elt = y, n_prev = last_or None bs, n_next = Some ?n\<rparr>"
  let ?N = "\<lparr>n_elt = x, n_prev = Some b, n_next = None\<rparr>"
  let ?h = "h\<lparr>hp_next := Suc ?n, hp_cells := (hp_cells h)(?n \<mapsto> ?N, b \<mapsto> ?B)\<rparr>"
  let ?l = "l\<lparr>l_length := l_length l + 1, l_last := Some ?n\<rparr>"
  have fresh: "?n \<notin> set as" using as(5) by blast
  then have nb: "?n \<noteq> b" using bs(1) by auto
  have add: "list_add h l x = Inr (?l, ?h)"
    using as(4,6) bs(1,4) nb ne
    by (simp add: list_add_def heap_alloc_def list_append_def Let_def heap_put_def fun_upd_twist)
  have len: "length bs = length ys" using dseg_length [OF bs(3)] .
  have seg: "dseg ?h None bs ys (Some b)"
    using bs(1,3) fresh as(1) by (subst dseg_cong [where h = h]) auto
  have "dseg ?h None (bs @ [b, ?n]) (ys @ [y, x]) None"
    using seg nb by (simp add: dseg_append [OF len])
  then have "list_rep ?h ?l (xs @ [x])"
    using as(1,3,5,6) fresh bs(1,2)
    by (intro list_repI [where as = "bs @ [b, ?n]"]) (auto simp: less_Suc_eq hd_append split: if_splits)
  with add show ?thesis by blast
qed

lemma list_add_rep:
  "list_rep h l xs \<Longrightarrow> \<exists>l' h'. list_add h l x = Inr (l', h') \<and> list_rep h' l' (xs @ [x])"
  using list_add_first [of h l x] list_add_more [of h l xs x] by (cases "xs = []") auto


lemma list_new_rep: "\<exists>l h'. list_new h x = Inr (l, h') \<and> list_rep h' l [x]"
proof -
  obtain l h' where e: "list_empty h = (l, h')" by (cases "list_empty h")
  with list_add_rep [OF list_empty_rep [OF e], of x] show ?thesis
    by (simp add: list_new_def)
qed

lemma list_last_rep:
  assumes "list_rep h l xs" and "xs \<noteq> []"
  shows "list_last h l = Inr (last xs)"
proof -
  from assms obtain as where as: "as \<noteq> []" "l_last l = Some (last as)" "dseg h None as xs None"
    by (auto elim: list_repE)
  from as(3,1) obtain bs b ys y where "as = bs @ [b]" "xs = ys @ [y]"
    "hp_cells h b = Some \<lparr>n_elt = y, n_prev = last_or None bs, n_next = None\<rparr>"
    by (rule dseg_snocE)
  with as(2) show ?thesis by (simp add: list_last_def)
qed

lemma list_pop_rep:
  assumes "list_rep h l (xs @ [x])" and ne: "xs \<noteq> []"
  shows "\<exists>l' h'. list_pop h l = Inr (x, l', h') \<and> list_rep h' l' xs"
proof -
  from assms obtain as where as: "distinct as" "as \<noteq> []" "hd as = l_inner l" "l_last l = Some (last as)"
    "\<And>a. a \<in> set as \<Longrightarrow> a < hp_next h" "l_length l = length (xs @ [x])" "dseg h None as (xs @ [x]) None"
    by (auto elim: list_repE)
  obtain bs t where bs: "as = bs @ [t]" "dseg h None bs xs (Some t)"
    "hp_cells h t = Some \<lparr>n_elt = x, n_prev = last_or None bs, n_next = None\<rparr>"
    using as(7,2) by (rule dseg_snocE) auto
  have len: "length bs = length xs" using dseg_length [OF bs(2)] .
  with ne obtain cs c where cs: "bs = cs @ [c]" by (metis append_butlast_last_id length_0_conv)
  with len obtain ys y where ys: "xs = ys @ [y]" by (metis append_butlast_last_id length_0_conv snoc_eq_iff_butlast)
  have lenc: "length cs = length ys" using len cs ys by simp
  have c: "dseg h None cs ys (Some c)" "hp_cells h c = Some \<lparr>n_elt = y, n_prev = last_or None cs, n_next = Some t\<rparr>"
    using bs(2) unfolding cs ys by (simp_all add: dseg_append [OF lenc])
  let ?C = "\<lparr>n_elt = y, n_prev = last_or None cs, n_next = None\<rparr>"
  let ?h = "h\<lparr>hp_cells := (hp_cells h)(c \<mapsto> ?C, t := None)\<rparr>"
  let ?l = "l\<lparr>l_last := Some c, l_length := l_length l - 1\<rparr>"
  have pop: "list_pop h l = Inr (x, ?l, ?h)"
    using as(4) bs(1,3) cs c(2)
    by (simp add: list_pop_def Let_def heap_put_def heap_free_def)
  have tc: "t \<noteq> c" "t \<notin> set cs" "c \<notin> set cs" using as(1) bs(1) cs by auto
  have "dseg ?h None cs ys (Some c)"
    using c(1) tc by (subst dseg_cong [where h = h]) auto
  then have "dseg ?h None (cs @ [c]) (ys @ [y]) None"
    using tc by (simp add: dseg_append [OF lenc])
  then have "list_rep ?h ?l xs"
    using as(1,3,5,6) bs(1) cs ys
    by (intro list_repI [where as = "cs @ [c]"]) (auto simp: hd_append split: if_splits)
  with pop show ?thesis by blast
qed

text \<open>With one element or none, \<open>list_pop\<close> stores through a null pointer.\<close>

lemma list_pop_short:
  assumes "list_rep h l xs" and short: "length xs \<le> 1"
  shows "list_pop h l = Inl (Undefined ''null pointer'')"
proof -
  from assms obtain as where as: "as \<noteq> []" "l_last l = Some (last as)"
    "dseg h None as (if xs = [] then [None] else xs) None"
    by (auto elim: list_repE)
  from dseg_length [OF as(3)] short as(1) obtain a where "as = [a]"
    by (cases as; cases xs) auto
  with as(2,3) show ?thesis
    by (cases xs) (auto simp: list_pop_def)
qed

lemma walk_next_dseg:
  "dseg h p as xs q \<Longrightarrow> walk_next h (length xs) (hd_or q as) = Inr xs"
  by (induction h p as xs q rule: dseg.induct) simp_all

lemma lforeach_rep: "list_rep h l xs \<Longrightarrow> lforeach h l = Inr xs"
  by (cases "xs = []")
    (auto simp: lforeach_def hd_or_def split: list.splits elim!: list_repE dest!: walk_next_dseg)

text \<open>The values a reverse walk collects.\<close>

definition nonnull :: "'a option list \<Rightarrow> 'a list" where
  "nonnull xs = List.map_filter (\<lambda>x. x) xs"

lemma nonnull_simps [simp]:
  "nonnull [] = []"
  "nonnull (x # xs) = (case x of None \<Rightarrow> [] | Some y \<Rightarrow> [y]) @ nonnull xs"
  "nonnull (xs @ ys) = nonnull xs @ nonnull ys"
  by (auto simp: nonnull_def List.map_filter_def split: option.splits)

lemma nonnull_map_Some [simp]: "nonnull (map Some xs) = xs"
  by (induction xs) simp_all

lemma walk_prev_dseg:
  "dseg h None as xs q \<Longrightarrow>
   walk_prev h (last_or None as) acc = Some (Inr (rev acc @ rev (nonnull xs)))"
proof (induction as arbitrary: xs q acc rule: rev_induct)
  case Nil
  then show ?case by (cases xs) (simp_all add: walk_prev.simps)
next
  case (snoc a as)
  from dseg_length [OF snoc.prems] obtain ys y where xs: "xs = ys @ [y]" and len: "length as = length ys"
    by (metis append_butlast_last_id length_0_conv length_append_singleton nat.simps(3) old.nat.inject)
  from snoc.prems have "dseg h None as ys (Some a)"
    and "hp_cells h a = Some \<lparr>n_elt = y, n_prev = last_or None as, n_next = q\<rparr>"
    by (simp_all add: xs dseg_append [OF len])
  with snoc.IH [of ys "Some a"] show ?case
    by (subst walk_prev.simps) (auto simp: xs split: option.splits)
qed

lemma lforeachrev_rep:
  assumes "list_rep h l xs"
  shows "lforeachrev h l = Some (Inr (rev (nonnull xs)))"
proof -
  from assms obtain as where as: "as \<noteq> []" "l_last l = Some (last as)"
    "dseg h None as (if xs = [] then [None] else xs) None"
    by (auto elim: list_repE)
  from as(1,2) have "l_last l = last_or None as" by (simp add: last_or_def)
  with walk_prev_dseg [OF as(3), of "[]"] show ?thesis
    by (auto simp: lforeachrev_def split: if_splits)
qed

text \<open>Destruction: every non-null element of the tail, then the one in the header, once each.\<close>

lemma node_free_dseg:
  "dseg h p as xs None \<Longrightarrow> distinct as \<Longrightarrow> as \<noteq> [] \<Longrightarrow>
   \<exists>h'. node_free h (Some (hd as)) acc = Some (Inr (rev acc @ nonnull xs, h'))
      \<and> (\<forall>a. hp_cells h' a = (if a \<in> set as then None else hp_cells h a))"
proof (induction as arbitrary: h p xs acc)
  case Nil
  then show ?case by simp
next
  case (Cons a as)
  from dseg_length [OF Cons.prems(1)] obtain y ys where xs: "xs = y # ys" by (cases xs) auto
  let ?acc = "(case y of None \<Rightarrow> acc | Some v \<Rightarrow> v # acc)"
  from Cons.prems xs have a: "hp_cells h a = Some \<lparr>n_elt = y, n_prev = p, n_next = hd_or None as\<rparr>"
    and seg: "dseg h (Some a) as ys None" and na: "a \<notin> set as" by simp_all
  show ?case
  proof (cases as)
    case Nil
    with seg a xs show ?thesis
      by (cases ys) (auto simp: node_free.simps Let_def split: option.splits)
  next
    case (Cons b bs)
    from seg dseg_length [OF seg] Cons obtain z zs where ys: "ys = z # zs" by (cases ys) auto
    have seg': "dseg (heap_free h a) (Some a) as ys None"
      using seg na by (subst dseg_cong [where h = h]) auto
    from Cons.IH [OF seg', of ?acc] Cons.prems Cons obtain h' where
      h': "node_free (heap_free h a) (Some b) ?acc = Some (Inr (rev ?acc @ nonnull ys, h'))"
      "\<And>c. hp_cells h' c = (if c \<in> set as then None else hp_cells (heap_free h a) c)"
      by auto
    have "node_free h (Some a) acc = Some (Inr (rev ?acc @ nonnull ys, h'))"
      using a seg' Cons ys h'(1) by (subst node_free.simps) (simp add: Let_def)
    with h'(2) xs Cons show ?thesis
      by (auto split: option.splits)
  qed
qed

lemma list_free_rep:
  assumes "list_rep h l xs"
  shows "\<exists>h'. list_free h l = Some (Inr (nonnull (drop 1 xs) @ nonnull (take 1 xs), h'))"
proof (cases xs)
  case Nil
  with assms show ?thesis by (auto simp: list_free_def dest: list_rep_length)
next
  case (Cons y ys)
  from assms Cons obtain as where as: "distinct as" "as \<noteq> []" "hd as = l_inner l"
    "l_length l = length xs" "dseg h None as xs None"
    by (auto elim: list_repE)
  obtain bs where bs: "as = l_inner l # bs" using as(2,3) by (cases as) auto
  from as(5) Cons bs have a: "hp_cells h (l_inner l) = Some \<lparr>n_elt = y, n_prev = None, n_next = hd_or None bs\<rparr>"
    and seg: "dseg h (Some (l_inner l)) bs ys None" by simp_all
  show ?thesis
  proof (cases bs)
    case Nil
    with seg a as(4) \<open>xs = y # ys\<close> show ?thesis
      by (cases ys) (auto simp: list_free_def node_free.simps split: option.splits)
  next
    case (Cons b cs)
    with node_free_dseg [OF seg, of "[]"] as(1) bs a as(4) \<open>xs = y # ys\<close> show ?thesis
      by (auto simp: list_free_def split: option.splits)
  qed
qed

section \<open>The interface\<close>

text \<open>
  What a client of the list relies on: a state stands for a sequence, adding appends, popping
  takes the last element off while another is left, and the two iterations.
\<close>

locale list_impl =
  fixes rep :: "'s \<Rightarrow> 'b list \<Rightarrow> bool"
    and add :: "'s \<Rightarrow> 'b \<Rightarrow> 's result"
    and pop :: "'s \<Rightarrow> ('b \<times> 's) result"
    and iter :: "'s \<Rightarrow> 'b list result"
  assumes add: "rep s xs \<Longrightarrow> \<exists>s'. add s x = Inr s' \<and> rep s' (xs @ [x])"
    and pop: "rep s (xs @ [x]) \<Longrightarrow> xs \<noteq> [] \<Longrightarrow> \<exists>s'. pop s = Inr (x, s') \<and> rep s' xs"
    and iter: "rep s xs \<Longrightarrow> iter s = Inr xs"
begin

fun add_all :: "'s \<Rightarrow> 'b list \<Rightarrow> 's result" where
  "add_all s [] = Inr s"
| "add_all s (x # xs) = bindr (add s x) (\<lambda>s'. add_all s' xs)"

lemma add_all_rep: "rep s xs \<Longrightarrow> \<exists>s'. add_all s ys = Inr s' \<and> rep s' (xs @ ys)"
proof (induction ys arbitrary: s xs)
  case Nil
  then show ?case by simp
next
  case (Cons y ys)
  from add [OF Cons.prems] obtain s' where s': "add s y = Inr s'" "rep s' (xs @ [y])" by blast
  from Cons.IH [OF s'(2)] s'(1) show ?case by auto
qed

lemma rep_unique: "rep s xs \<Longrightarrow> rep s ys \<Longrightarrow> xs = ys"
  using iter [of s xs] iter [of s ys] by simp

text \<open>A push undone by a pop: the sequence is back.\<close>

lemma add_pop:
  assumes "rep s xs" and "xs \<noteq> []" and "add s x = Inr s'"
  shows "\<exists>s''. pop s' = Inr (x, s'') \<and> rep s'' xs \<and> iter s'' = Inr xs"
proof -
  from add [OF assms(1), of x] assms(3) have "rep s' (xs @ [x])" by auto
  from pop [OF this assms(2)] show ?thesis by (auto dest: iter)
qed

end

definition dl_rep :: "dlist \<times> 'a heap \<Rightarrow> 'a option list \<Rightarrow> bool" where
  "dl_rep s xs = list_rep (snd s) (fst s) xs"

definition dl_add :: "dlist \<times> 'a heap \<Rightarrow> 'a option \<Rightarrow> (dlist \<times> 'a heap) result" where
  "dl_add s x = list_add (snd s) (fst s) x"

definition dl_pop :: "dlist \<times> 'a heap \<Rightarrow> ('a option \<times> dlist \<times> 'a heap) result" where
  "dl_pop s = list_pop (snd s) (fst s)"

definition dl_iter :: "dlist \<times> 'a heap \<Rightarrow> 'a option list result" where
  "dl_iter s = lforeach (snd s) (fst s)"

interpretation dl: list_impl dl_rep dl_add dl_pop dl_iter
proof
  show "\<exists>s'. dl_add s x = Inr s' \<and> dl_rep s' (xs @ [x])" if "dl_rep s xs"
    for s :: "dlist \<times> 'a heap" and xs x
    using list_add_rep that unfolding dl_add_def dl_rep_def by (metis fst_conv snd_conv)
  show "\<exists>s'. dl_pop s = Inr (x, s') \<and> dl_rep s' xs" if "dl_rep s (xs @ [x])" "xs \<noteq> []"
    for s :: "dlist \<times> 'a heap" and xs x
    using list_pop_rep [of "snd s" "fst s" xs x] that
    unfolding dl_pop_def dl_rep_def by (metis fst_conv snd_conv)
  show "dl_iter s = Inr xs" if "dl_rep s xs" for s :: "dlist \<times> 'a heap" and xs
    using that by (simp add: dl_iter_def dl_rep_def lforeach_rep)
qed

end
