(* ===== verification/SymbolProps.thy ===== *)
theory SymbolProps
  imports Symbol DList
begin

text \<open>
  The symbol table's invariant \<open>stab_wf\<close> and what every operation does to it.
\<close>

section \<open>The chain is a list in the sense of DList\<close>

interpretation chain_impl: list_impl "\<lambda>c xs. c = xs" chain_add chain_pop "\<lambda>c. Inr c"
  by unfold_locales (auto simp: chain_add_def chain_pop_def Suc_le_eq)

section \<open>The invariant\<close>

abbreviation nvars :: "stab \<Rightarrow> int" where
  "nvars st \<equiv> int (pv_length (vars st))"

abbreviation ntypes :: "stab \<Rightarrow> int" where
  "ntypes st \<equiv> int (pv_length (types st))"

definition id_ok :: "int \<Rightarrow> int \<Rightarrow> bool" where
  "id_ok n i \<longleftrightarrow> 0 \<le> i \<and> i < n"

definition ref_ok :: "int \<Rightarrow> int \<Rightarrow> bool" where
  "ref_ok n i \<longleftrightarrow> -1 \<le> i \<and> i < n"

definition table_wf :: "int \<Rightarrow> (string, int) hash_table \<Rightarrow> bool" where
  "table_wf n t \<longleftrightarrow> ht_inv t \<and> (\<forall>i \<in> ran (ht_map t). id_ok n i)"

definition scope_wf :: "int \<Rightarrow> int \<Rightarrow> stab_scope \<Rightarrow> bool" where
  "scope_wf nv nt sc \<longleftrightarrow>
     table_wf nv (sc_vars sc) \<and> table_wf nt (sc_funcs sc) \<and> table_wf nt (sc_types sc)"

text \<open>
  A type refers to earlier types only (or, through a name that was not found, to -1), which is what
  ends the recursion of \<open>stab_types_eq\<close>.
\<close>

definition rtype_wf :: "int \<Rightarrow> int \<Rightarrow> stab_resolved_type \<Rightarrow> bool" where
  "rtype_wf nv n ty = (case ty of
       R_ARRAY _ _ e \<Rightarrow> id_ok n e
     | R_FUNCTION _ as r _ \<Rightarrow> ref_ok n r \<and> (\<forall>ids. as = Some ids \<longrightarrow> (\<forall>a \<in> set ids. id_ok nv a))
     | R_POINTER p \<Rightarrow> ref_ok n p
     | R_RECORD fs \<Rightarrow> (\<forall>f \<in> set fs. ref_ok n (snd f))
     | R_REF \<Rightarrow> False
     | _ \<Rightarrow> True)"

definition types_wf :: "int \<Rightarrow> stab_type list \<Rightarrow> bool" where
  "types_wf nv ts \<longleftrightarrow> (\<forall>i < length ts. rtype_wf nv (int i) (st_ty (ts ! i)))"

definition stab_wf :: "stab \<Rightarrow> bool" where
  "stab_wf st \<longleftrightarrow> pv_inv (vars st) \<and> pv_inv (types st) \<and> pv_inv (scopes st)
     \<and> distinct (chain st) \<and> (\<forall>i \<in> set (chain st). i < pv_length (scopes st))
     \<and> (\<forall>sc \<in> set (pv_list (scopes st)). scope_wf (nvars st) (ntypes st) sc)
     \<and> types_wf (nvars st) (pv_list (types st))
     \<and> (\<forall>v \<in> set (pv_list (vars st)). ref_ok (ntypes st) (sv_type v))
     \<and> take 6 (pv_list (types st)) = basic_types"

text \<open>What an operation leaves in place: the chain, every type, every variable's type and name.\<close>

definition var_sig :: "stab_var \<Rightarrow> int \<times> string \<times> int" where
  "var_sig v = (sv_type v, sv_name v, sv_stack_base_offset v)"

definition stab_ext :: "stab \<Rightarrow> stab \<Rightarrow> bool" where
  "stab_ext st st' \<longleftrightarrow> chain st' = chain st
     \<and> pv_length (scopes st) \<le> pv_length (scopes st')
     \<and> (\<exists>ts. pv_list (types st') = pv_list (types st) @ ts)
     \<and> (\<exists>vs. map var_sig (pv_list (vars st')) = map var_sig (pv_list (vars st)) @ vs)"

definition scope_nth :: "stab \<Rightarrow> nat \<Rightarrow> stab_scope" where
  "scope_nth st i = pv_list (scopes st) ! i"

text \<open>
  What an addition does not touch: the scopes around the innermost one, and the variables there
  were; a new variable is not captured.
\<close>

definition adds :: "stab \<Rightarrow> stab \<Rightarrow> bool" where
  "adds st st' \<longleftrightarrow> chain st' = chain st \<and> pv_length (scopes st') = pv_length (scopes st)
     \<and> (\<forall>j. j \<noteq> last (chain st) \<longrightarrow> scope_nth st' j = scope_nth st j)
     \<and> (\<exists>vs. pv_list (vars st') = pv_list (vars st) @ vs \<and> (\<forall>v \<in> set vs. \<not> sv_captured v))"

lemma adds_refl [simp]: "adds st st"
  by (simp add: adds_def)

lemma adds_trans: "adds a b \<Longrightarrow> adds b c \<Longrightarrow> adds a c"
  by (fastforce simp: adds_def)

lemma adds_same_vars:
  "chain st' = chain st \<Longrightarrow> pv_length (scopes st') = pv_length (scopes st) \<Longrightarrow>
   (\<And>j. j \<noteq> last (chain st) \<Longrightarrow> scope_nth st' j = scope_nth st j) \<Longrightarrow> vars st' = vars st \<Longrightarrow> adds st st'"
  by (simp add: adds_def)

lemma stab_ext_refl [simp]: "stab_ext st st"
  by (auto simp: stab_ext_def)

lemma stab_ext_trans: "stab_ext a b \<Longrightarrow> stab_ext b c \<Longrightarrow> stab_ext a c"
  by (auto simp: stab_ext_def)

lemma stab_ext_chain: "stab_ext a b \<Longrightarrow> chain b = chain a"
  by (simp add: stab_ext_def)

lemma stab_ext_ntypes: "stab_ext a b \<Longrightarrow> ntypes a \<le> ntypes b"
  by (metis length_append length_pv_list nat_le_iff_add of_nat_mono stab_ext_def)

lemma stab_ext_nvars: "stab_ext a b \<Longrightarrow> nvars a \<le> nvars b"
  by (metis length_append length_map length_pv_list nat_le_iff_add of_nat_mono stab_ext_def)

lemma id_ok_mono: "id_ok n i \<Longrightarrow> n \<le> m \<Longrightarrow> id_ok m i"
  by (simp add: id_ok_def)

lemma ref_ok_mono: "ref_ok n i \<Longrightarrow> n \<le> m \<Longrightarrow> ref_ok m i"
  by (simp add: ref_ok_def)

lemma table_wf_mono: "table_wf n t \<Longrightarrow> n \<le> m \<Longrightarrow> table_wf m t"
  by (auto simp: table_wf_def intro: id_ok_mono)

lemma scope_wf_mono: "scope_wf nv nt sc \<Longrightarrow> nv \<le> nv' \<Longrightarrow> nt \<le> nt' \<Longrightarrow> scope_wf nv' nt' sc"
  by (auto simp: scope_wf_def intro: table_wf_mono)

lemma rtype_wf_mono: "rtype_wf nv n ty \<Longrightarrow> nv \<le> nv' \<Longrightarrow> rtype_wf nv' n ty"
  by (auto simp: rtype_wf_def intro: id_ok_mono split: stab_resolved_type.splits)


section \<open>Arena access under the invariant\<close>

lemma stab_wfD:
  assumes "stab_wf st"
  shows "pv_inv (vars st)" "pv_inv (types st)" "pv_inv (scopes st)" "distinct (chain st)"
    "\<And>i. i \<in> set (chain st) \<Longrightarrow> i < pv_length (scopes st)"
    "\<And>sc. sc \<in> set (pv_list (scopes st)) \<Longrightarrow> scope_wf (nvars st) (ntypes st) sc"
    "types_wf (nvars st) (pv_list (types st))"
    "\<And>v. v \<in> set (pv_list (vars st)) \<Longrightarrow> ref_ok (ntypes st) (sv_type v)"
    "take 6 (pv_list (types st)) = basic_types"
  using assms by (auto simp: stab_wf_def)

lemma ntypes_ge: "stab_wf st \<Longrightarrow> 6 \<le> ntypes st"
  using arg_cong [OF stab_wfD(9), of st length] by (simp add: basic_types_def)

definition type_nth :: "stab \<Rightarrow> int \<Rightarrow> stab_type" where
  "type_nth st i = pv_list (types st) ! nat i"

definition var_nth :: "stab \<Rightarrow> int \<Rightarrow> stab_var" where
  "var_nth st i = pv_list (vars st) ! nat i"

lemma STAB_TYPE_ok: "stab_wf st \<Longrightarrow> id_ok (ntypes st) i \<Longrightarrow> STAB_TYPE st i = Inr (type_nth st i)"
  by (simp add: STAB_TYPE_def id_ok_def pv_read_inv [OF stab_wfD(2)] type_nth_def nat_less_iff)

lemma STAB_TYPE_Inr:
  assumes "stab_wf st" and "STAB_TYPE st i = Inr t"
  shows "id_ok (ntypes st) i" and "t = type_nth st i"
proof -
  from assms(2) have "0 \<le> i" and "pv_read (types st) (nat i) = Inr (Some t)"
    by (auto simp: STAB_TYPE_def split: if_splits option.splits)
  then show "id_ok (ntypes st) i"
    using pv_read_Some [OF stab_wfD(2) [OF assms(1)], of "nat i" t] by (simp add: id_ok_def nat_less_iff)
  with STAB_TYPE_ok [OF assms(1)] assms(2) show "t = type_nth st i" by simp
qed

lemma STAB_VAR_ok: "stab_wf st \<Longrightarrow> id_ok (nvars st) i \<Longrightarrow> STAB_VAR st i = Inr (var_nth st i)"
  by (simp add: STAB_VAR_def id_ok_def pv_read_inv [OF stab_wfD(1)] var_nth_def nat_less_iff)

lemma STAB_VAR_Inr:
  assumes "stab_wf st" and "STAB_VAR st i = Inr v"
  shows "id_ok (nvars st) i" and "v = var_nth st i"
proof -
  from assms(2) have "0 \<le> i" and "pv_read (vars st) (nat i) = Inr (Some v)"
    by (auto simp: STAB_VAR_def split: if_splits option.splits)
  then show "id_ok (nvars st) i"
    using pv_read_Some [OF stab_wfD(1) [OF assms(1)], of "nat i" v] by (simp add: id_ok_def nat_less_iff)
  with STAB_VAR_ok [OF assms(1)] assms(2) show "v = var_nth st i" by simp
qed

lemma scope_at_ok: "stab_wf st \<Longrightarrow> i < pv_length (scopes st) \<Longrightarrow> scope_at st i = Inr (scope_nth st i)"
  by (simp add: scope_at_def pv_read_inv [OF stab_wfD(3)] scope_nth_def)

lemma top_scope_ok:
  "stab_wf st \<Longrightarrow> chain st \<noteq> [] \<Longrightarrow> top_scope st = Inr (last (chain st), scope_nth st (last (chain st)))"
  by (simp add: top_scope_def chain_last_def scope_at_ok stab_wfD(5))

lemma top_scope_Inr:
  assumes "stab_wf st" and "top_scope st = Inr (i, sc)"
  shows "chain st \<noteq> []" and "i = last (chain st)" and "sc = scope_nth st i"
proof -
  show c: "chain st \<noteq> []" using assms(2) by (auto simp: top_scope_def chain_last_def)
  show "i = last (chain st)" and "sc = scope_nth st i"
    using assms(2) top_scope_ok [OF assms(1) c] by auto
qed

lemma scope_nth_wf: "stab_wf st \<Longrightarrow> i < pv_length (scopes st) \<Longrightarrow> scope_wf (nvars st) (ntypes st) (scope_nth st i)"
  by (simp add: scope_nth_def stab_wfD(6))

lemma ext_type_nth: "stab_ext st st' \<Longrightarrow> id_ok (ntypes st) i \<Longrightarrow> type_nth st' i = type_nth st i"
  by (auto simp: stab_ext_def type_nth_def id_ok_def nth_append nat_less_iff)

lemma ext_var_sig:
  assumes "stab_ext st st'" and "id_ok (nvars st) i"
  shows "var_sig (var_nth st' i) = var_sig (var_nth st i)"
proof -
  from assms(1) obtain vs where vs: "map var_sig (pv_list (vars st')) = map var_sig (pv_list (vars st)) @ vs"
    by (auto simp: stab_ext_def)
  have i: "nat i < pv_length (vars st)" "nat i < pv_length (vars st')"
    using assms stab_ext_nvars [OF assms(1)] by (auto simp: id_ok_def)
  from arg_cong [OF vs, of "\<lambda>xs. xs ! nat i"] i show ?thesis
    by (simp add: nth_append var_nth_def)
qed

section \<open>Growing the arenas\<close>

lemma types_wf_snoc:
  "types_wf nv ts \<Longrightarrow> rtype_wf nv (int (length ts)) (st_ty t) \<Longrightarrow> types_wf nv (ts @ [t])"
  by (auto simp: types_wf_def nth_append less_Suc_eq)

lemma types_wf_mono: "types_wf nv ts \<Longrightarrow> nv \<le> nv' \<Longrightarrow> types_wf nv' ts"
  by (auto simp: types_wf_def intro: rtype_wf_mono)

lemma push_type_wf:
  assumes wf: "stab_wf st" and t: "rtype_wf (nvars st) (ntypes st) (st_ty t)"
  shows "\<exists>st'. push_type st t = Inr (ntypes st, st') \<and> stab_wf st' \<and> stab_ext st st'
    \<and> pv_list (types st') = pv_list (types st) @ [t] \<and> vars st' = vars st
    \<and> scopes st' = scopes st \<and> chain st' = chain st"
proof -
  from pv.push [OF stab_wfD(2) [OF wf], of t] obtain ts where
    ts: "ptrvec_push (types st) t = Inr (pv_length (types st), ts)" "pv_inv ts"
      "pv_list ts = pv_list (types st) @ [t]" by auto
  have len: "pv_length ts = Suc (pv_length (types st))"
    using arg_cong [OF ts(3), of length] by simp
  let ?st = "st\<lparr>types := ts\<rparr>"
  have "take 6 (pv_list ts) = basic_types"
    using stab_wfD(9) [OF wf] ntypes_ge [OF wf] ts(3) by simp
  then have "stab_wf ?st"
    using wf ts t types_wf_snoc [OF stab_wfD(7) [OF wf], of t] len
    by (auto simp: stab_wf_def intro: scope_wf_mono ref_ok_mono)
  moreover have "stab_ext st ?st" using ts(3) by (auto simp: stab_ext_def)
  ultimately show ?thesis using ts by (auto simp: push_type_def)
qed

lemma push_var_wf:
  assumes wf: "stab_wf st" and v: "ref_ok (ntypes st) (sv_type v)"
  shows "\<exists>st'. push_var st v = Inr (nvars st, st') \<and> stab_wf st' \<and> stab_ext st st'
    \<and> pv_list (vars st') = pv_list (vars st) @ [v] \<and> types st' = types st
    \<and> scopes st' = scopes st \<and> chain st' = chain st"
proof -
  from pv.push [OF stab_wfD(1) [OF wf], of v] obtain vs where
    vs: "ptrvec_push (vars st) v = Inr (pv_length (vars st), vs)" "pv_inv vs"
      "pv_list vs = pv_list (vars st) @ [v]" by auto
  have len: "pv_length vs = Suc (pv_length (vars st))"
    using arg_cong [OF vs(3), of length] by simp
  let ?st = "st\<lparr>vars := vs\<rparr>"
  have "stab_wf ?st"
    using wf vs v len by (auto simp: stab_wf_def intro: scope_wf_mono types_wf_mono)
  moreover have "stab_ext st ?st" using vs(3) by (auto simp: stab_ext_def)
  ultimately show ?thesis using vs by (auto simp: push_var_def)
qed

text \<open>Replacing a scope by a well-formed one.\<close>

lemma scope_put_wf:
  assumes wf: "stab_wf st" and i: "i < pv_length (scopes st)" and sc: "scope_wf (nvars st) (ntypes st) sc"
  shows "\<exists>st'. scope_put st i sc = Inr st' \<and> stab_wf st' \<and> stab_ext st st'
    \<and> (\<forall>j. scope_nth st' j = (if j = i then sc else scope_nth st j))
    \<and> types st' = types st \<and> vars st' = vars st \<and> chain st' = chain st
    \<and> pv_length (scopes st') = pv_length (scopes st)"
proof -
  from pv_write_inv [OF stab_wfD(3) [OF wf] i, of sc] obtain scs where
    scs: "pv_write (scopes st) i sc = Inr scs" "pv_inv scs" "pv_list scs = (pv_list (scopes st))[i := sc]"
    by auto
  have len: "pv_length scs = pv_length (scopes st)"
    using arg_cong [OF scs(3), of length] by simp
  let ?st = "st\<lparr>scopes := scs\<rparr>"
  have "stab_wf ?st"
    using wf scs sc len by (auto simp: stab_wf_def dest!: set_update_subset_insert [THEN subsetD])
  moreover have "stab_ext st ?st" using len by (auto simp: stab_ext_def)
  moreover have "scope_nth ?st j = (if j = i then sc else scope_nth st j)" for j
    using i by (simp add: scope_nth_def scs(3) nth_list_update)
  ultimately show ?thesis using scs(1) len by (auto simp: scope_put_def)
qed


section \<open>Name resolution\<close>

text \<open>What a name means: the maps of the open scopes, the inner ones overriding the outer ones.\<close>

definition env_of :: "(stab_scope \<Rightarrow> (string, int) hash_table) \<Rightarrow> stab \<Rightarrow> string \<Rightarrow> int option" where
  "env_of tab st = ht.chain_abs (map (\<lambda>i. tab (scope_nth st i)) (rev (chain st)))"

definition is_table :: "(stab_scope \<Rightarrow> (string, int) hash_table) \<Rightarrow> bool" where
  "is_table tab \<longleftrightarrow> tab = sc_vars \<or> tab = sc_funcs \<or> tab = sc_types"

lemma is_table_simps [simp]: "is_table sc_vars" "is_table sc_funcs" "is_table sc_types"
  by (simp_all add: is_table_def)

lemma is_table_wf:
  "is_table tab \<Longrightarrow> scope_wf nv nt sc \<Longrightarrow> ht_inv (tab sc) \<and> (\<forall>i \<in> ran (ht_map (tab sc)). 0 \<le> i)"
  by (auto simp: is_table_def scope_wf_def table_wf_def id_ok_def)

definition or_failure :: "int option \<Rightarrow> int" where
  "or_failure r = (case r of None \<Rightarrow> RESOLVE_FAILURE | Some i \<Rightarrow> i)"

lemma or_failure_simps [simp]: "or_failure None = -1" "or_failure (Some i) = i"
  by (simp_all add: or_failure_def RESOLVE_FAILURE_def)

lemma resolve_walk_env:
  assumes "stab_wf st" and "is_table tab" and "\<forall>i \<in> set ids. i < pv_length (scopes st)"
  shows "resolve_walk st tab ids n = Inr (or_failure (ht.chain_abs (map (\<lambda>i. tab (scope_nth st i)) ids) n))"
  using assms(3)
proof (induction ids)
  case Nil
  then show ?case by (simp add: RESOLVE_FAILURE_def)
next
  case (Cons i ids)
  let ?t = "tab (scope_nth st i)"
  have t: "ht_inv ?t" "\<And>v. ht_map ?t n = Some v \<Longrightarrow> 0 \<le> v"
    using is_table_wf [OF assms(2) scope_nth_wf [OF assms(1)]] Cons.prems by (auto intro: ranI)
  show ?case
    using Cons t(2) by (cases "ht_map ?t n") (fastforce simp: scope_at_ok [OF assms(1)] ht.lookup [OF t(1)] map_add_def)+
qed

lemma chain_scopes: "stab_wf st \<Longrightarrow> \<forall>i \<in> set (rev (chain st)). i < pv_length (scopes st)"
  by (simp add: stab_wfD(5))

lemma resolve_env:
  assumes "stab_wf st"
  shows "stab_resolve_var st n = Inr (or_failure (env_of sc_vars st n))"
    and "stab_resolve_func st n = Inr (or_failure (env_of sc_funcs st n))"
    and "stab_resolve_type_name st n = Inr (or_failure (env_of sc_types st n))"
  by (simp_all add: stab_resolve_var_def stab_resolve_func_def stab_resolve_type_name_def env_of_def
      resolve_walk_env [OF assms _ chain_scopes [OF assms]])

lemma chain_abs_ran: "ht.chain_abs ts n = Some v \<Longrightarrow> \<exists>t \<in> set ts. ht_map t n = Some v"
  by (induction ts) (auto simp: map_add_Some_iff)

lemma env_of_ok:
  assumes "stab_wf st"
  shows "env_of sc_vars st n = Some v \<Longrightarrow> id_ok (nvars st) v"
    and "env_of sc_funcs st n = Some v \<Longrightarrow> id_ok (ntypes st) v"
    and "env_of sc_types st n = Some v \<Longrightarrow> id_ok (ntypes st) v"
  using scope_nth_wf [OF assms] stab_wfD(5) [OF assms] unfolding env_of_def
  by (fastforce dest!: chain_abs_ran simp: scope_wf_def table_wf_def intro: ranI)+

lemma resolve_type_name_ref_ok:
  "stab_wf st \<Longrightarrow> stab_resolve_type_name st n = Inr i \<Longrightarrow> ref_ok (ntypes st) i"
  using env_of_ok(3) [of st n] ntypes_ge [of st]
  by (cases "env_of sc_types st n") (auto simp: resolve_env ref_ok_def id_ok_def)

lemma has_local_map:
  assumes "stab_wf st" and "chain st \<noteq> []" and "is_table tab"
  shows "has_local st tab n = Inr (ht_map (tab (scope_nth st (last (chain st)))) n \<noteq> None)"
proof -
  let ?t = "tab (scope_nth st (last (chain st)))"
  have t: "ht_inv ?t" "\<And>v. ht_map ?t n = Some v \<Longrightarrow> 0 \<le> v"
    using is_table_wf [OF assms(3) scope_nth_wf [OF assms(1) stab_wfD(5) [OF assms(1) last_in_set [OF assms(2)]]]]
    by (auto intro: ranI)
  then show ?thesis
    by (cases "ht_map ?t n")
      (auto simp: has_local_def top_scope_ok [OF assms(1,2)] ht.lookup RESOLVE_FAILURE_def)
qed

section \<open>Scopes open and close\<close>

lemma stab_new_wf:
  shows "\<exists>st. stab_new = Inr st \<and> stab_wf st \<and> chain st = [] \<and> pv_list (types st) = basic_types
    \<and> pv_list (vars st) = [] \<and> pv_list (scopes st) = []"
proof -
  let ?v = "\<lparr>pv_length = 0, pv_capacity = 256, pv_data = Map.empty\<rparr>"
  have inv: "pv_inv ?v" "pv_list ?v = []" by (simp_all add: pv_inv_def pv_list_def)
  from ptrvec_push_all_inv [OF inv(1), of basic_types] inv obtain ts where
    ts: "ptrvec_push_all ?v basic_types = Inr ts" "pv_inv ts" "pv_list ts = basic_types" by auto
  have "types_wf 0 basic_types"
    by (auto simp: types_wf_def basic_types_def basic_type_def rtype_wf_def nth_Cons split: nat.splits)
  with ts inv show ?thesis
    by (auto simp: stab_new_def ptrvec_wcap_def stab_wf_def basic_types_def pv_inv_def pv_list_def)
qed

lemma stab_enter_wf:
  assumes wf: "stab_wf st"
  shows "\<exists>st'. stab_enter st = Inr st' \<and> stab_wf st' \<and> chain st' = chain st @ [pv_length (scopes st)]
    \<and> scope_nth st' (pv_length (scopes st)) = stab_scope_new
    \<and> (\<forall>i < pv_length (scopes st). scope_nth st' i = scope_nth st i)
    \<and> pv_length (scopes st') = Suc (pv_length (scopes st)) \<and> types st' = types st \<and> vars st' = vars st"
proof -
  from ptrvec_push_inv [OF stab_wfD(3) [OF wf], of stab_scope_new] obtain scs where
    scs: "ptrvec_push (scopes st) stab_scope_new = Inr (pv_length (scopes st), scs)" "pv_inv scs"
      "pv_list scs = pv_list (scopes st) @ [stab_scope_new]" by auto
  have len: "pv_length scs = Suc (pv_length (scopes st))"
    using arg_cong [OF scs(3), of length] by simp
  let ?st = "st\<lparr>scopes := scs, chain := chain st @ [pv_length (scopes st)]\<rparr>"
  have "scope_wf (nvars st) (ntypes st) stab_scope_new"
    by (simp add: scope_wf_def stab_scope_new_def table_wf_def streq_def hash_new_inv hash_new_map)
  then have "stab_wf ?st"
    using wf scs len by (auto simp: stab_wf_def dest: less_SucI)
  then show ?thesis
    using scs len by (auto simp: stab_enter_def chain_add_def scope_nth_def nth_append)
qed

lemma stab_leave_wf:
  assumes wf: "stab_wf st" and "1 < length (chain st)"
  shows "stab_leave st = Inr (st\<lparr>chain := butlast (chain st)\<rparr>)" and "stab_wf (st\<lparr>chain := butlast (chain st)\<rparr>)"
  using assms by (auto simp: stab_leave_def chain_pop_def stab_wf_def distinct_butlast dest: in_set_butlastD)


section \<open>Binding names\<close>

lemma last_chain: "stab_wf st \<Longrightarrow> chain st \<noteq> [] \<Longrightarrow> last (chain st) < pv_length (scopes st)"
  by (simp add: stab_wfD(5))

text \<open>One name bound in the innermost scope: the environment is updated at that name.\<close>

lemma env_of_bind:
  assumes "chain st \<noteq> []" and "chain st' = chain st" and "distinct (chain st)"
    and "ht_map (tab (scope_nth st' (last (chain st)))) = (ht_map (tab (scope_nth st (last (chain st)))))(n \<mapsto> v)"
    and "\<And>j. j \<noteq> last (chain st) \<Longrightarrow> tab (scope_nth st' j) = tab (scope_nth st j)"
  shows "env_of tab st' = (env_of tab st)(n \<mapsto> v)"
proof -
  obtain cs c where c: "chain st = cs @ [c]" using assms(1) by (metis append_butlast_last_id)
  with assms(3) have "\<forall>i \<in> set (rev cs). i \<noteq> c" by auto
  then have m: "map (\<lambda>i. tab (scope_nth st' i)) (rev cs) = map (\<lambda>i. tab (scope_nth st i)) (rev cs)"
    using assms(5) c by (auto intro!: map_cong)
  have "env_of tab st' = ht.chain_abs (map (\<lambda>i. tab (scope_nth st' i)) (rev cs)) ++ ht_map (tab (scope_nth st' c))"
    by (simp add: env_of_def assms(2) c)
  then show ?thesis unfolding m using assms(4) c by (simp add: env_of_def)
qed

lemma env_of_same:
  assumes "chain st' = chain st" and "\<And>j. j \<in> set (chain st) \<Longrightarrow> tab (scope_nth st' j) = tab (scope_nth st j)"
  shows "env_of tab st' = env_of tab st"
proof -
  have "map (\<lambda>i. tab (scope_nth st' i)) (rev (chain st)) = map (\<lambda>i. tab (scope_nth st i)) (rev (chain st))"
    using assms(2) by (intro map_cong) auto
  then show ?thesis unfolding env_of_def assms(1) by (simp only:)
qed

lemma table_wf_insert:
  assumes "table_wf n t" and "id_ok n v"
  shows "\<exists>t'. hash_insert t k v = Inr t' \<and> table_wf n t' \<and> ht_map t' = (ht_map t)(k \<mapsto> v)"
proof -
  from ht.insert [of t k v] assms(1) obtain t' where
    t': "hash_insert t k v = Inr t'" "ht_inv t'" "ht_map t' = (ht_map t)(k \<mapsto> v)"
    by (auto simp: table_wf_def)
  have "ran (ht_map t') \<subseteq> insert v (ran (ht_map t))" by (auto simp: t'(3) ran_def)
  with t' assms show ?thesis by (auto simp: table_wf_def)
qed

definition new_var :: "string \<Rightarrow> int \<Rightarrow> int \<Rightarrow> stab_var" where
  "new_var n ty base = \<lparr>sv_type = ty, sv_name = n, sv_disp_offset = -1,
     sv_stack_base_offset = base, sv_captured = False\<rparr>"

definition off_after :: "stab \<Rightarrow> int \<Rightarrow> bool \<Rightarrow> int option \<Rightarrow> int option" where
  "off_after st ty b off = map_option (\<lambda>p. to_int32 (p + (if b then 1 else -1) * st_size (type_nth st ty))) off"

lemma stab_add_var_wf:
  assumes wf: "stab_wf st" and ne: "chain st \<noteq> []" and ty: "ref_ok (ntypes st) ty"
    and off: "off \<noteq> None \<Longrightarrow> id_ok (ntypes st) ty"
  shows "\<exists>st'. stab_add_var st n ty off b = Inr (nvars st, off_after st ty b off, st')
    \<and> stab_wf st' \<and> stab_ext st st' \<and> types st' = types st
    \<and> pv_list (vars st') = pv_list (vars st) @ [new_var n ty (case off of None \<Rightarrow> -1 | Some p \<Rightarrow> p)]
    \<and> env_of sc_vars st' = (env_of sc_vars st)(n \<mapsto> nvars st)
    \<and> env_of sc_funcs st' = env_of sc_funcs st \<and> env_of sc_types st' = env_of sc_types st
    \<and> ht_map (sc_vars (scope_nth st' (last (chain st)))) = (ht_map (sc_vars (scope_nth st (last (chain st)))))(n \<mapsto> nvars st)
    \<and> sc_funcs (scope_nth st' (last (chain st))) = sc_funcs (scope_nth st (last (chain st)))
    \<and> adds st st'"
proof -
  let ?base = "case off of None \<Rightarrow> -1 | Some p \<Rightarrow> p"
  let ?l = "last (chain st)"
  let ?sc = "scope_nth st ?l"
  have 1: "(case off of None \<Rightarrow> Inr (-1, None)
      | Some p \<Rightarrow> bindr (STAB_TYPE st ty) (\<lambda>t. Inr (p, Some (to_int32 (p + (if b then 1 else -1) * st_size t)))))
      = Inr (?base, off_after st ty b off)"
    using off by (cases off) (simp_all add: STAB_TYPE_ok [OF wf] off_after_def)
  from push_var_wf [OF wf, of "new_var n ty ?base"] ty obtain s1 where
    s1: "push_var st (new_var n ty ?base) = Inr (nvars st, s1)" "stab_wf s1" "stab_ext st s1"
      "pv_list (vars s1) = pv_list (vars st) @ [new_var n ty ?base]" "types s1 = types st"
      "scopes s1 = scopes st" "chain s1 = chain st" by (auto simp: new_var_def)
  have len: "nvars s1 = nvars st + 1" using arg_cong [OF s1(4), of length] by simp
  have nth1: "scope_nth s1 j = scope_nth st j" for j by (simp add: scope_nth_def s1(6))
  have scwf: "scope_wf (nvars s1) (ntypes s1) ?sc"
    using scope_nth_wf [OF s1(2), of ?l] last_chain [OF wf ne] by (simp add: nth1 s1(6))
  from table_wf_insert [of "nvars s1" "sc_vars ?sc" "nvars st" n] scwf len obtain h where
    h: "hash_insert (sc_vars ?sc) n (nvars st) = Inr h" "table_wf (nvars s1) h"
      "ht_map h = (ht_map (sc_vars ?sc))(n \<mapsto> nvars st)"
    by (auto simp: scope_wf_def id_ok_def)
  have "scope_wf (nvars s1) (ntypes s1) (?sc\<lparr>sc_vars := h\<rparr>)"
    using scwf h(2) by (simp add: scope_wf_def)
  from scope_put_wf [OF s1(2) _ this, of ?l] last_chain [OF wf ne] s1(6) obtain s2 where
    s2: "scope_put s1 ?l (?sc\<lparr>sc_vars := h\<rparr>) = Inr s2" "stab_wf s2" "stab_ext s1 s2"
      "\<And>j. scope_nth s2 j = (if j = ?l then ?sc\<lparr>sc_vars := h\<rparr> else scope_nth s1 j)"
      "types s2 = types s1" "vars s2 = vars s1" "chain s2 = chain s1"
      "pv_length (scopes s2) = pv_length (scopes s1)" by auto
  have "stab_add_var st n ty off b = Inr (nvars st, off_after st ty b off, s2)"
    using s1(1,7) s2(1) h(1) ne top_scope_ok [OF s1(2)] unfolding stab_add_var_def 1
    by (simp add: new_var_def nth1)
  moreover have "env_of sc_vars s2 = (env_of sc_vars st)(n \<mapsto> nvars st)"
    using ne s1(7) s2(4,7) h(3) nth1 stab_wfD(4) [OF wf] by (intro env_of_bind) auto
  moreover have "env_of sc_funcs s2 = env_of sc_funcs st" "env_of sc_types s2 = env_of sc_types st"
    using s1(7) s2(4,7) nth1 by (auto intro!: env_of_same)
  moreover have "adds st s2" using s1 s2 nth1 by (simp add: adds_def new_var_def)
  ultimately show ?thesis
    using s1 s2 h(3) stab_ext_trans [OF s1(3) s2(3)] by (auto simp: nth1)
qed

text \<open>The same facts for an addition known to have succeeded.\<close>

lemma stab_add_var_Inr:
  assumes wf: "stab_wf st" and "chain st \<noteq> []" and "ref_ok (ntypes st) ty"
    and r: "stab_add_var st n ty off b = Inr (vid, off', st')"
  shows "vid = nvars st" "stab_wf st'" "stab_ext st st'" "types st' = types st"
    "off' = off_after st ty b off"
    "pv_list (vars st') = pv_list (vars st) @ [new_var n ty (case off of None \<Rightarrow> -1 | Some p \<Rightarrow> p)]"
    "env_of sc_vars st' = (env_of sc_vars st)(n \<mapsto> nvars st)"
    "env_of sc_funcs st' = env_of sc_funcs st" "env_of sc_types st' = env_of sc_types st"
    "ht_map (sc_vars (scope_nth st' (last (chain st)))) = (ht_map (sc_vars (scope_nth st (last (chain st)))))(n \<mapsto> nvars st)"
    "sc_funcs (scope_nth st' (last (chain st))) = sc_funcs (scope_nth st (last (chain st)))"
    "adds st st'"
proof -
  have "id_ok (ntypes st) ty" if "off \<noteq> None"
    using that r STAB_TYPE_Inr(1) [OF wf] by (auto simp: stab_add_var_def)
  from stab_add_var_wf [OF assms(1-3), where n = n and off = off and b = b] this r
  show "vid = nvars st" "stab_wf st'" "stab_ext st st'" "types st' = types st"
    "off' = off_after st ty b off"
    "pv_list (vars st') = pv_list (vars st) @ [new_var n ty (case off of None \<Rightarrow> -1 | Some p \<Rightarrow> p)]"
    "env_of sc_vars st' = (env_of sc_vars st)(n \<mapsto> nvars st)"
    "env_of sc_funcs st' = env_of sc_funcs st" "env_of sc_types st' = env_of sc_types st"
    "ht_map (sc_vars (scope_nth st' (last (chain st)))) = (ht_map (sc_vars (scope_nth st (last (chain st)))))(n \<mapsto> nvars st)"
    "sc_funcs (scope_nth st' (last (chain st))) = sc_funcs (scope_nth st (last (chain st)))"
    "adds st st'"
    by auto
qed

lemma bind_func_wf:
  assumes wf: "stab_wf st" and ne: "chain st \<noteq> []" and i: "id_ok (ntypes st) i"
  shows "\<exists>st'. bind_func st n i = Inr st' \<and> stab_wf st' \<and> stab_ext st st'
    \<and> types st' = types st \<and> vars st' = vars st
    \<and> env_of sc_funcs st' = (env_of sc_funcs st)(n \<mapsto> i)
    \<and> env_of sc_vars st' = env_of sc_vars st \<and> env_of sc_types st' = env_of sc_types st \<and> adds st st'"
proof -
  let ?l = "last (chain st)"
  let ?sc = "scope_nth st ?l"
  have scwf: "scope_wf (nvars st) (ntypes st) ?sc" using scope_nth_wf [OF wf last_chain [OF wf ne]] .
  from table_wf_insert [of "ntypes st" "sc_funcs ?sc" i n] scwf i obtain h where
    h: "hash_insert (sc_funcs ?sc) n i = Inr h" "table_wf (ntypes st) h" "ht_map h = (ht_map (sc_funcs ?sc))(n \<mapsto> i)"
    by (auto simp: scope_wf_def)
  have "scope_wf (nvars st) (ntypes st) (?sc\<lparr>sc_funcs := h\<rparr>)" using scwf h(2) by (simp add: scope_wf_def)
  from scope_put_wf [OF wf last_chain [OF wf ne] this] obtain s2 where
    s2: "scope_put st ?l (?sc\<lparr>sc_funcs := h\<rparr>) = Inr s2" "stab_wf s2" "stab_ext st s2"
      "\<And>j. scope_nth s2 j = (if j = ?l then ?sc\<lparr>sc_funcs := h\<rparr> else scope_nth st j)"
      "types s2 = types st" "vars s2 = vars st" "chain s2 = chain st"
      "pv_length (scopes s2) = pv_length (scopes st)" by auto
  have "env_of sc_funcs s2 = (env_of sc_funcs st)(n \<mapsto> i)"
    using ne s2(4,7) h(3) stab_wfD(4) [OF wf] by (intro env_of_bind) auto
  moreover have "env_of sc_vars s2 = env_of sc_vars st" "env_of sc_types s2 = env_of sc_types st"
    using s2(4,7) by (auto intro!: env_of_same)
  moreover have "adds st s2" using s2 by (auto intro: adds_same_vars)
  ultimately show ?thesis
    using s2 h(1) by (auto simp: bind_func_def top_scope_ok [OF wf ne])
qed

lemma bind_type_wf:
  assumes wf: "stab_wf st" and ne: "chain st \<noteq> []" and i: "id_ok (ntypes st) i"
  shows "\<exists>st'. bind_type st n i = Inr st' \<and> stab_wf st' \<and> stab_ext st st'
    \<and> types st' = types st \<and> vars st' = vars st
    \<and> env_of sc_types st' = (env_of sc_types st)(n \<mapsto> i)
    \<and> env_of sc_vars st' = env_of sc_vars st \<and> env_of sc_funcs st' = env_of sc_funcs st \<and> adds st st'"
proof -
  let ?l = "last (chain st)"
  let ?sc = "scope_nth st ?l"
  have scwf: "scope_wf (nvars st) (ntypes st) ?sc" using scope_nth_wf [OF wf last_chain [OF wf ne]] .
  from table_wf_insert [of "ntypes st" "sc_types ?sc" i n] scwf i obtain h where
    h: "hash_insert (sc_types ?sc) n i = Inr h" "table_wf (ntypes st) h" "ht_map h = (ht_map (sc_types ?sc))(n \<mapsto> i)"
    by (auto simp: scope_wf_def)
  have "scope_wf (nvars st) (ntypes st) (?sc\<lparr>sc_types := h\<rparr>)" using scwf h(2) by (simp add: scope_wf_def)
  from scope_put_wf [OF wf last_chain [OF wf ne] this] obtain s2 where
    s2: "scope_put st ?l (?sc\<lparr>sc_types := h\<rparr>) = Inr s2" "stab_wf s2" "stab_ext st s2"
      "\<And>j. scope_nth s2 j = (if j = ?l then ?sc\<lparr>sc_types := h\<rparr> else scope_nth st j)"
      "types s2 = types st" "vars s2 = vars st" "chain s2 = chain st"
      "pv_length (scopes s2) = pv_length (scopes st)" by auto
  have "env_of sc_types s2 = (env_of sc_types st)(n \<mapsto> i)"
    using ne s2(4,7) h(3) stab_wfD(4) [OF wf] by (intro env_of_bind) auto
  moreover have "env_of sc_vars s2 = env_of sc_vars st" "env_of sc_funcs s2 = env_of sc_funcs st"
    using s2(4,7) by (auto intro!: env_of_same)
  moreover have "adds st s2" using s2 by (auto intro: adds_same_vars)
  ultimately show ?thesis
    using s2 h(1) by (auto simp: bind_type_def top_scope_ok [OF wf ne])
qed


section \<open>Resolving types keeps the invariant\<close>

text \<open>
  \<open>grows st st'\<close>: a well-formed table that extends \<open>st\<close> and gives the same meaning to the names
  of subprograms and of types.
\<close>

definition grows :: "stab \<Rightarrow> stab \<Rightarrow> bool" where
  "grows st st' \<longleftrightarrow> stab_wf st' \<and> stab_ext st st' \<and> adds st st'
     \<and> env_of sc_funcs st' = env_of sc_funcs st \<and> env_of sc_types st' = env_of sc_types st"

lemma growsD:
  assumes "grows st st'"
  shows "stab_wf st'" "stab_ext st st'" "env_of sc_funcs st' = env_of sc_funcs st"
    "env_of sc_types st' = env_of sc_types st" "chain st' = chain st" "ntypes st \<le> ntypes st'"
    "nvars st \<le> nvars st'" "adds st st'"
  using assms stab_ext_chain stab_ext_ntypes stab_ext_nvars by (auto simp: grows_def)

lemma grows_refl: "stab_wf st \<Longrightarrow> grows st st"
  by (simp add: grows_def)

lemma grows_trans: "grows a b \<Longrightarrow> grows b c \<Longrightarrow> grows a c"
  by (auto simp: grows_def intro: stab_ext_trans adds_trans)

lemma push_type_grows:
  assumes "stab_wf st" and "rtype_wf (nvars st) (ntypes st) (st_ty t)" and "push_type st t = Inr (i, st')"
  shows "grows st st'" and "i = ntypes st" and "ntypes st' = ntypes st + 1" and "type_nth st' i = t"
    and "vars st' = vars st" and "env_of sc_vars st' = env_of sc_vars st"
proof -
  from push_type_wf [OF assms(1,2)] assms(3) have
    p: "i = ntypes st" "stab_wf st'" "stab_ext st st'" "pv_list (types st') = pv_list (types st) @ [t]"
      "vars st' = vars st" "scopes st' = scopes st" "chain st' = chain st" by auto
  have same: "env_of tab st' = env_of tab st" for tab
    using p(6,7) by (simp add: env_of_def scope_nth_def)
  have "adds st st'" using p by (intro adds_same_vars) (simp_all add: scope_nth_def)
  then show "grows st st'" using p same by (simp add: grows_def)
  show "i = ntypes st" "vars st' = vars st" "env_of sc_vars st' = env_of sc_vars st"
    by (rule p same)+
  show "ntypes st' = ntypes st + 1" using arg_cong [OF p(4), of length] by simp
  show "type_nth st' i = t" using p(1,4) by (simp add: type_nth_def nth_append)
qed

lemma add_var_grows:
  assumes "stab_wf st" and "chain st \<noteq> []" and "ref_ok (ntypes st) ty"
    and "stab_add_var st n ty off b = Inr (vid, off', st')"
  shows "grows st st'" and "id_ok (nvars st') vid"
proof -
  note a = stab_add_var_Inr [OF assms]
  show "grows st st'" using a by (simp add: grows_def)
  show "id_ok (nvars st') vid"
    using a(1) arg_cong [OF a(6), of length] by (simp add: id_ok_def)
qed

lemma ref_ok_basic:
  assumes "stab_wf st"
  shows "id_ok (ntypes st) INTEGER_TYPE_IDX" "id_ok (ntypes st) REAL_TYPE_IDX"
    "id_ok (ntypes st) STRING_TYPE_IDX" "id_ok (ntypes st) BOOLEAN_TYPE_IDX"
    "id_ok (ntypes st) CHAR_TYPE_IDX" "id_ok (ntypes st) VOID_TYPE_IDX"
  using ntypes_ge [OF assms] by (simp_all add: id_ok_def idx_defs)

lemma id_ref_ok: "id_ok n i \<Longrightarrow> ref_ok n i"
  by (simp add: id_ok_def ref_ok_def)

lemma resolve_grows:
  "stab_wf st \<Longrightarrow> chain st \<noteq> [] \<Longrightarrow> stab_resolve_type st name oty = Inr (i, st') \<Longrightarrow>
     grows st st' \<and> ref_ok (ntypes st') i"
  "stab_wf st \<Longrightarrow> chain st \<noteq> [] \<Longrightarrow> stab_resolve_complex_type st name ty = Inr (i, st') \<Longrightarrow>
     grows st st' \<and> id_ok (ntypes st') i"
  "stab_wf st \<Longrightarrow> chain st \<noteq> [] \<Longrightarrow> resolve_fields st fs = Inr (rfs, st') \<Longrightarrow>
     grows st st' \<and> (\<forall>f \<in> set rfs. ref_ok (ntypes st') (snd f))"
  "stab_wf st \<Longrightarrow> chain st \<noteq> [] \<Longrightarrow> resolve_params st ds = Inr (ids, st') \<Longrightarrow>
     grows st st' \<and> (\<forall>a \<in> set ids. id_ok (nvars st') a)"
  "stab_wf st \<Longrightarrow> chain st \<noteq> [] \<Longrightarrow> resolve_param_names st ns t = Inr (ids, st') \<Longrightarrow>
     grows st st' \<and> (\<forall>a \<in> set ids. id_ok (nvars st') a)"
proof (induction st name oty and st name ty and st fs and st ds and st ns t
    arbitrary: i st' and i st' and rfs st' and ids st' and ids st'
    rule: stab_resolve_type_stab_resolve_complex_type_resolve_fields_resolve_params_resolve_param_names.induct)
  case (1 st name)
  then show ?case by (auto intro: grows_refl id_ref_ok ref_ok_basic)
next
  case (2 st name ty)
  show ?case
  proof (cases ty)
    case (TYPE_REF n)
    with 2 show ?thesis by (auto intro: grows_refl resolve_type_name_ref_ok)
  qed (use 2 in \<open>auto intro: grows_refl id_ref_ok ref_ok_basic\<close>)
next
  case (3 st name t)
  then obtain p s1 where s1: "stab_resolve_type st name (Some t) = Inr (p, s1)"
    and push: "push_type s1 (type_entry (R_POINTER p) name ABI_POINTER_SIZE ABI_POINTER_ALIGN) = Inr (i, st')"
    by auto
  from 3 s1 have g: "grows st s1" "ref_ok (ntypes s1) p" by auto
  have "rtype_wf (nvars s1) (ntypes s1) (st_ty (type_entry (R_POINTER p) name ABI_POINTER_SIZE ABI_POINTER_ALIGN))"
    using g(2) by (simp add: rtype_wf_def type_entry_def)
  from push_type_grows [OF growsD(1) [OF g(1)] this push] g(1) show ?case
    by (auto intro: grows_trans simp: id_ok_def)
next
  case (4 st name fs)
  then obtain rfs s1 where s1: "resolve_fields st fs = Inr (rfs, s1)"
    and push: "push_type s1 (type_entry (R_RECORD rfs) name 0 0) = Inr (i, st')" by auto
  from 4 s1 have g: "grows st s1" "\<forall>f \<in> set rfs. ref_ok (ntypes s1) (snd f)" by auto
  have "rtype_wf (nvars s1) (ntypes s1) (st_ty (type_entry (R_RECORD rfs) name 0 0))"
    using g(2) by (simp add: rtype_wf_def type_entry_def)
  from push_type_grows [OF growsD(1) [OF g(1)] this push] g(1) show ?case
    by (auto intro: grows_trans simp: id_ok_def)
next
  case (5 st name lower upper elt)
  then obtain lo up e s1 et where r: "atoi lower = Inr lo" "atoi upper = Inr up"
    "stab_resolve_type st ''<array elts>'' (Some elt) = Inr (e, s1)" "STAB_TYPE s1 e = Inr et"
    and push: "push_type s1 (type_entry (R_ARRAY lo up e) name (to_uint64 (st_size et * (up - lo))) 0) = Inr (i, st')"
    by auto
  from 5 r have g: "grows st s1" by auto
  from STAB_TYPE_Inr(1) [OF growsD(1) [OF g] r(4)]
  have "rtype_wf (nvars s1) (ntypes s1) (st_ty (type_entry (R_ARRAY lo up e) name (to_uint64 (st_size et * (up - lo))) 0))"
    by (simp add: rtype_wf_def type_entry_def)
  from push_type_grows [OF growsD(1) [OF g] this push] g show ?case
    by (auto intro: grows_trans simp: id_ok_def)
next
  case (6 st name k args retty)
  then obtain r s1 as s2 where r: "stab_resolve_type st ''<func ret>'' retty = Inr (r, s1)"
    "resolve_params s1 args = Inr (as, s2)"
    and push: "push_type s2 (type_entry (R_FUNCTION k (Some as) r False) name ABI_CLOSURE_SIZE ABI_CLOSURE_ALIGN) = Inr (i, st')"
    by auto
  from 6 r(1) have g1: "grows st s1" "ref_ok (ntypes s1) r" by auto
  with 6 r have g2: "grows s1 s2" "\<forall>a \<in> set as. id_ok (nvars s2) a"
    using growsD(1,5) [OF g1(1)] by auto
  have "rtype_wf (nvars s2) (ntypes s2) (st_ty (type_entry (R_FUNCTION k (Some as) r False) name ABI_CLOSURE_SIZE ABI_CLOSURE_ALIGN))"
    using g1(2) g2 growsD(6) [OF g2(1)] by (auto simp: rtype_wf_def type_entry_def intro: ref_ok_mono)
  from push_type_grows [OF growsD(1) [OF g2(1)] this push] grows_trans [OF g1(1) g2(1)] show ?case
    by (auto intro: grows_trans simp: id_ok_def)
next
  case (9 st n t fs)
  then obtain i1 s1 rfs' where r: "stab_resolve_type st n (Some t) = Inr (i1, s1)"
    "resolve_fields s1 fs = Inr (rfs', st')" "rfs = (n, i1) # rfs'" by auto
  from 9 r(1) have g1: "grows st s1" "ref_ok (ntypes s1) i1" by auto
  with 9 r have g2: "grows s1 st'" "\<forall>f \<in> set rfs'. ref_ok (ntypes st') (snd f)"
    using growsD(1,5) [OF g1(1)] by auto
  from g1 g2 r(3) growsD(6) [OF g2(1)] show ?case by (auto intro: grows_trans ref_ok_mono)
next
  case (11 st names t ds)
  then obtain as s1 bs where r: "resolve_param_names st names t = Inr (as, s1)"
    "resolve_params s1 ds = Inr (bs, st')" "ids = as @ bs" by auto
  from 11 r(1) have g1: "grows st s1" "\<forall>a \<in> set as. id_ok (nvars s1) a" by auto
  with 11 r have g2: "grows s1 st'" "\<forall>a \<in> set bs. id_ok (nvars st') a"
    using growsD(1,5) [OF g1(1)] by auto
  from g1 g2 r(3) growsD(7) [OF g2(1)] show ?case by (auto intro: grows_trans id_ok_mono)
next
  case (13 st n ns t)
  then obtain i1 s1 vid off s2 as where r: "stab_resolve_type st n (Some t) = Inr (i1, s1)"
    "stab_add_var s1 n i1 None False = Inr (vid, off, s2)"
    "resolve_param_names s2 ns t = Inr (as, st')" "ids = vid # as" by auto
  from 13 r(1) have g1: "grows st s1" "ref_ok (ntypes s1) i1" by auto
  have "chain s1 \<noteq> []" using growsD(5) [OF g1(1)] 13 by simp
  from add_var_grows [OF growsD(1) [OF g1(1)] this g1(2) r(2)]
  have g2: "grows s1 s2" "id_ok (nvars s2) vid" by auto
  from 13 r g2 have g3: "grows s2 st'" "\<forall>a \<in> set as. id_ok (nvars st') a"
    using growsD(1,5) [OF g2(1)] \<open>chain s1 \<noteq> []\<close> by auto
  from grows_trans [OF grows_trans [OF g1(1) g2(1)] g3(1)] g3(2) r(4) g2(2) growsD(7) [OF g3(1)]
  show ?case by (auto intro: id_ok_mono)
qed (auto intro: grows_refl)


section \<open>Declarations, subprograms and type names\<close>

lemma add_names_grows:
  "stab_wf st \<Longrightarrow> chain st \<noteq> [] \<Longrightarrow> ref_ok (ntypes st) ty \<Longrightarrow> add_names st ns ty off b = Inr (off', st') \<Longrightarrow>
   grows st st'"
proof (induction ns arbitrary: st off)
  case Nil
  then show ?case by (simp add: grows_refl)
next
  case (Cons n ns)
  from Cons.prems(4) obtain vid off1 s1 where s1: "stab_add_var st n ty off b = Inr (vid, off1, s1)"
    and rest: "add_names s1 ns ty off1 b = Inr (off', st')"
    by (auto split: if_splits)
  from add_var_grows [OF Cons.prems(1-3) s1] have g: "grows st s1" by simp
  from Cons.IH [OF growsD(1) [OF g] _ ref_ok_mono [OF Cons.prems(3) growsD(6) [OF g]] rest]
    growsD(5) [OF g] Cons.prems(2)
  have "grows s1 st'" by simp
  with g show ?case by (rule grows_trans)
qed

lemma stab_add_decls_grows:
  assumes "stab_wf st" and "chain st \<noteq> []" and "stab_add_decls st d off b = Inr (off', st')"
  shows "grows st st'"
proof -
  from assms(3) obtain ty s1 where r: "stab_resolve_type st ''<decls>'' (Some (d_type d)) = Inr (ty, s1)"
    and a: "add_names s1 (d_names d) ty off b = Inr (off', st')" by (auto simp: stab_add_decls_def)
  from resolve_grows(1) [OF assms(1,2) r] have g: "grows st s1" "ref_ok (ntypes s1) ty" by auto
  from add_names_grows [OF growsD(1) [OF g(1)] _ g(2) a] growsD(5) [OF g(1)] assms(2)
  have "grows s1 st'" by simp
  with g(1) show ?thesis by (rule grows_trans)
qed

text \<open>Extensions in which the names of subprograms, or of types, may change their meaning.\<close>

definition ext_wf :: "stab \<Rightarrow> stab \<Rightarrow> bool" where
  "ext_wf st st' \<longleftrightarrow> stab_wf st' \<and> stab_ext st st' \<and> adds st st'"

lemma ext_wfD:
  assumes "ext_wf st st'"
  shows "stab_wf st'" "stab_ext st st'" "chain st' = chain st" "ntypes st \<le> ntypes st'" "nvars st \<le> nvars st'"
    "adds st st'"
  using assms stab_ext_chain stab_ext_ntypes stab_ext_nvars by (auto simp: ext_wf_def)

lemma grows_ext_wf: "grows st st' \<Longrightarrow> ext_wf st st'"
  by (simp add: grows_def ext_wf_def)

lemma ext_wf_refl: "stab_wf st \<Longrightarrow> ext_wf st st"
  by (simp add: ext_wf_def)

lemma ext_wf_trans: "ext_wf a b \<Longrightarrow> ext_wf b c \<Longrightarrow> ext_wf a c"
  by (auto simp: ext_wf_def intro: stab_ext_trans adds_trans)

lemma stab_add_func_ext_wf:
  assumes "stab_wf st" and "chain st \<noteq> []" and "stab_add_func st n sig = Inr st'"
  shows "ext_wf st st'"
proof -
  from assms(3) obtain i s1 where r: "stab_resolve_complex_type st n sig = Inr (i, s1)"
    and b: "bind_func s1 n i = Inr st'" by (auto simp: stab_add_func_def split: if_splits)
  from resolve_grows(2) [OF assms(1,2) r] have g: "grows st s1" "id_ok (ntypes s1) i" by auto
  from bind_func_wf [OF growsD(1) [OF g(1)] _ g(2), of n] b growsD(5) [OF g(1)] assms(2)
  have "ext_wf s1 st'" by (simp add: ext_wf_def)
  with grows_ext_wf [OF g(1)] show ?thesis by (rule ext_wf_trans)
qed

lemma stab_add_type_ext_wf:
  assumes "stab_wf st" and "chain st \<noteq> []" and "stab_add_type st n ty = Inr st'"
  shows "ext_wf st st'" and "keeps_name ty"
proof -
  from assms(3) obtain i s1 where r: "stab_resolve_type st n (Some ty) = Inr (i, s1)"
    and k: "keeps_name ty" and b: "bind_type s1 n i = Inr st'"
    by (auto simp: stab_add_type_def split: if_splits)
  show "keeps_name ty" by (rule k)
  from k r have "stab_resolve_complex_type st n ty = Inr (i, s1)"
    by (auto simp: keeps_name_def split: ast_type.splits)
  from resolve_grows(2) [OF assms(1,2) this] have g: "grows st s1" "id_ok (ntypes s1) i" by auto
  from bind_type_wf [OF growsD(1) [OF g(1)] _ g(2), of n] b growsD(5) [OF g(1)] assms(2)
  have "ext_wf s1 st'" by (simp add: ext_wf_def)
  with grows_ext_wf [OF g(1)] show "ext_wf st st'" by (rule ext_wf_trans)
qed

lemma stab_add_magic_func_wf:
  assumes wf: "stab_wf st" and ne: "chain st \<noteq> []"
    and which: "which \<in> {MAGIC_READ, MAGIC_READLN, MAGIC_WRITE, MAGIC_WRITELN}"
  shows "\<exists>st'. stab_add_magic_func st which = Inr st' \<and> ext_wf st st'"
proof -
  let ?name = "if which = MAGIC_READLN then ''readln'' else if which = MAGIC_READ then ''read''
    else if which = MAGIC_WRITELN then ''writeln'' else ''write''"
  let ?t = "\<lparr>st_ty = R_FUNCTION SUB_FUNCTION None 0 False, st_name = ?name,
         st_size = 0, st_align = 0, st_magic = which\<rparr>"
  have "rtype_wf (nvars st) (ntypes st) (st_ty ?t)"
    using ntypes_ge [OF wf] by (simp add: rtype_wf_def ref_ok_def)
  from push_type_wf [OF wf this] obtain s1 where
    s1: "push_type st ?t = Inr (ntypes st, s1)" "stab_wf s1" "stab_ext st s1" "chain s1 = chain st"
      "pv_list (types s1) = pv_list (types st) @ [?t]" "vars s1 = vars st" "scopes s1 = scopes st" by auto
  have "id_ok (ntypes s1) (ntypes st)"
    using arg_cong [OF s1(5), of length] by (simp add: id_ok_def)
  from bind_func_wf [OF s1(2) _ this, of ?name] s1(4) ne obtain s2 where
    s2: "bind_func s1 ?name (ntypes st) = Inr s2" "stab_wf s2" "stab_ext s1 s2" "adds s1 s2" by auto
  have "adds st s1" using s1 by (intro adds_same_vars) (simp_all add: scope_nth_def)
  note adds = adds_trans [OF this s2(4)]
  have "stab_add_magic_func st which = Inr s2"
    using which s1(1) s2(1) by (auto simp: stab_add_magic_func_def magic_defs)
  with s2 adds stab_ext_trans [OF s1(3) s2(3)] show ?thesis by (simp add: ext_wf_def)
qed

section \<open>Comparing types\<close>

text \<open>
  Under the invariant the recursion of \<open>stab_types_eq\<close> descends to earlier entries, so the fuel is
  never used up; the only failures left are a name that was not found and the type void.
\<close>

lemma types_eq_fuel_enough:
  "stab_wf st \<Longrightarrow> a < int n \<Longrightarrow> types_eq_fuel (Suc n) st a b \<noteq> Inl Diverges"
proof (induction n arbitrary: a b)
  case 0
  then show ?case by (simp add: STAB_TYPE_def)
next
  case (Suc n)
  show ?case
  proof (cases "STAB_TYPE st a")
    case (Inl e)
    then show ?thesis by (auto simp: STAB_TYPE_def pv_read_def split: if_splits option.splits)
  next
    case at: (Inr at)
    show ?thesis
    proof (cases "STAB_TYPE st b")
      case (Inl e)
      with at show ?thesis by (auto simp: STAB_TYPE_def pv_read_def split: if_splits option.splits)
    next
      case bt: (Inr bt)
      show ?thesis
      proof (cases "st_ty at")
        case (R_POINTER p)
        from STAB_TYPE_Inr [OF Suc.prems(1) at] have a: "id_ok (ntypes st) a" "at = type_nth st a" by auto
        from stab_wfD(7) [OF Suc.prems(1)] a R_POINTER have "p < a"
          by (auto simp: types_wf_def rtype_wf_def ref_ok_def id_ok_def type_nth_def nat_less_iff dest!: spec [of _ "nat a"])
        with Suc.prems(2) have "p < int n" by simp
        from Suc.IH [OF Suc.prems(1) this, of "rp_target (st_ty bt)"] R_POINTER at bt show ?thesis
          by (simp del: types_eq_fuel.simps(2) add: types_eq_fuel.simps(2) [of "Suc n"])
      qed (use at bt in auto)
    qed
  qed
qed

lemma stab_types_eq_returns:
  assumes wf: "stab_wf st"
  shows "stab_types_eq st a b \<noteq> Inl Diverges"
proof (cases "a < ntypes st")
  case True
  with types_eq_fuel_enough [OF wf, of a "pv_length (types st)" b] show ?thesis
    by (simp add: stab_types_eq_def del: types_eq_fuel.simps)
next
  case False
  then have "STAB_TYPE st a \<noteq> Inr t" for t
    using STAB_TYPE_Inr(1) [OF wf, of a t] by (auto simp: id_ok_def)
  then show ?thesis
    by (cases "STAB_TYPE st a")
      (auto simp: stab_types_eq_def STAB_TYPE_def pv_read_def split: if_splits option.splits)
qed

section \<open>The names of a scope\<close>

text \<open>The variables bound in the innermost scope.\<close>

definition local_names :: "stab \<Rightarrow> string \<Rightarrow> bool" where
  "local_names st n \<longleftrightarrow> ht_map (sc_vars (scope_nth st (last (chain st)))) n \<noteq> None"

end
