(* ===== verification/Scoping.thy ===== *)
theory Scoping
  imports SymbolProps
begin

text \<open>
  What the symbol table promises the analysis: a name means its innermost binding, a scope that is
  left takes its bindings with it, a scope binds a name once, and declared variables get
  consecutive places in the frame. \<open>one_scope\<close> is a new table with one scope open, for the
  witnesses.
\<close>

definition is_ok :: "'a result \<Rightarrow> bool" where
  "is_ok m = (case m of Inl _ \<Rightarrow> False | Inr _ \<Rightarrow> True)"

lemma is_okE:
  assumes "is_ok m"
  obtains x where "m = Inr x"
  using assms by (cases m) (simp_all add: is_ok_def)

definition get :: "'a result \<Rightarrow> 'a \<Rightarrow> 'a" where
  "get m d = (case m of Inl _ \<Rightarrow> d | Inr x \<Rightarrow> x)"

lemma get_Inr [simp]: "get (Inr x) d = x"
  by (simp add: get_def)

definition no_stab :: stab where
  "no_stab = \<lparr>vars = \<lparr>pv_length = 0, pv_capacity = 0, pv_data = \<lambda>_. None\<rparr>,
     types = \<lparr>pv_length = 0, pv_capacity = 0, pv_data = \<lambda>_. None\<rparr>,
     scopes = \<lparr>pv_length = 0, pv_capacity = 0, pv_data = \<lambda>_. None\<rparr>, chain = []\<rparr>"

definition one_scope :: stab where
  "one_scope = get (bindr stab_new stab_enter) no_stab"

lemma one_scope: "stab_wf one_scope" "chain one_scope \<noteq> []" "chain one_scope = [0]"
    "types one_scope = types (get stab_new no_stab)" "\<not> local_names one_scope n"
proof -
  obtain st where st: "stab_new = Inr st" "stab_wf st" "chain st = []" "pv_list (scopes st) = []"
    using stab_new_wf by auto
  have len: "pv_length (scopes st) = 0" using arg_cong [OF st(4), of length] by simp
  obtain st1 where st1: "stab_enter st = Inr st1" "stab_wf st1" "chain st1 = [0]" "types st1 = types st"
      "scope_nth st1 0 = stab_scope_new"
    using stab_enter_wf [OF st(2)] st(3) len by auto
  have "one_scope = st1" "get stab_new no_stab = st"
    by (simp_all only: one_scope_def st(1) st1(1) bindr_simps get_Inr)
  with st1 show "stab_wf one_scope" "chain one_scope \<noteq> []" "chain one_scope = [0]"
    "types one_scope = types (get stab_new no_stab)" "\<not> local_names one_scope n"
    by (simp_all add: local_names_def stab_scope_new_def hash_new_map)
qed

section \<open>Declared names\<close>

text \<open>The place of the \<open>k\<close>-th variable of size \<open>s\<close> from the offset \<open>p\<close> on, as the C code adds it up.\<close>

fun place :: "int \<Rightarrow> int \<Rightarrow> nat \<Rightarrow> int" where
  "place s p 0 = p"
| "place s p (Suc k) = place s (to_int32 (p + s)) k"

lemma place_in_range:
  "- (2 ^ 31) \<le> p \<Longrightarrow> p < 2 ^ 31 \<Longrightarrow> - (2 ^ 31) \<le> p + int k * s \<Longrightarrow> p + int k * s < 2 ^ 31 \<Longrightarrow>
   place s p k = p + int k * s"
proof (induction k arbitrary: p)
  case 0
  then show ?case by simp
next
  case (Suc k)
  have "- (2 ^ 31) \<le> p + s \<and> p + s < 2 ^ 31"
  proof (cases "0 \<le> s")
    case True
    then have "s \<le> int (Suc k) * s" by (simp add: mult_le_cancel_right1)
    with Suc.prems True show ?thesis by linarith
  next
    case False
    then have "int (Suc k) * s \<le> s" by (simp add: mult_le_cancel_right2)
    with Suc.prems False show ?thesis by linarith
  qed
  then have "to_int32 (p + s) = p + s" by (simp add: to_int32_id)
  with Suc.IH [of "p + s"] Suc.prems \<open>_ \<and> _\<close> show ?case by (simp add: algebra_simps)
qed

text \<open>One turn of the loop over the names of a declaration.\<close>

lemma add_names_step:
  assumes wf: "stab_wf st" and ne: "chain st \<noteq> []" and ty: "id_ok (ntypes st) ty"
    and r: "add_names st (n # ns) ty (Some p) b = Inr (off', st')"
  obtains s1 where "\<not> local_names st n" "stab_wf s1" "chain s1 = chain st" "types s1 = types st"
    "pv_list (vars s1) = pv_list (vars st) @ [new_var n ty p]"
    "env_of sc_vars s1 = (env_of sc_vars st)(n \<mapsto> nvars st)"
    "local_names s1 = (\<lambda>m. m = n \<or> local_names st m)"
    "add_names s1 ns ty (Some (to_int32 (p + (if b then 1 else -1) * st_size (type_nth st ty)))) b = Inr (off', st')"
proof -
  from r obtain bo where lo: "stab_has_local_var st n = Inr bo" "\<not> bo"
    by (auto split: if_splits)
  from r lo obtain vid off s1 where a: "stab_add_var st n ty (Some p) b = Inr (vid, off, s1)"
    and rest: "add_names s1 ns ty off b = Inr (off', st')" by auto
  note v = stab_add_var_Inr [OF wf ne id_ref_ok [OF ty] a]
  have "\<not> local_names st n"
    using lo by (simp add: stab_has_local_var_def has_local_map [OF wf ne] local_names_def)
  moreover have "chain s1 = chain st" using stab_ext_chain [OF v(3)] .
  moreover from this have "local_names s1 = (\<lambda>m. m = n \<or> local_names st m)"
    using v(10) by (simp add: local_names_def fun_eq_iff)
  ultimately show thesis
    using that [of s1] v rest by (simp add: off_after_def)
qed

lemma add_names_spec:
  assumes "stab_wf st" and "chain st \<noteq> []" and "id_ok (ntypes st) ty"
    and "add_names st ns ty (Some p) b = Inr (off', st')"
    and "s = (if b then 1 else -1) * st_size (type_nth st ty)"
  shows "distinct ns" and "\<forall>n \<in> set ns. \<not> local_names st n"
    and "local_names st' = (\<lambda>m. m \<in> set ns \<or> local_names st m)"
    and "pv_list (vars st') = pv_list (vars st) @ map (\<lambda>i. new_var (ns ! i) ty (place s p i)) [0..<length ns]"
    and "off' = Some (place s p (length ns))"
    and "\<forall>i < length ns. env_of sc_vars st' (ns ! i) = Some (nvars st + int i)"
    and "\<forall>m. m \<notin> set ns \<longrightarrow> env_of sc_vars st' m = env_of sc_vars st m"
    and "types st' = types st" and "chain st' = chain st" and "stab_wf st'"
proof -
  have "distinct ns \<and> (\<forall>n \<in> set ns. \<not> local_names st n)
    \<and> local_names st' = (\<lambda>m. m \<in> set ns \<or> local_names st m)
    \<and> pv_list (vars st') = pv_list (vars st) @ map (\<lambda>i. new_var (ns ! i) ty (place s p i)) [0..<length ns]
    \<and> off' = Some (place s p (length ns))
    \<and> (\<forall>i < length ns. env_of sc_vars st' (ns ! i) = Some (nvars st + int i))
    \<and> (\<forall>m. m \<notin> set ns \<longrightarrow> env_of sc_vars st' m = env_of sc_vars st m)
    \<and> types st' = types st \<and> chain st' = chain st \<and> stab_wf st'"
    using assms
  proof (induction ns arbitrary: st p)
    case Nil
    then show ?case by simp
  next
    case (Cons n ns)
    from add_names_step [OF Cons.prems(1-4)] obtain s1 where
      s1: "\<not> local_names st n" "stab_wf s1" "chain s1 = chain st" "types s1 = types st"
        "pv_list (vars s1) = pv_list (vars st) @ [new_var n ty p]"
        "env_of sc_vars s1 = (env_of sc_vars st)(n \<mapsto> nvars st)"
        "local_names s1 = (\<lambda>m. m = n \<or> local_names st m)"
        "add_names s1 ns ty (Some (to_int32 (p + s))) b = Inr (off', st')"
      unfolding Cons.prems(5) by blast
    have "id_ok (ntypes s1) ty" "s = (if b then 1 else -1) * st_size (type_nth s1 ty)"
      using Cons.prems(3,5) s1(4) by (simp_all add: type_nth_def)
    note IH = Cons.IH [OF s1(2) _ this(1) s1(8) this(2), unfolded s1(3), OF Cons.prems(2)]
    have nv: "nvars s1 = nvars st + 1" using arg_cong [OF s1(5), of length] by simp
    have "map (\<lambda>i. new_var ((n # ns) ! i) ty (place s p i)) [0..<length (n # ns)]
      = new_var n ty p # map (\<lambda>i. new_var (ns ! i) ty (place s (to_int32 (p + s)) i)) [0..<length ns]"
      by (simp add: map_upt_Suc del: upt_Suc)
    moreover have "env_of sc_vars st' ((n # ns) ! i) = Some (nvars st + int i)" if "i < length (n # ns)" for i
      using that IH s1(6,7) nv by (cases i) auto
    ultimately show ?case using IH s1 by auto
  qed
  then show "distinct ns" "\<forall>n \<in> set ns. \<not> local_names st n"
    "local_names st' = (\<lambda>m. m \<in> set ns \<or> local_names st m)"
    "pv_list (vars st') = pv_list (vars st) @ map (\<lambda>i. new_var (ns ! i) ty (place s p i)) [0..<length ns]"
    "off' = Some (place s p (length ns))"
    "\<forall>i < length ns. env_of sc_vars st' (ns ! i) = Some (nvars st + int i)"
    "\<forall>m. m \<notin> set ns \<longrightarrow> env_of sc_vars st' m = env_of sc_vars st m"
    "types st' = types st" "chain st' = chain st" "stab_wf st'" by blast+
qed

end
