(* ===== verification/Names.thy ===== *)
theory Names
  imports Scoping
begin

text \<open>
  The properties of the symbol table, over the models of theory Symbol.
\<close>

section \<open>Resolution\<close>

text \<open>C10. A variable, subprogram or type name resolves to its binding in the innermost open scope
  that binds it, and to -1 if none does; the three resolve functions never fail otherwise.\<close>

theorem resolve_innermost:
  assumes "stab_wf st"
  shows "stab_resolve_var st n = Inr (or_failure (ht.chain_abs (map (\<lambda>i. sc_vars (scope_nth st i)) (rev (chain st))) n))
    \<and> stab_resolve_func st n = Inr (or_failure (ht.chain_abs (map (\<lambda>i. sc_funcs (scope_nth st i)) (rev (chain st))) n))
    \<and> stab_resolve_type_name st n = Inr (or_failure (ht.chain_abs (map (\<lambda>i. sc_types (scope_nth st i)) (rev (chain st))) n))"
  using resolve_env [OF assms, of n] by (simp add: env_of_def)

theorem resolve_innermost_witness: "stab_resolve_var one_scope ''x'' = Inr (-1)"
  using conjunct1 [OF resolve_innermost [OF one_scope(1), of "''x''"]] one_scope(3) one_scope(5) [of "''x''"]
  by (simp add: local_names_def)

text \<open>The state in which \<open>x, y: integer\<close> is declared in a new innermost scope.\<close>

definition inner_scope :: stab where
  "inner_scope = get (stab_enter one_scope) no_stab"

definition inner_xy :: "(int option \<times> stab) result" where
  "inner_xy = stab_add_decls inner_scope (Decls [''x'', ''y''] TYPE_INTEGER) (Some 0) True"

lemma inner_ok: "is_ok (stab_enter one_scope)" "is_ok inner_xy" "is_ok (stab_leave (snd (get inner_xy (None, no_stab))))"
  by code_simp+

lemma inner_eqs:
  "stab_enter one_scope = Inr inner_scope"
  "stab_add_decls inner_scope (Decls [''x'', ''y''] TYPE_INTEGER) (Some 0) True
    = Inr (fst (get inner_xy (None, no_stab)), snd (get inner_xy (None, no_stab)))"
  using inner_ok(1,2) by (auto simp: inner_scope_def inner_xy_def elim!: is_okE)

lemma inner_wf: "stab_wf inner_scope" "chain inner_scope \<noteq> []" "\<not> local_names inner_scope n"
  using stab_enter_wf [OF one_scope(1)] inner_eqs(1)
  by (auto simp: local_names_def stab_scope_new_def hash_new_map)

text \<open>A declaration with a simple type, as one call of \<open>add_names\<close>.\<close>

lemma add_declsE:
  assumes wf: "stab_wf st" "chain st \<noteq> []"
    and r: "stab_add_decls st (Decls ns ty) off b = Inr (off', st')"
  obtains t s1 where "stab_resolve_type st ''<decls>'' (Some ty) = Inr (t, s1)" "grows st s1" "stab_wf s1"
    "chain s1 = chain st" "ref_ok (ntypes s1) t" "add_names s1 ns t off b = Inr (off', st')"
proof -
  from r obtain t s1 where t: "stab_resolve_type st ''<decls>'' (Some ty) = Inr (t, s1)"
    and a: "add_names s1 ns t off b = Inr (off', st')" by (auto simp: stab_add_decls_def)
  from resolve_grows(1) [OF wf t] have g: "grows st s1" "ref_ok (ntypes s1) t" by simp_all
  from that [OF t g(1) growsD(1,5) [OF g(1)] g(2) a] show thesis .
qed

lemma add_names_id_ok:
  assumes "stab_wf st" and "add_names st ns t (Some p) b = Inr r" and "ns \<noteq> []"
  shows "id_ok (ntypes st) t"
  using assms by (cases ns) (auto simp: stab_add_var_def split: if_splits dest!: STAB_TYPE_Inr(1) [OF assms(1)])



section \<open>Declarations\<close>

text \<open>Resolving a type never unbinds a name, and the parameters of a signature become names.\<close>

lemma push_type_locals:
  assumes "push_type st t = Inr (i, st')"
  shows "local_names st' = local_names st"
  using assms by (auto simp: push_type_def local_names_def scope_nth_def fun_eq_iff)

lemma add_var_locals:
  assumes wf: "stab_wf st" "chain st \<noteq> []" and ty: "ref_ok (ntypes st) ty"
    and r: "stab_add_var st n ty off b = Inr (vid, off', st')"
  shows "local_names st' = (\<lambda>m. m = n \<or> local_names st m)"
  using stab_add_var_Inr(3,10) [OF wf ty r] stab_ext_chain [of st st']
  by (simp add: local_names_def fun_eq_iff)

lemma resolve_locals:
  "stab_wf st \<Longrightarrow> chain st \<noteq> [] \<Longrightarrow> stab_resolve_type st name oty = Inr (i, st') \<Longrightarrow>
     \<forall>m. local_names st m \<longrightarrow> local_names st' m"
  "stab_wf st \<Longrightarrow> chain st \<noteq> [] \<Longrightarrow> stab_resolve_complex_type st name ty = Inr (i, st') \<Longrightarrow>
     (\<forall>m. local_names st m \<longrightarrow> local_names st' m)
     \<and> (\<forall>k as r. ty = TYPE_FUNCTION k as r \<longrightarrow> (\<forall>d \<in> set as. \<forall>n \<in> set (d_names d). local_names st' n))"
  "stab_wf st \<Longrightarrow> chain st \<noteq> [] \<Longrightarrow> resolve_fields st fs = Inr (rfs, st') \<Longrightarrow>
     \<forall>m. local_names st m \<longrightarrow> local_names st' m"
  "stab_wf st \<Longrightarrow> chain st \<noteq> [] \<Longrightarrow> resolve_params st ds = Inr (ids, st') \<Longrightarrow>
     (\<forall>m. local_names st m \<longrightarrow> local_names st' m) \<and> (\<forall>d \<in> set ds. \<forall>n \<in> set (d_names d). local_names st' n)"
  "stab_wf st \<Longrightarrow> chain st \<noteq> [] \<Longrightarrow> resolve_param_names st ns t = Inr (ids, st') \<Longrightarrow>
     (\<forall>m. local_names st m \<longrightarrow> local_names st' m) \<and> (\<forall>n \<in> set ns. local_names st' n)"
proof (induction st name oty and st name ty and st fs and st ds and st ns t
    arbitrary: i st' and i st' and rfs st' and ids st' and ids st'
    rule: stab_resolve_type_stab_resolve_complex_type_resolve_fields_resolve_params_resolve_param_names.induct)
  case (2 st name ty)
  show ?case
  proof (cases "keeps_name ty")
    case True
    with 2(7) have r: "stab_resolve_complex_type st name ty = Inr (i, st')"
      by (cases ty) (simp_all add: keeps_name_def del: stab_resolve_complex_type.simps)
    from True show ?thesis
    proof (cases ty)
      case (TYPE_ARRAY lo up t)
      from 2(1) [OF this] 2 r show ?thesis by blast
    next
      case (TYPE_FUNCTION k as ret)
      from 2(2) [OF this] 2 r show ?thesis by blast
    next
      case (TYPE_POINTER t)
      from 2(3) [OF this] 2 r show ?thesis by blast
    next
      case (TYPE_RECORD fs)
      from 2(4) [OF this] 2 r show ?thesis by blast
    qed (simp_all add: keeps_name_def)
  next
    case False
    with 2(7) have "st' = st"
      by (cases ty) (auto simp: keeps_name_def simp del: stab_resolve_complex_type.simps dest: sym)
    with 2 show ?thesis by simp
  qed
next
  case (3 st name t)
  then show ?case by (auto dest!: push_type_locals)
next
  case (4 st name fs)
  then show ?case by (auto dest!: push_type_locals)
next
  case (5 st name lower upper elt)
  then show ?case by (auto dest!: push_type_locals)
next
  case (6 st name k args retty)
  then obtain r s1 as s2 where r: "stab_resolve_type st ''<func ret>'' retty = Inr (r, s1)"
    "resolve_params s1 args = Inr (as, s2)"
    and push: "push_type s2 (type_entry (R_FUNCTION k (Some as) r False) name ABI_CLOSURE_SIZE ABI_CLOSURE_ALIGN) = Inr (i, st')"
    by auto
  from resolve_grows(1) [OF 6(3,4) r(1)] have g: "grows st s1" by simp
  have "chain s1 \<noteq> []" using growsD(5) [OF g] 6(4) by simp
  with 6 r growsD(1) [OF g] push_type_locals [OF push] show ?case by auto
next
  case (9 st n t fs)
  then obtain i1 s1 rfs' where r: "stab_resolve_type st n (Some t) = Inr (i1, s1)"
    "resolve_fields s1 fs = Inr (rfs', st')" by auto
  from resolve_grows(1) [OF 9(3,4) r(1)] have g: "grows st s1" by simp
  have "chain s1 \<noteq> []" using growsD(5) [OF g] 9(4) by simp
  with 9 r growsD(1) [OF g] show ?case by auto
next
  case (11 st names t ds)
  then obtain as s1 bs where r: "resolve_param_names st names t = Inr (as, s1)"
    "resolve_params s1 ds = Inr (bs, st')" by auto
  from resolve_grows(5) [OF 11(3,4) r(1)] have g: "grows st s1" by simp
  have "chain s1 \<noteq> []" using growsD(5) [OF g] 11(4) by simp
  with 11 r growsD(1) [OF g] show ?case by auto
next
  case (13 st n ns t)
  then obtain i1 s1 vid off s2 as where r: "stab_resolve_type st n (Some t) = Inr (i1, s1)"
    "stab_add_var s1 n i1 None False = Inr (vid, off, s2)"
    "resolve_param_names s2 ns t = Inr (as, st')" by auto
  from resolve_grows(1) [OF 13(3,4) r(1)] have g: "grows st s1" "ref_ok (ntypes s1) i1" by simp_all
  have ne: "chain s1 \<noteq> []" using growsD(5) [OF g(1)] 13(4) by simp
  from add_var_grows [OF growsD(1) [OF g(1)] ne g(2) r(2)] have g2: "grows s1 s2" by simp
  have ne2: "chain s2 \<noteq> []" using growsD(5) [OF g2] ne by simp
  note a = add_var_locals [OF growsD(1) [OF g(1)] ne g(2) r(2)]
  have "\<forall>m. local_names st m \<longrightarrow> local_names s1 m" using 13(1,3,4) r(1) by blast
  moreover have "(\<forall>m. local_names s2 m \<longrightarrow> local_names st' m) \<and> (\<forall>n \<in> set ns. local_names st' n)"
    using 13(2) [OF r(1) refl r(2) refl refl growsD(1) [OF g2] ne2 r(3)] .
  ultimately show ?case using a by auto
qed auto

text \<open>C31. A scope binds a variable name at most once: a declaration that is accepted names each of
  its variables once and none that the scope has already; all of them are bound afterwards.\<close>

theorem declared_once:
  assumes wf: "stab_wf st" "chain st \<noteq> []" and r: "stab_add_decls st (Decls ns ty) (Some p) b = Inr (off', st')"
  shows "distinct ns \<and> (\<forall>n \<in> set ns. \<not> local_names st n) \<and> (\<forall>n \<in> set ns. local_names st' n)"
proof (cases "ns = []")
  case False
  from wf r obtain t s1 where a: "stab_resolve_type st ''<decls>'' (Some ty) = Inr (t, s1)" "stab_wf s1"
    "chain s1 = chain st" "add_names s1 ns t (Some p) b = Inr (off', st')" by (rule add_declsE)
  from add_names_spec(1-3) [OF a(2) _ add_names_id_ok [OF a(2,4) False] a(4) refl] wf(2) a(3)
  have "distinct ns" "\<forall>n \<in> set ns. \<not> local_names s1 n" "\<forall>n \<in> set ns. local_names st' n" by simp_all
  with resolve_locals(1) [OF wf a(1)] show ?thesis by blast
qed simp

theorem declared_once_witness: "local_names (snd (get inner_xy (None, no_stab))) ''y''"
  using declared_once [OF inner_wf(1,2) inner_eqs(2)] by simp

text \<open>A name that the innermost scope binds already is rejected, with the message of
  \<open>stab_add_decls\<close>; the rest of the declaration is not looked at.\<close>

lemma redeclaration_rejected:
  assumes wf: "stab_wf st" "chain st \<noteq> []" and t: "stab_resolve_type st ''<decls>'' (Some ty) = Inr (t, st1)"
    and n: "local_names st n"
  shows "stab_add_decls st (Decls (n # ns) ty) off b = Inl (Span_Err (n @ '' is already defined''))"
proof -
  from resolve_grows(1) [OF wf t] have g: "grows st st1" by simp
  have "local_names st1 n" using resolve_locals(1) [OF wf t] n by blast
  moreover have "chain st1 \<noteq> []" using growsD(5) [OF g] wf(2) by simp
  ultimately have "stab_has_local_var st1 n = Inr True"
    using has_local_map [OF growsD(1) [OF g]] by (simp add: stab_has_local_var_def local_names_def)
  with t show ?thesis by (simp add: stab_add_decls_def already_defined_def)
qed

text \<open>C28. The layout of a frame. The variables of a declaration get consecutive places of the size of
  their type, upwards from the current offset for locals and downwards for arguments, as long as the
  offsets fit in a C \<open>int\<close>; the offset left is the one behind the last.\<close>

theorem frame_layout:
  assumes wf: "stab_wf st" "chain st \<noteq> []" and t: "stab_resolve_type st ''<decls>'' (Some ty) = Inr (t, st1)"
    and s: "STAB_TYPE st1 t = Inr et" "s = (if b then 1 else -1) * st_size et"
    and r: "stab_add_decls st (Decls ns ty) (Some p) b = Inr (off', st')"
    and fits: "- (2 ^ 31) \<le> p" "p < 2 ^ 31" "- (2 ^ 31) \<le> p + int (length ns) * s" "p + int (length ns) * s < 2 ^ 31"
  shows "off' = Some (p + int (length ns) * s)
    \<and> (\<forall>i < length ns. \<exists>v vid. stab_resolve_var st' (ns ! i) = Inr vid \<and> STAB_VAR st' vid = Inr v
         \<and> sv_name v = ns ! i \<and> sv_type v = t \<and> sv_stack_base_offset v = p + int i * s)"
proof -
  from resolve_grows(1) [OF wf t] have g: "grows st st1" by simp
  have ne: "chain st1 \<noteq> []" using growsD(5) [OF g] wf(2) by simp
  from r t have a: "add_names st1 ns t (Some p) b = Inr (off', st')" by (simp add: stab_add_decls_def)
  note et = STAB_TYPE_Inr [OF growsD(1) [OF g] s(1)]
  note n = add_names_spec [OF growsD(1) [OF g] ne et(1) a s(2) [unfolded et(2)]]
  have place: "place s p i = p + int i * s" if "i \<le> length ns" for i
  proof (rule place_in_range [OF fits(1,2)])
    have "int i * s \<le> max 0 (int (length ns) * s) \<and> min 0 (int (length ns) * s) \<le> int i * s"
    proof (cases "0 \<le> s")
      case True
      with that have "int i * s \<le> int (length ns) * s" "0 \<le> int i * s" by (simp_all add: mult_right_mono)
      then show ?thesis by simp
    next
      case False
      with that have "int (length ns) * s \<le> int i * s" "int i * s \<le> 0"
        by (simp_all add: mult_right_mono_neg mult_nonneg_nonpos)
      then show ?thesis by simp
    qed
    with fits show "- (2 ^ 31) \<le> p + int i * s" "p + int i * s < 2 ^ 31" by linarith+
  qed
  have "\<exists>v vid. stab_resolve_var st' (ns ! i) = Inr vid \<and> STAB_VAR st' vid = Inr v
         \<and> sv_name v = ns ! i \<and> sv_type v = t \<and> sv_stack_base_offset v = p + int i * s" if i: "i < length ns" for i
  proof -
    let ?vid = "nvars st1 + int i"
    have e: "env_of sc_vars st' (ns ! i) = Some ?vid" using n(6) i by simp
    have "var_nth st' ?vid = new_var (ns ! i) t (p + int i * s)"
      using n(4) i place [of i] by (simp add: var_nth_def nat_add_distrib nth_append)
    then show ?thesis
      using resolve_env(1) [OF n(10), of "ns ! i"] STAB_VAR_ok [OF n(10) env_of_ok(1) [OF n(10) e]] e
      by (simp add: new_var_def)
  qed
  with n(5) place [of "length ns"] show ?thesis by simp
qed

theorem frame_layout_witness:
  "\<exists>st' v vid. stab_resolve_var st' ''y'' = Inr vid \<and> STAB_VAR st' vid = Inr v \<and> sv_stack_base_offset v = 8"
proof -
  let ?st = "snd (get inner_xy (None, no_stab))"
  have t: "stab_resolve_type inner_scope ''<decls>'' (Some TYPE_INTEGER) = Inr (INTEGER_TYPE_IDX, inner_scope)" by simp
  have "type_nth inner_scope INTEGER_TYPE_IDX = basic_types ! 0"
    using stab_wfD(9) [OF inner_wf(1)] by (metis type_nth_def INTEGER_TYPE_IDX_def nat_0 nth_take zero_less_numeral)
  then have s: "STAB_TYPE inner_scope INTEGER_TYPE_IDX = Inr (basic_type R_INTEGER ''integer'' 8)"
    using STAB_TYPE_ok [OF inner_wf(1) ref_ok_basic(1) [OF inner_wf(1)]] by (simp add: basic_types_def)
  have "(8 :: int) = (if True then 1 else -1) * st_size (basic_type R_INTEGER ''integer'' 8)"
    by (simp add: basic_type_def)
  from frame_layout [OF inner_wf(1,2) t s this inner_eqs(2), THEN conjunct2, rule_format, of 1]
  show ?thesis by auto
qed

section \<open>Types and subprograms\<close>

text \<open>Declaring a subprogram binds its parameters as variables of the scope it is declared in,
  over whatever those names meant there.\<close>

theorem parameters_leak:
  assumes wf: "stab_wf st" "chain st \<noteq> []" and r: "stab_add_func st f (TYPE_FUNCTION k ds ret) = Inr st'"
    and d: "d \<in> set ds" "n \<in> set (d_names d)"
  shows "stab_has_local_var st' n = Inr True"
proof -
  from r obtain i s1 where c: "stab_resolve_complex_type st f (TYPE_FUNCTION k ds ret) = Inr (i, s1)"
    and b: "bind_func s1 f i = Inr st'" by (auto simp: stab_add_func_def split: if_splits)
  from resolve_grows(2) [OF wf c] have g: "grows st s1" "id_ok (ntypes s1) i" by simp_all
  have ne: "chain s1 \<noteq> []" using growsD(5) [OF g(1)] wf(2) by simp
  have "local_names s1 n" using resolve_locals(2) [OF wf c] d by blast
  moreover from bind_func_wf [OF growsD(1) [OF g(1)] ne g(2), of f] b have
    s2: "stab_wf st'" "chain st' = chain s1" by (auto dest: stab_ext_chain)
  moreover have "sc_vars (scope_nth st' (last (chain s1))) = sc_vars (scope_nth s1 (last (chain s1)))"
  proof -
    note l = last_chain [OF growsD(1) [OF g(1)] ne]
    from b obtain h where "scope_put s1 (last (chain s1)) (scope_nth s1 (last (chain s1))\<lparr>sc_funcs := h\<rparr>) = Inr st'"
      by (auto simp: bind_func_def top_scope_ok [OF growsD(1) [OF g(1)] ne])
    with pv_write_inv [OF stab_wfD(3) [OF growsD(1) [OF g(1)]] l, of "scope_nth s1 (last (chain s1))\<lparr>sc_funcs := h\<rparr>"]
    show ?thesis using l by (auto simp: scope_put_def scope_nth_def)
  qed
  ultimately show ?thesis
    using has_local_map [OF s2(1)] ne by (simp add: stab_has_local_var_def local_names_def)
qed

definition leak_sig :: ast_type where
  "leak_sig = TYPE_FUNCTION SUB_PROCEDURE [Decls [''p''] TYPE_INTEGER] None"

lemma leak_ok: "is_ok (stab_add_func one_scope ''f'' leak_sig)"
  by code_simp

theorem parameters_leak_witness:
  "\<exists>st'. stab_add_func one_scope ''f'' leak_sig = Inr st' \<and> stab_has_local_var st' ''p'' = Inr True"
  using leak_ok
proof (rule is_okE)
  fix st' assume s: "stab_add_func one_scope ''f'' leak_sig = Inr st'"
  from parameters_leak [OF one_scope(1,2) s [unfolded leak_sig_def], of "Decls [''p''] TYPE_INTEGER" "''p''"] s
  show ?thesis by auto
qed

end
