(* ===== verification/TypeTable.thy ===== *)
theory TypeTable
  imports Names
begin

text \<open>
  The properties of the table of types: the entry of an array, the comparison of types, and what the
  declaring operations keep.
\<close>

section \<open>Numbers as text\<close>

lemma of_char_digit:
  assumes "k < 10"
  shows "(of_char (''0123456789'' ! k) :: nat) = 48 + k" "(of_char (''0123456789'' ! k) :: int) = 48 + int k"
proof -
  from assms have "k \<in> {0, 1, 2, 3, 4, 5, 6, 7, 8, 9}" by auto
  then show "(of_char (''0123456789'' ! k) :: nat) = 48 + k" "(of_char (''0123456789'' ! k) :: int) = 48 + int k"
    by auto
qed

lemma digit_is_digit: "k < 10 \<Longrightarrow> is_digit (''0123456789'' ! k)"
  by (simp add: is_digit_def of_char_digit)

lemma dec_nat_digits: "list_all is_digit (dec_nat n)"
proof (induction n rule: dec_nat.induct)
  case (1 n)
  then show ?case by (subst dec_nat.simps) (simp add: digit_is_digit)
qed

lemma dec_nat_value: "foldl (\<lambda>n c. 10 * n + (of_char c - 48)) 0 (dec_nat n) = int n"
proof (induction n rule: dec_nat.induct)
  case (1 n)
  show ?case
  proof (cases "n < 10")
    case True
    then show ?thesis by (subst dec_nat.simps) (simp add: of_char_digit)
  next
    case False
    with 1 have "foldl (\<lambda>n c. 10 * n + (of_char c - 48)) 0 (dec_nat (n div 10)) = int (n div 10)" by simp
    moreover have "10 * int (n div 10) + int (n mod 10) = int n"
      by (metis mult_div_mod_eq of_nat_add of_nat_mult of_nat_numeral)
    ultimately show ?thesis using False by (subst dec_nat.simps) (simp add: of_char_digit)
  qed
qed

lemma is_digit_not:
  "is_digit c \<Longrightarrow> \<not> is_blank c \<and> c \<noteq> CHR ''-'' \<and> c \<noteq> CHR ''+''"
  by (auto simp: is_digit_def is_blank_def)

text \<open>Reading a number back that was printed.\<close>

lemma atoi_dec:
  assumes "0 \<le> i" and "i < 2 ^ 31"
  shows "atoi (dec i) = Inr i"
proof -
  let ?d = "dec_nat (nat i)"
  obtain c t where d: "?d = c # t" using dec_nat_nonempty by (cases ?d) auto
  have digits: "list_all is_digit ?d" by (rule dec_nat_digits)
  then have "takeWhile is_digit ?d = ?d" by (simp add: takeWhile_eq_all_conv list_all_iff)
  then have v: "digits_value ?d = i"
    using assms(1) by (simp only: digits_value_def dec_nat_value nat_0_le)
  have c: "\<not> is_blank c" "c \<noteq> CHR ''-''" "c \<noteq> CHR ''+''" using digits is_digit_not [of c] by (simp_all add: d)
  then have "dropWhile is_blank ?d = ?d" by (simp add: d)
  moreover have "(case ?d of CHR ''-'' # t \<Rightarrow> - digits_value t | CHR ''+'' # t \<Rightarrow> digits_value t | _ \<Rightarrow> digits_value ?d) = i"
    using c v by (auto simp: d split: list.splits char.splits bool.splits)
  ultimately show ?thesis using assms by (simp add: atoi_def Let_def dec_def)
qed

section \<open>Arrays\<close>

text \<open>The entry of an array type \<open>array [lo..up] of t\<close>: the bounds are those that were written,
  and the size is that of \<open>up - lo\<close> elements, one less than the array has (whenever that number of
  bytes fits in 64 bits).\<close>

theorem array_entry:
  assumes wf: "stab_wf st" "chain st \<noteq> []" and b: "0 \<le> lo" "lo \<le> up" "up < 2 ^ 31"
    and e: "stab_resolve_type st ''<array elts>'' (Some elt) = Inr (e, st1)" "STAB_TYPE st1 e = Inr et"
    and s: "0 \<le> st_size et" "st_size et * (up - lo + 1) < 2 ^ 64"
  shows "\<exists>i st' t. stab_resolve_type st name (Some (TYPE_ARRAY (dec lo) (dec up) elt)) = Inr (i, st')
    \<and> STAB_TYPE st' i = Inr t \<and> st_ty t = R_ARRAY lo up e
    \<and> st_size t = st_size et * (up - lo + 1) - st_size et"
proof -
  from resolve_grows(1) [OF wf e(1)] have g: "grows st st1" by simp
  note ok = STAB_TYPE_Inr(1) [OF growsD(1) [OF g] e(2)]
  have "0 \<le> st_size et * (up - lo)" "st_size et * (up - lo) \<le> st_size et * (up - lo + 1)"
    using b s(1) by (simp_all add: mult_left_mono)
  with s(2) have "st_size et * (up - lo) mod 2 ^ 64 = st_size et * (up - lo)"
    by (intro mod_pos_pos_trivial) simp_all
  then have sz: "to_uint64 (st_size et * (up - lo)) = st_size et * (up - lo + 1) - st_size et"
    by (simp add: to_uint64_def algebra_simps)
  let ?t = "type_entry (R_ARRAY lo up e) name (to_uint64 (st_size et * (up - lo))) 0"
  have rw: "rtype_wf (nvars st1) (ntypes st1) (st_ty ?t)" using ok by (simp add: rtype_wf_def type_entry_def)
  from push_type_wf [OF growsD(1) [OF g] this] obtain st' where
    p: "push_type st1 ?t = Inr (ntypes st1, st')" "stab_wf st'" by blast
  note pg = push_type_grows(3,4) [OF growsD(1) [OF g] rw p(1)]
  have "stab_resolve_type st name (Some (TYPE_ARRAY (dec lo) (dec up) elt)) = Inr (ntypes st1, st')"
    using b e p(1) by (simp add: atoi_dec)
  moreover have "STAB_TYPE st' (ntypes st1) = Inr ?t"
    using STAB_TYPE_ok [OF p(2), of "ntypes st1"] pg by (simp add: id_ok_def)
  ultimately show ?thesis using sz by (auto simp: type_entry_def)
qed

lemma integer_entry:
  assumes "stab_wf st"
  shows "STAB_TYPE st INTEGER_TYPE_IDX = Inr (basic_type R_INTEGER ''integer'' 8)"
    and "STAB_TYPE st BOOLEAN_TYPE_IDX = Inr (basic_type R_BOOLEAN ''boolean'' 1)"
proof -
  have "pv_list (types st) ! 0 = basic_types ! 0" "pv_list (types st) ! 3 = basic_types ! 3"
    using nth_take [of 0 6 "pv_list (types st)"] nth_take [of 3 6 "pv_list (types st)"] stab_wfD(9) [OF assms]
    by simp_all
  then show "STAB_TYPE st INTEGER_TYPE_IDX = Inr (basic_type R_INTEGER ''integer'' 8)"
    "STAB_TYPE st BOOLEAN_TYPE_IDX = Inr (basic_type R_BOOLEAN ''boolean'' 1)"
    using STAB_TYPE_ok [OF assms] ref_ok_basic [OF assms]
    by (simp_all add: type_nth_def INTEGER_TYPE_IDX_def BOOLEAN_TYPE_IDX_def basic_types_def)
qed

theorem array_entry_witness:
  "\<exists>i st' t. stab_resolve_type one_scope ''a'' (Some (TYPE_ARRAY (dec 1) (dec 10) TYPE_INTEGER)) = Inr (i, st')
    \<and> STAB_TYPE st' i = Inr t \<and> st_size t = 72"
  using array_entry [OF one_scope(1,2), of 1 10 TYPE_INTEGER INTEGER_TYPE_IDX one_scope
      "basic_type R_INTEGER ''integer'' 8" "''a''"] integer_entry(1) [OF one_scope(1)]
  by (auto simp: basic_type_def)

section \<open>Comparing types\<close>

lemma types_eq_fuel_sym: "types_eq_fuel n st a b = Inr r \<Longrightarrow> types_eq_fuel n st b a = Inr r"
proof (induction n arbitrary: a b)
  case (Suc n)
  then obtain s t where st: "STAB_TYPE st a = Inr s" "STAB_TYPE st b = Inr t" by auto
  with Suc show ?case
    by (cases "st_ty s"; cases "st_ty t") (auto simp: tag_of_def)
qed simp

lemma types_eq_fuel_trans:
  "types_eq_fuel n st a b = Inr True \<Longrightarrow> types_eq_fuel n st b c = Inr True \<Longrightarrow> types_eq_fuel n st a c = Inr True"
proof (induction n arbitrary: a b c)
  case (Suc n)
  then obtain s t u where st: "STAB_TYPE st a = Inr s" "STAB_TYPE st b = Inr t" "STAB_TYPE st c = Inr u" by auto
  from st Suc.prems have tags: "tag_of (st_ty s) = tag_of (st_ty t)" "tag_of (st_ty t) = tag_of (st_ty u)"
    by (auto split: if_splits)
  show ?case
  proof (cases "st_ty s")
    case (R_POINTER p)
    with tags obtain q r where "st_ty t = R_POINTER q" "st_ty u = R_POINTER r"
      by (cases "st_ty t"; cases "st_ty u") (simp_all add: tag_of_def)
    with R_POINTER Suc st show ?thesis by (simp add: tag_of_def)
  next
    case (R_ARRAY lo up e)
    with tags have "\<exists>l v f. st_ty t = R_ARRAY l v f" by (cases "st_ty t") (simp_all add: tag_of_def)
    with R_ARRAY Suc.prems st tags show ?thesis by auto
  qed (use Suc.prems st tags in \<open>cases "st_ty t"; simp add: tag_of_def\<close>)+
qed simp

lemma types_eq_fuel_refl: "types_eq_fuel n st a a \<noteq> Inr False"
proof (induction n arbitrary: a)
  case (Suc n)
  then show ?case
    by (cases "STAB_TYPE st a") (auto split: stab_resolved_type.splits)
qed simp

text \<open>C26. \<open>stab_types_eq\<close> always returns on a well-formed table, also where a type points to
  pointers; it is symmetric and transitive, and no type differs from itself.\<close>

theorem types_eq_equivalence:
  assumes "stab_wf st"
  shows "stab_types_eq st a b \<noteq> Inl Diverges
    \<and> (stab_types_eq st a b = Inr r \<longrightarrow> stab_types_eq st b a = Inr r)
    \<and> (stab_types_eq st a b = Inr True \<longrightarrow> stab_types_eq st b c = Inr True \<longrightarrow> stab_types_eq st a c = Inr True)
    \<and> stab_types_eq st a a \<noteq> Inr False"
  using stab_types_eq_returns [OF assms] types_eq_fuel_sym types_eq_fuel_trans types_eq_fuel_refl
  unfolding stab_types_eq_def by blast

theorem types_eq_equivalence_witness:
  "stab_types_eq one_scope INTEGER_TYPE_IDX BOOLEAN_TYPE_IDX \<noteq> Inl Diverges
    \<and> stab_types_eq one_scope INTEGER_TYPE_IDX INTEGER_TYPE_IDX \<noteq> Inr False"
  using types_eq_equivalence [OF one_scope(1), of INTEGER_TYPE_IDX BOOLEAN_TYPE_IDX] types_eq_equivalence [OF one_scope(1)]
  by blast

section \<open>Declaring keeps the table well-formed\<close>

text \<open>C27. Declaring variables, a subprogram or a type keeps the symbol table well-formed (every
  index it stores is inside the vector it points into, except the -1 of an unknown name), and the ids
  of the types and variables that exist already keep their meaning.\<close>

theorem declaring_keeps_wf:
  assumes "stab_wf st" and "chain st \<noteq> []"
    and "(\<exists>d off b off'. stab_add_decls st d off b = Inr (off', st')) \<or> (\<exists>n sig. stab_add_func st n sig = Inr st')
      \<or> (\<exists>n ty. stab_add_type st n ty = Inr st')"
  shows "stab_wf st' \<and> chain st' = chain st
    \<and> (\<forall>i t. STAB_TYPE st i = Inr t \<longrightarrow> STAB_TYPE st' i = Inr t)
    \<and> (\<forall>i v. STAB_VAR st i = Inr v \<longrightarrow> STAB_VAR st' i = Inr v)"
proof -
  have e: "ext_wf st st'"
    using assms stab_add_decls_grows grows_ext_wf stab_add_func_ext_wf stab_add_type_ext_wf(1) by blast
  note x = ext_wfD [OF e]
  have "STAB_TYPE st' i = Inr t" if "STAB_TYPE st i = Inr t" for i t
    using STAB_TYPE_Inr [OF assms(1) that] STAB_TYPE_ok [OF x(1) id_ok_mono [OF _ x(4)], of i]
      ext_type_nth [OF x(2), of i] by simp
  moreover have "STAB_VAR st' i = Inr v" if "STAB_VAR st i = Inr v" for i v
  proof -
    from x(6) obtain vs where "pv_list (vars st') = pv_list (vars st) @ vs" by (auto simp: adds_def)
    moreover note i = STAB_VAR_Inr [OF assms(1) that]
    ultimately have "var_nth st' i = v" by (simp add: var_nth_def nth_append id_ok_def nat_less_iff)
    with STAB_VAR_ok [OF x(1) id_ok_mono [OF i(1) x(5)]] show ?thesis by simp
  qed
  ultimately show ?thesis using x by blast
qed

theorem declaring_keeps_wf_witness: "stab_wf (snd (get inner_xy (None, no_stab)))"
  using declaring_keeps_wf [OF inner_wf(1,2), of "snd (get inner_xy (None, no_stab))"] inner_eqs(2) by blast



end
