(* ===== verification/AstPrint.thy ===== *)
theory AstPrint
  imports Ast
begin

text \<open>
  The printers of token.c and ast.c. Every function gives the list of its print calls; only
  \<open>print_token\<close> and \<open>print_type\<close> write to standard error, for what they do not recognise. The
  number bison gives a token (\<open>tc\<close>) is a parameter, since parser.tab.h is generated.

  The lemmas show that what the expression and statement printers write consists of whole lines,
  each empty or indented by at least the given number of blanks.
\<close>

definition puts :: "string \<Rightarrow> io list" where
  "puts s = [Stdout (s @ nl)]"

definition out :: "string \<Rightarrow> io list" where
  "out s = [Stdout s]"

definition indent_io :: "nat \<Rightarrow> io list" where
  "indent_io i = [Stdout (spaces i)]"

definition INDSZ :: nat where
  "INDSZ = 2"

section \<open>Tokens\<close>

text \<open>\<open>print_token\<close>: a case for every token but \<open>TYPE\<close> and \<open>RECORD\<close>.\<close>

fun token_name :: "token \<Rightarrow> string option" where
  "token_name TOK_EOF = Some ''EOF''"
| "token_name T_DIV = Some ''DIV''"
| "token_name T_BOOLEAN = Some ''BOOLEAN''"
| "token_name T_STRING = Some ''STRING''"
| "token_name T_CHAR = Some ''CHAR''"
| "token_name T_FOR = Some ''FOR''"
| "token_name T_TO = Some ''TO''"
| "token_name T_MOD = Some ''MOD''"
| "token_name T_AND = Some ''AND''"
| "token_name T_OR = Some ''OR''"
| "token_name T_NOT = Some ''NOT''"
| "token_name T_FUNCTION = Some ''FUNCTION''"
| "token_name T_PROCEDURE = Some ''PROCEDURE''"
| "token_name T_TBEGIN = Some ''TBEGIN''"
| "token_name T_END = Some ''END''"
| "token_name T_INTEGER = Some ''INTEGER''"
| "token_name T_REAL = Some ''REAL''"
| "token_name T_ARRAY = Some ''ARRAY''"
| "token_name T_OF = Some ''OF''"
| "token_name T_PROGRAM = Some ''PROGRAM''"
| "token_name T_NEQ = Some ''NEQ''"
| "token_name T_LE = Some ''LE''"
| "token_name T_GE = Some ''GE''"
| "token_name T_DOTDOT = Some ''DOTDOT''"
| "token_name T_ASSIGNOP = Some ''ASSIGNOP''"
| "token_name (T_ID n) = Some (''ID('' @ n @ '')'')"
| "token_name (T_NUM n) = Some (''NUM('' @ n @ '')'')"
| "token_name T_DO = Some ''DO''"
| "token_name T_ELSE = Some ''ELSE''"
| "token_name T_IF = Some ''IF''"
| "token_name T_THEN = Some ''THEN''"
| "token_name T_VAR = Some ''VAR''"
| "token_name T_WHILE = Some ''WHILE''"
| "token_name (Ch c) =
     map_of [(CHR ''='', ''EQ''), (CHR ''<'', ''LT''), (CHR ''>'', ''GT''), (CHR ''+'', ''PLUS''),
       (CHR ''-'', ''MINUS''), (CHR ''*'', ''STAR''), (CHR ''/'', ''SLASH''), (CHR ''('', ''LPAREN''),
       (CHR '')'', ''RPAREN''), (CHR ''['', ''LBRACKET''), (CHR '']'', ''RBRACKET''),
       (CHR '','', ''COMMA''), (CHR ''.'', ''DOT''), (CHR '':'', ''COLON''), (CHR '';'', ''SEMI''),
       (CHR ''@'', ''AT''), (CHR ''^'', ''CARET'')] c"
| "token_name T_TYPE = None"
| "token_name T_RECORD = None"

definition print_token :: "(token \<Rightarrow> int) \<Rightarrow> token \<Rightarrow> io list" where
  "print_token tc t = (case token_name t of
       Some n \<Rightarrow> puts n
     | None \<Rightarrow> [Stderr (''Unknown token '' @ dec (tc t) @ nl)])"

section \<open>Paths and expressions\<close>

text \<open>\<open>print_path\<close>: the components with a dot between two.\<close>

fun path_io :: "ast_path \<Rightarrow> io list" where
  "path_io [] = []"
| "path_io [c] = out c"
| "path_io (c # cs) = out c @ out ''.'' @ path_io cs"

definition print_path :: "ast_path \<Rightarrow> nat \<Rightarrow> io list" where
  "print_path p i = indent_io i @ path_io p"

fun print_expr :: "(token \<Rightarrow> int) \<Rightarrow> ast_expr \<Rightarrow> nat \<Rightarrow> io list"
  and print_exprs :: "(token \<Rightarrow> int) \<Rightarrow> ast_expr list \<Rightarrow> nat \<Rightarrow> io list" where
  "print_expr tc (EXPR_APP name args) i =
     indent_io i @ out ''APPLY `'' @ print_path name 0 @ out (''`'' @ nl) @
     indent_io i @ puts ''TO ARGS:'' @ print_exprs tc args (i + INDSZ)"
| "print_expr tc (EXPR_BIN left op right) i =
     indent_io i @ out ''BINOP '' @ print_token tc op @
     indent_io (i + INDSZ) @ out (''LEFT:'' @ nl) @ print_expr tc left (i + INDSZ + INDSZ) @
     indent_io (i + INDSZ) @ out (''RIGHT:'' @ nl) @ print_expr tc right (i + INDSZ + INDSZ)"
| "print_expr tc (EXPR_DEREF e) i =
     indent_io i @ puts ''DEREF:'' @ print_expr tc e (i + INDSZ) @ puts ''''"
| "print_expr tc (EXPR_IDX path e) i =
     indent_io i @ out ''INDEX `'' @ print_path path 0 @ puts ''` WITH:'' @ print_expr tc e (i + INDSZ)"
| "print_expr tc (EXPR_LIT lit) i = indent_io i @ out (''LIT `'' @ lit @ ''`'' @ nl)"
| "print_expr tc (EXPR_PATH path) i = indent_io i @ print_path path 0 @ puts ''''"
| "print_expr tc (EXPR_UN op e) i =
     indent_io i @ out ''UNARY '' @ print_token tc op @ puts '':'' @ print_expr tc e (i + INDSZ)"
| "print_expr tc (EXPR_ADDROF e) i =
     indent_io i @ puts ''ADDRESS OF:'' @ print_expr tc e (i + INDSZ)"
| "print_exprs tc [] i = []"
| "print_exprs tc (e # es) i = print_expr tc e i @ print_exprs tc es i"

section \<open>Statements\<close>

fun print_stmt :: "(token \<Rightarrow> int) \<Rightarrow> ast_stmt option \<Rightarrow> nat \<Rightarrow> io list"
  and print_stmts :: "(token \<Rightarrow> int) \<Rightarrow> ast_stmt option list \<Rightarrow> nat \<Rightarrow> io list" where
  "print_stmt tc None i = []"
| "print_stmt tc (Some (STMT_ASSIGN lvalue rvalue)) i =
     indent_io i @ puts ''ASSIGN'' @ print_expr tc lvalue (i + INDSZ) @
     indent_io i @ puts ''TO'' @ print_expr tc rvalue (i + INDSZ)"
| "print_stmt tc (Some (STMT_ITE c th el)) i =
     indent_io i @ puts ''IF FOLLOWING IS TRUE:'' @ print_expr tc c (i + INDSZ) @
     indent_io i @ puts ''THEN:'' @ print_stmt tc th (i + INDSZ) @
     indent_io i @ puts ''OTHERWISE:'' @ print_stmt tc el (i + INDSZ)"
| "print_stmt tc (Some (STMT_STMTS ss)) i = print_stmts tc ss i"
| "print_stmt tc (Some (STMT_PROC name args)) i =
     indent_io i @ out ''APPLY `'' @ print_path name 0 @
     (if args \<noteq> [] then puts ''` WITH:'' @ print_exprs tc args (i + INDSZ) else puts ''`'')"
| "print_stmt tc (Some (STMT_WDO c body)) i =
     indent_io i @ puts ''WHILE THE FOLLOWING IS TRUE:'' @ print_expr tc c (i + INDSZ) @
     indent_io i @ puts ''DO:'' @ print_stmt tc body (i + INDSZ)"
| "print_stmt tc (Some (STMT_FOR v start stop body)) i =
     indent_io i @ out (''FOR `'' @ v @ ''` STARTING AT:'' @ nl) @ print_expr tc start (i + INDSZ) @
     indent_io i @ puts ''AND GOING TO:'' @ print_expr tc stop (i + INDSZ) @
     indent_io i @ puts ''DO:'' @ print_stmt tc body (i + INDSZ)"
| "print_stmts tc [] i = []"
| "print_stmts tc (s # ss) i = print_stmt tc s i @ print_stmts tc ss i"

section \<open>Types, declarations, subprograms, programs\<close>

fun print_names :: "string list \<Rightarrow> nat \<Rightarrow> io list" where
  "print_names [] i = []"
| "print_names (n # ns) i = indent_io i @ out (''`'' @ n @ ''`'' @ nl) @ print_names ns i"

fun print_type :: "ast_type option \<Rightarrow> nat \<Rightarrow> io list"
  and print_decls :: "ast_decls \<Rightarrow> nat \<Rightarrow> io list"
  and print_decls_list :: "ast_decls list \<Rightarrow> nat \<Rightarrow> io list"
  and print_record_field :: "ast_record_field \<Rightarrow> nat \<Rightarrow> io list"
  and print_record_fields :: "ast_record_field list \<Rightarrow> nat \<Rightarrow> io list" where
  "print_type None i = []"
| "print_type (Some TYPE_INTEGER) i = indent_io i @ puts ''INTEGER''"
| "print_type (Some TYPE_REAL) i = indent_io i @ puts ''REAL''"
| "print_type (Some TYPE_STRING) i = indent_io i @ puts ''STRING''"
| "print_type (Some TYPE_BOOLEAN) i = indent_io i @ puts ''BOOLEAN''"
| "print_type (Some TYPE_CHAR) i = indent_io i @ puts ''CHAR''"
| "print_type (Some (TYPE_ARRAY lower upper elt)) i =
     indent_io i @ out (''ARRAY [`'' @ lower @ ''` .. `'' @ upper @ ''`] OF:'' @ nl) @
     print_type (Some elt) (i + INDSZ)"
| "print_type (Some (TYPE_POINTER t)) i =
     indent_io i @ puts ''POINTER TO:'' @ print_type (Some t) (i + INDSZ)"
| "print_type (Some (TYPE_REF n)) i = indent_io i @ out (''REFERENCE `'' @ n @ ''`'')"
| "print_type (Some (TYPE_FUNCTION k args retty)) i =
     indent_io i @
     out ((if k = SUB_FUNCTION then ''FUNCTION'' else ''PROCEDURE'') @ '' WITH ARGUMENTS:'' @ nl) @
     print_decls_list args (i + INDSZ) @
     (if k = SUB_FUNCTION then indent_io i @ puts ''RETURNING:'' @ print_type retty (i + INDSZ) else [])"
| "print_type (Some (TYPE_RECORD fs)) i =
     indent_io i @ puts ''RECORD WITH FIELDS:'' @ print_record_fields fs (i + INDSZ)"
| "print_type (Some TYPE_VOID) i = indent_io i @ [Stderr (''unrecognized type node...'' @ nl)]"
| "print_decls (Decls names t) i =
     indent_io i @ puts ''DECLARATION WITH TYPE:'' @ print_type (Some t) (i + INDSZ) @
     indent_io i @ puts ''OF NAMES:'' @ print_names names (i + INDSZ)"
| "print_decls_list [] i = []"
| "print_decls_list (d # ds) i = print_decls d i @ print_decls_list ds i"
| "print_record_field (Field n t) i =
     indent_io i @ out (''FIELD `'' @ n @ ''` WITH TYPE:'' @ nl) @ print_type (Some t) (i + INDSZ)"
| "print_record_fields [] i = []"
| "print_record_fields (f # fs) i = print_record_field f i @ print_record_fields fs i"

fun print_subprogram_decl :: "(token \<Rightarrow> int) \<Rightarrow> ast_subdecl \<Rightarrow> nat \<Rightarrow> io list"
  and print_subprogram_decls :: "(token \<Rightarrow> int) \<Rightarrow> ast_subdecl list \<Rightarrow> nat \<Rightarrow> io list" where
  "print_subprogram_decl tc (Subdecl head name decls subprogs types body) i =
     print_type (Some head) i @
     indent_io i @ puts ''WITH SUBPROGRAMS:'' @ print_subprogram_decls tc subprogs (i + INDSZ) @
     indent_io i @ puts ''AND VARIABLES'' @ print_decls_list decls (i + INDSZ) @
     indent_io i @ puts ''DOES:'' @ print_stmt tc body (i + INDSZ)"
| "print_subprogram_decls tc [] i = []"
| "print_subprogram_decls tc (d # ds) i = print_subprogram_decl tc d i @ print_subprogram_decls tc ds i"

definition print_program :: "(token \<Rightarrow> int) \<Rightarrow> ast_program \<Rightarrow> nat \<Rightarrow> io list" where
  "print_program tc p i =
     indent_io i @ out (''PROGRAM `'' @ p_name p @ ''` WITH ARGS:'' @ nl) @
     print_names (p_args p) (i + INDSZ) @
     indent_io i @ puts ''AND VARIABLES:'' @ print_decls_list (p_decls p) (i + INDSZ) @
     indent_io i @ puts ''AND SUBPROGRAMS:'' @ print_subprogram_decls tc (p_subprogs p) (i + INDSZ) @
     indent_io i @ puts ''DOES:'' @ print_stmt tc (p_body p) (i + INDSZ)"


section \<open>The shape of the output\<close>

fun stdout_of :: "io list \<Rightarrow> string" where
  "stdout_of [] = []"
| "stdout_of (Stdout s # es) = s @ stdout_of es"
| "stdout_of (Stderr s # es) = stdout_of es"

lemma stdout_of_append [simp]: "stdout_of (as @ bs) = stdout_of as @ stdout_of bs"
  by (induction as rule: stdout_of.induct) simp_all

text \<open>
  \<open>indented i q t\<close> scans \<open>t\<close>: every line is empty or starts with \<open>i\<close> blanks, and the last line is
  complete. The state \<open>Some k\<close> is a line start with \<open>k\<close> blanks read, \<open>None\<close> the inside of a line.
\<close>

fun indented :: "nat \<Rightarrow> nat option \<Rightarrow> string \<Rightarrow> bool" where
  "indented i None [] = False"
| "indented i (Some k) [] = (k = 0)"
| "indented i None (c # t) = indented i (if c = CHR 0x0A then Some 0 else None) t"
| "indented i (Some k) (c # t) =
     (if i \<le> k then indented i (if c = CHR 0x0A then Some 0 else None) t
      else if c = CHR 0x20 then indented i (Some (Suc k)) t
      else c = CHR 0x0A \<and> k = 0 \<and> indented i (Some 0) t)"

lemma indented_append: "indented i q a \<Longrightarrow> indented i q (a @ b) = indented i (Some 0) b"
  by (induction i q a rule: indented.induct) (auto split: if_splits)

lemma indented_spaces: "k + n = i \<Longrightarrow> indented i (Some k) (spaces n @ t) = indented i (Some i) t"
  by (induction n arbitrary: k) (simp_all add: spaces_def)

lemma indented_spaces0 [simp]: "indented i (Some 0) (spaces i @ t) = indented i (Some i) t"
  by (rule indented_spaces) simp

lemma indented_word: "CHR 0x0A \<notin> set w \<Longrightarrow> indented i None (w @ t) = indented i None t"
  by (induction w) auto

lemma newline_spaces [simp]: "CHR 0x0A \<notin> set (spaces n)"
  by (simp add: spaces_def)

lemma indented_spaces_more: "i < j \<Longrightarrow> indented i (Some 0) (spaces j @ t) = indented i None t"
proof -
  assume "i < j"
  then obtain n where j: "j = i + Suc n" using less_iff_Suc_add by auto
  have "spaces j @ t = spaces i @ CHR 0x20 # spaces n @ t"
    by (simp add: spaces_def j replicate_add replicate_app_Cons_same)
  then show ?thesis by (simp add: indented_word)
qed

lemma indented_word_line:
  "CHR 0x0A \<notin> set w \<Longrightarrow> indented i (Some i) (w @ CHR 0x0A # t) = indented i (Some 0) t"
  by (cases w) (auto simp: indented_word)

definition narrow :: "nat \<Rightarrow> nat option \<Rightarrow> nat option" where
  "narrow i q = (case q of None \<Rightarrow> None | Some k \<Rightarrow> if k \<le> i then Some k else None)"

lemma narrow_simps [simp]: "narrow i None = None" "narrow i (Some 0) = Some 0"
  "k \<le> i \<Longrightarrow> narrow i (Some k) = Some k" "i < k \<Longrightarrow> narrow i (Some k) = None"
  by (simp_all add: narrow_def)

lemma indented_mono_gen:
  "indented j q t \<Longrightarrow> i \<le> j \<Longrightarrow> (\<And>k. q = Some k \<Longrightarrow> k \<le> j) \<Longrightarrow> indented i (narrow i q) t"
proof (induction t arbitrary: q)
  case Nil
  then show ?case by (cases q) auto
next
  case (Cons c t)
  show ?case
  proof (cases q)
    case None
    let ?q = "if c = CHR 0x0A then Some 0 else None"
    from None Cons.prems(1) have "indented j ?q t" by simp
    then have "indented i (narrow i ?q) t" by (rule Cons.IH [OF _ Cons.prems(2)]) (simp split: if_splits)
    with None show ?thesis by (simp split: if_splits)
  next
    case (Some k)
    have "k \<le> j" using Cons.prems(3) Some by blast
    then consider "k = j" | "k < j" "c = CHR 0x20" | "k < j" "c \<noteq> CHR 0x20" by linarith
    then show ?thesis
    proof cases
      case 1
      let ?q = "if c = CHR 0x0A then Some 0 else None"
      from 1 Cons.prems(1) Some have "indented j ?q t" by simp
      then have "indented i (narrow i ?q) t" by (rule Cons.IH [OF _ Cons.prems(2)]) (simp split: if_splits)
      with Cons.prems(2) Some 1 show ?thesis
        by (cases "i = j") (simp_all split: if_splits)
    next
      case 2
      with Cons.prems(1) Some have "indented j (Some (Suc k)) t" by simp
      then have "indented i (narrow i (Some (Suc k))) t"
        by (rule Cons.IH [OF _ Cons.prems(2)]) (use 2 in simp)
      with Cons.prems(2) Some 2 show ?thesis
        by (cases "i \<le> k"; cases "i = k") simp_all
    next
      case 3
      with Cons.prems(1) Some have c: "k = 0" "c = CHR 0x0A" "indented j (Some 0) t" by simp_all
      from c(3) have "indented i (narrow i (Some 0)) t" by (rule Cons.IH [OF _ Cons.prems(2)]) simp
      with c Some show ?thesis by (cases "i = 0") simp_all
    qed
  qed
qed

lemma indented_mono: "indented j (Some 0) t \<Longrightarrow> i \<le> j \<Longrightarrow> indented i (Some 0) t"
  using indented_mono_gen [of j "Some 0" t i] by simp

lemma indented_deeper: "indented (i + INDSZ) (Some 0) t \<Longrightarrow> indented i (Some 0) t"
  by (erule indented_mono) simp

text \<open>Names and literals without a newline, operators with a name, and no unary operator.\<close>

definition clean :: "string \<Rightarrow> bool" where
  "clean s \<longleftrightarrow> CHR 0x0A \<notin> set s"

fun clean_expr :: "ast_expr \<Rightarrow> bool" where
  "clean_expr (EXPR_APP name args) = (list_all clean name \<and> list_all clean_expr args)"
| "clean_expr (EXPR_BIN left op right) =
     (clean_expr left \<and> (case token_name op of None \<Rightarrow> False | Some n \<Rightarrow> clean n) \<and> clean_expr right)"
| "clean_expr (EXPR_DEREF e) = clean_expr e"
| "clean_expr (EXPR_IDX path e) = (list_all clean path \<and> clean_expr e)"
| "clean_expr (EXPR_LIT lit) = clean lit"
| "clean_expr (EXPR_PATH path) = list_all clean path"
| "clean_expr (EXPR_UN op e) = False"
| "clean_expr (EXPR_ADDROF e) = clean_expr e"

fun clean_stmt :: "ast_stmt option \<Rightarrow> bool"
  and clean_stmts :: "ast_stmt option list \<Rightarrow> bool" where
  "clean_stmt None = True"
| "clean_stmt (Some (STMT_ASSIGN l r)) = (clean_expr l \<and> clean_expr r)"
| "clean_stmt (Some (STMT_FOR v a b body)) = (clean v \<and> clean_expr a \<and> clean_expr b \<and> clean_stmt body)"
| "clean_stmt (Some (STMT_ITE c th el)) = (clean_expr c \<and> clean_stmt th \<and> clean_stmt el)"
| "clean_stmt (Some (STMT_PROC name args)) = (list_all clean name \<and> list_all clean_expr args)"
| "clean_stmt (Some (STMT_STMTS ss)) = clean_stmts ss"
| "clean_stmt (Some (STMT_WDO c body)) = (clean_expr c \<and> clean_stmt body)"
| "clean_stmts [] = True"
| "clean_stmts (s # ss) = (clean_stmt s \<and> clean_stmts ss)"


lemma stdout_simps [simp]:
  "stdout_of (puts s) = s @ nl" "stdout_of (out s) = s" "stdout_of (indent_io i) = spaces i"
  "nl = [CHR 0x0A]" "spaces 0 = []"
  by (simp_all add: puts_def out_def indent_io_def nl_def spaces_def)

lemma path_text_clean: "list_all clean p \<Longrightarrow> CHR 0x0A \<notin> set (stdout_of (print_path p 0))"
  by (induction p rule: path_io.induct) (auto simp: print_path_def clean_def)

lemma print_token_text: "token_name op = Some n \<Longrightarrow> stdout_of (print_token tc op) = n @ [CHR 0x0A]"
  by (simp add: print_token_def)

lemma print_expr_indented_gen:
  "clean_expr e \<Longrightarrow> indented i (Some 0) (stdout_of (print_expr tc e i))"
  "list_all clean_expr es \<Longrightarrow> indented i (Some 0) (stdout_of (print_exprs tc es i))"
proof (induction tc e i and tc es i rule: print_expr_print_exprs.induct)
  case (1 tc name args i)
  have "indented i (Some 0) (stdout_of (print_exprs tc args (i + INDSZ)))"
    using 1 by (auto dest: indented_deeper)
  with 1 show ?case by (simp add: indented_word path_text_clean)
next
  case (2 tc left op right i)
  have l: "indented i (Some 0) (stdout_of (print_expr tc left (i + INDSZ + INDSZ)))"
    and r: "indented i (Some 0) (stdout_of (print_expr tc right (i + INDSZ + INDSZ)))"
    using 2 by (auto dest: indented_deeper split: option.splits)
  from 2 obtain n where n: "token_name op = Some n" "CHR 0x0A \<notin> set n"
    by (auto simp: clean_def split: option.splits)
  have m: "i < i + INDSZ" by (simp add: INDSZ_def)
  show ?case using n indented_append [OF l] r
    by (simp add: print_token_text indented_word indented_spaces_more [OF m])
next
  case (3 tc e i)
  have "indented i (Some 0) (stdout_of (print_expr tc e (i + INDSZ)))"
    using 3 by (auto dest: indented_deeper)
  from indented_append [OF this] show ?case by simp
next
  case (4 tc path e i)
  have "indented i (Some 0) (stdout_of (print_expr tc e (i + INDSZ)))"
    using 4 by (auto dest: indented_deeper)
  with 4 show ?case by (simp add: indented_word path_text_clean)
next
  case (8 tc e i)
  have "indented i (Some 0) (stdout_of (print_expr tc e (i + INDSZ)))"
    using 8 by (auto dest: indented_deeper)
  with 8 show ?case by simp
next
  case (10 tc e es i)
  then show ?case by (simp add: indented_append)
qed (auto simp: clean_def indented_word indented_word_line path_text_clean)

lemma print_expr_indented: "clean_expr e \<Longrightarrow> i \<le> j \<Longrightarrow> indented i (Some 0) (stdout_of (print_expr tc e j))"
  and print_exprs_indented:
    "list_all clean_expr es \<Longrightarrow> i \<le> j \<Longrightarrow> indented i (Some 0) (stdout_of (print_exprs tc es j))"
  by (blast intro: indented_mono print_expr_indented_gen)+

lemma print_stmt_indented_gen:
  "clean_stmt s \<Longrightarrow> indented i (Some 0) (stdout_of (print_stmt tc s i))"
  "clean_stmts ss \<Longrightarrow> indented i (Some 0) (stdout_of (print_stmts tc ss i))"
proof (induction tc s i and tc ss i rule: print_stmt_print_stmts.induct)
  case (2 tc lvalue rvalue i)
  then show ?case
    by (simp add: indented_append [OF print_expr_indented] print_expr_indented INDSZ_def)
next
  case (3 tc c th el i)
  have "indented i (Some 0) (stdout_of (print_stmt tc th (i + INDSZ)))"
    and "indented i (Some 0) (stdout_of (print_stmt tc el (i + INDSZ)))"
    using 3 by (auto dest: indented_deeper)
  with 3 show ?case
    by (simp add: indented_append [OF print_expr_indented] indented_append INDSZ_def)
next
  case (5 tc name args i)
  then show ?case
    by (auto simp: indented_word path_text_clean print_exprs_indented INDSZ_def)
next
  case (6 tc c body i)
  have "indented i (Some 0) (stdout_of (print_stmt tc body (i + INDSZ)))"
    using 6 by (auto dest: indented_deeper)
  with 6 show ?case by (simp add: indented_append [OF print_expr_indented] INDSZ_def)
next
  case (7 tc v start stop body i)
  have "indented i (Some 0) (stdout_of (print_stmt tc body (i + INDSZ)))"
    using 7 by (auto dest: indented_deeper)
  with 7 show ?case
    by (simp add: indented_append [OF print_expr_indented] indented_word clean_def INDSZ_def)
next
  case (9 tc s ss i)
  then show ?case by (simp add: indented_append)
qed auto

end
