(* ===== verification/Codegen.thy ===== *)
theory Codegen
  imports Symbol AstPrint
begin

text \<open>
  The assembly text the compiler writes and the register allocator (the first part of analysis.c),
  with the analysis context \<open>struct acx\<close>. The output file is the list of the instructions printed
  so far; \<open>asm_text\<close> is the text of each, so that the text of the file is that of the
  \<open>fprintf\<close> calls in order. Diagnostics that do not end the program are collected apart
  (\<open>acx_diag\<close>).
\<close>

section \<open>Assembly text\<close>

datatype opnd =
    Reg string | Imm int | Lit string | Ind string
  | RbpOff int | RbpOffSp int | RbpSum int | Display int

fun opnd_text :: "opnd \<Rightarrow> string" where
  "opnd_text (Reg r) = r"
| "opnd_text (Imm i) = dec i"
| "opnd_text (Lit s) = s"
| "opnd_text (Ind r) = ''['' @ r @ '']''"
| "opnd_text (RbpOff i) = ''[rbp+'' @ dec i @ '']''"
| "opnd_text (RbpOffSp i) = ''[rbp + '' @ dec i @ '']''"
| "opnd_text (RbpSum i) = ''rbp+'' @ dec i"
| "opnd_text (Display i) = ''[display@ + '' @ dec i @ '']''"

text \<open>\<open>PushRaw\<close> is the one \<open>push\<close> whose format string has no newline.\<close>

datatype asm =
    Op0 string | Op1 string opnd | Op2 string opnd opnd
  | Label int | Jump string int | Call string | Entry string | PushRaw opnd | Verbatim string

fun asm_text :: "asm \<Rightarrow> string" where
  "asm_text (Op0 m) = m @ nl"
| "asm_text (Op1 m a) = m @ '' '' @ opnd_text a @ nl"
| "asm_text (Op2 m a b) = m @ '' '' @ opnd_text a @ '', '' @ opnd_text b @ nl"
| "asm_text (Label l) = ''.L'' @ dec l @ '':'' @ nl"
| "asm_text (Jump m l) = m @ '' .L'' @ dec l @ nl"
| "asm_text (Call f) = ''call '' @ f @ nl"
| "asm_text (Entry f) = ''global '' @ f @ ''@'' @ nl @ f @ ''@:'' @ nl"
| "asm_text (PushRaw a) = ''push '' @ opnd_text a"
| "asm_text (Verbatim s) = s"

definition output_text :: "asm list \<Rightarrow> string" where
  "output_text code = concat (map asm_text code)"

section \<open>The analysis context\<close>

definition NUM_REGS :: nat where "NUM_REGS = 14"

definition REGS :: "string list" where
  "REGS = [''rbx'', ''rcx'', ''r8'', ''r9'', ''r10'', ''r11'', ''r12'', ''r13'', ''r14'', ''r15'',
    ''rdx'', ''rsi'', ''rax'', ''rdi'']"

record register_set =
  rs_overflow :: int
  rs_used :: "bool list"

record reg =
  r_name :: string
  r_which :: nat
  r_need_restore :: bool

record acx =
  acx_rs :: register_set
  acx_st :: stab
  acx_disp_offset :: int
  acx_ofd :: "asm list"
  acx_diag :: "io list"
  acx_toplevel :: bool
  acx_func_type :: subprogs
  acx_ret_assigned :: bool
  acx_func_name :: string
  acx_label :: int

definition emit :: "asm list \<Rightarrow> acx \<Rightarrow> acx" where
  "emit code cx = cx\<lparr>acx_ofd := acx_ofd cx @ code\<rparr>"

definition diag :: "io list \<Rightarrow> acx \<Rightarrow> acx" where
  "diag es cx = cx\<lparr>acx_diag := acx_diag cx @ es\<rparr>"

abbreviation set_st :: "stab \<Rightarrow> acx \<Rightarrow> acx" where
  "set_st st cx \<equiv> cx\<lparr>acx_st := st\<rparr>"

section \<open>Registers\<close>

definition reg_init :: register_set where
  "reg_init = \<lparr>rs_overflow = 6, rs_used = replicate NUM_REGS False\<rparr>"

fun first_unused :: "bool list \<Rightarrow> nat \<Rightarrow> nat option" where
  "first_unused [] i = None"
| "first_unused (b # bs) i = (if \<not> b then Some i else first_unused bs (Suc i))"

text \<open>
  \<open>reg_gimme\<close>: the first unused register. When all are in use, one is spilled: \<open>which\<close> counts up
  modulo 14, but the name is \<open>REGS[ret.need_restore]\<close>, that is \<open>REGS[1]\<close>.
\<close>

definition reg_gimme :: "acx \<Rightarrow> reg \<times> acx" where
  "reg_gimme cx =
     (let rs = acx_rs cx in
      case first_unused (rs_used rs) 0 of
        Some i \<Rightarrow> (\<lparr>r_name = REGS ! i, r_which = i, r_need_restore = False\<rparr>,
                   cx\<lparr>acx_rs := rs\<lparr>rs_used := (rs_used rs)[i := True]\<rparr>\<rparr>)
      | None \<Rightarrow>
          let name = REGS ! 1 in
          (\<lparr>r_name = name, r_which = nat (rs_overflow rs mod int NUM_REGS), r_need_restore = True\<rparr>,
           emit [Op1 ''push'' (Reg name)] (cx\<lparr>acx_rs := rs\<lparr>rs_overflow := rs_overflow rs + 1\<rparr>\<rparr>)))"

definition reg_takeitback :: "acx \<Rightarrow> reg \<Rightarrow> acx" where
  "reg_takeitback cx r =
     (let rs = acx_rs cx in
      if \<not> r_need_restore r then cx\<lparr>acx_rs := rs\<lparr>rs_used := (rs_used rs)[r_which r := False]\<rparr>\<rparr>
      else emit [Op1 ''pop'' (Reg (r_name r))] (cx\<lparr>acx_rs := rs\<lparr>rs_overflow := rs_overflow rs - 1\<rparr>\<rparr>))"

definition save_registers :: "acx \<Rightarrow> acx" where
  "save_registers cx =
     emit (map (\<lambda>i. Op1 ''push'' (Reg (REGS ! i))) (filter (\<lambda>i. rs_used (acx_rs cx) ! i) [0..<6])) cx"

definition restore_registers_except :: "acx \<Rightarrow> reg \<Rightarrow> acx" where
  "restore_registers_except cx r =
     emit (map (\<lambda>i. Op1 ''pop'' (Reg (REGS ! i)))
       (filter (\<lambda>i. rs_used (acx_rs cx) ! i \<and> i \<noteq> r_which r) (rev [0..<6]))) cx"

text \<open>A result: the id of its type and the register that holds it.\<close>

record resu =
  re_type :: int
  re_reg :: reg

text \<open>\<open>size_of_type\<close>.\<close>

definition size_of_type :: "acx \<Rightarrow> int \<Rightarrow> int result" where
  "size_of_type cx idx =
     bindr (STAB_TYPE (acx_st cx) idx) (\<lambda>t. case st_ty t of
         R_ARRAY _ _ _ \<Rightarrow> Inr 8
       | R_BOOLEAN \<Rightarrow> Inr 1
       | R_CHAR \<Rightarrow> Inr 1
       | R_FUNCTION _ _ _ _ \<Rightarrow> Inr 8
       | R_INTEGER \<Rightarrow> Inr 8
       | R_POINTER _ \<Rightarrow> Inr 8
       | R_REAL \<Rightarrow> Inr 8
       | R_RECORD _ \<Rightarrow> Inr 64
       | R_REF \<Rightarrow> Inl (Span_Err ''What is a TYPE_REF doing in size_of_type?'')
       | R_STRING \<Rightarrow> Inr 8
       | R_VOID \<Rightarrow> Inr 1)"

section \<open>Imports\<close>

definition register_input :: "acx \<Rightarrow> acx result" where
  "register_input cx =
     bindr (stab_add_magic_func (acx_st cx) MAGIC_READLN) (\<lambda>st.
     bindr (stab_add_magic_func st MAGIC_READ) (\<lambda>st. Inr (set_st st cx)))"

definition register_output :: "acx \<Rightarrow> acx result" where
  "register_output cx =
     bindr (stab_add_magic_func (acx_st cx) MAGIC_WRITELN) (\<lambda>st.
     bindr (stab_add_magic_func st MAGIC_WRITE) (\<lambda>st. Inr (set_st st cx)))"

fun do_imports :: "acx \<Rightarrow> string list \<Rightarrow> acx result" where
  "do_imports cx [] = Inr cx"
| "do_imports cx (n # ns) =
     bindr (if n = ''input'' then register_input cx
            else if n = ''output'' then register_output cx
            else Inl (Span_Err (''no such library: `'' @ n @ ''`''))) (\<lambda>cx. do_imports cx ns)"

end
