(* ===== verification/Analysis.thy ===== *)
theory Analysis
  imports Codegen
begin

text \<open>
  Semantic analysis and code generation (analysis.c), function by function. The functions thread
  the context \<open>acx\<close>; a call of \<open>span_err\<close>, \<open>abort\<close> or \<open>assert\<close>, or an undefined step, ends the
  analysis with that failure. What is printed right before a fatal message is not kept.
\<close>

definition CHKRES :: "string \<Rightarrow> string \<Rightarrow> int \<Rightarrow> int result" where
  "CHKRES what name idx =
     (if idx = -1 then Inl (Span_Err (''resolution failure! '' @ what @ '' `'' @ name @ ''` not found''))
      else Inr idx)"

section \<open>Paths\<close>

text \<open>
  The search through the fields of a record: the type of the first field called \<open>n\<close> and its offset,
  the sum of the sizes before it.
\<close>

fun find_field :: "acx \<Rightarrow> (string \<times> int) list \<Rightarrow> string \<Rightarrow> int \<Rightarrow> (int \<times> int) option result" where
  "find_field cx [] n offset = Inr None"
| "find_field cx ((f, ty) # fs) n offset =
     (if f = n then Inr (Some (ty, offset))
      else bindr (size_of_type cx ty) (\<lambda>sz. find_field cx fs n (offset + sz)))"

definition is_record :: "stab_resolved_type \<Rightarrow> bool" where
  "is_record ty = (case ty of R_RECORD _ \<Rightarrow> True | _ \<Rightarrow> False)"

text \<open>
  The loop over the components. \<open>k\<close> counts the rounds left and \<open>cur\<close> is the list from the node
  \<open>temp\<close> on; the \<open>continue\<close> of the first round skips the macro's \<open>temp = temp->next\<close>.
\<close>

fun path_loop :: "acx \<Rightarrow> reg \<Rightarrow> stab_resolved_type \<Rightarrow> bool \<Rightarrow> nat \<Rightarrow> string list \<Rightarrow> acx result" where
  "path_loop cx r ty first 0 cur = Inr cx"
| "path_loop cx r ty first (Suc k) [] = Inl (Undefined ''null pointer'')"
| "path_loop cx r ty first (Suc k) (n # rest) =
     (if first then path_loop cx r ty False k (n # rest)
      else if \<not> is_record ty \<and> rest \<noteq> [] then
        Inl (Span_Err (''tried to access field `'' @ n @ ''` of non-record type, which can't have fields''))
      else if rest \<noteq> [] then
        bindr (find_field cx (rr_fields ty) n 0) (\<lambda>f. case f of
            None \<Rightarrow> Inl (Span_Err (''could not find field `'' @ n @ ''` in record''))
          | Some (fty, offset) \<Rightarrow>
              bindr (STAB_TYPE (acx_st cx) fty) (\<lambda>t. case st_ty t of
                  R_POINTER p \<Rightarrow> bindr (STAB_TYPE (acx_st cx) p) (\<lambda>pt.
                    path_loop (emit [Op2 ''mov'' (Reg (r_name r)) (Ind (r_name r))] cx) r (st_ty pt) False k rest)
                | _ \<Rightarrow>
                    path_loop (emit [Op2 ''add'' (Reg (r_name r)) (Imm offset)] cx) r (st_ty t) False k rest))
      else path_loop cx r ty False k rest)"

text \<open>The load of a variable's address: from the display for a nonlocal, from the frame otherwise.\<close>

definition load_var :: "acx \<Rightarrow> reg \<Rightarrow> string \<Rightarrow> int \<Rightarrow> acx result" where
  "load_var cx r name idx =
     bindr (stab_has_local_var (acx_st cx) name) (\<lambda>local.
     bindr (STAB_VAR (acx_st cx) idx) (\<lambda>v.
     if \<not> local then
       bindr (if \<not> sv_captured v then
           bindr (stab_var_put (acx_st cx) idx (v\<lparr>sv_captured := True, sv_disp_offset := acx_disp_offset cx\<rparr>))
             (\<lambda>st. Inr (acx_disp_offset cx, cx\<lparr>acx_st := st, acx_disp_offset := acx_disp_offset cx + 1\<rparr>))
         else Inr (sv_disp_offset v, cx)) (\<lambda>(d, cx).
       Inr (emit [Op2 ''mov'' (Reg (r_name r)) (Display (d * ABI_POINTER_ALIGN))] cx))
     else Inr (emit [Op2 ''lea'' (Reg (r_name r)) (RbpOff (sv_stack_base_offset v))] cx)))"

definition type_of_path :: "acx \<Rightarrow> ast_path \<Rightarrow> bool \<Rightarrow> (resu \<times> acx) result" where
  "type_of_path cx p compute_rvalue =
     (if p = [] then Inl (Undefined ''null pointer'') else
      bindr (stab_resolve_var (acx_st cx) (hd p)) (\<lambda>idx.
      bindr (CHKRES ''variable'' (hd p) idx) (\<lambda>idx.
      let (r, cx) = reg_gimme cx in
      bindr (load_var cx r (hd p) idx) (\<lambda>cx.
      bindr (STAB_VAR (acx_st cx) idx) (\<lambda>v.
      bindr (STAB_TYPE (acx_st cx) (sv_type v)) (\<lambda>t.
      bindr (path_loop cx r (st_ty t) True (length p) p) (\<lambda>cx.
      Inr (\<lparr>re_type = sv_type v, re_reg = r\<rparr>,
           if compute_rvalue then emit [Op2 ''mov'' (Reg (r_name r)) (Ind (r_name r))] cx else cx))))))))"

section \<open>Operators\<close>

text \<open>The 8-bit name of a register: its second character and \<open>l\<close>.\<close>

definition low8 :: "string \<Rightarrow> string result" where
  "low8 r = (if length r < 2 then Inl (Undefined ''write outside the string'') else Inr [r ! 1, CHR ''l''])"

definition relop_cc :: "token \<Rightarrow> string" where
  "relop_cc op = (if op = Ch CHR ''='' then ''e'' else if op = T_NEQ then ''ne''
     else if op = Ch CHR ''<'' then ''l'' else if op = Ch CHR ''>'' then ''g''
     else if op = T_LE then ''le'' else ''ge'')"

definition div_code :: "string \<Rightarrow> string \<Rightarrow> string \<Rightarrow> asm list" where
  "div_code l r res =
     [Op1 ''push'' (Reg ''rdx''), Op1 ''push'' (Reg ''rax''), Op2 ''mov'' (Reg ''rax'') (Reg l), Op0 ''cdq'',
      Op1 ''idiv'' (Reg r), Op2 ''mov'' (Reg l) (Reg res), Op1 ''pop'' (Reg ''rax''), Op1 ''pop'' (Reg ''rdx'')]"

text \<open>
  The code of a binary operator on registers \<open>l\<close> and \<open>r\<close>, with the result in \<open>l\<close>. The message for
  an operator that is not supported goes on with the token's number, which bison chooses.
\<close>

definition bin_code :: "token \<Rightarrow> string \<Rightarrow> string \<Rightarrow> asm list result" where
  "bin_code op l r =
     (if is_relop op then
        bindr (low8 r) (\<lambda>b. Inr [Op2 ''cmp'' (Reg l) (Reg r), Op1 (''set'' @ relop_cc op) (Reg b),
          Op2 ''movzx'' (Reg l) (Reg b)])
      else if op = T_AND then Inr [Op2 ''and'' (Reg l) (Reg r)]
      else if op = T_OR then Inr [Op2 ''or'' (Reg l) (Reg r)]
      else if op = T_DIV \<or> op = Ch CHR ''/'' then Inr (div_code l r ''rax'')
      else if op = T_MOD then Inr (div_code l r ''rdx'')
      else if op = Ch CHR ''+'' then Inr [Op2 ''add'' (Reg l) (Reg r)]
      else if op = Ch CHR ''-'' then Inr [Op2 ''sub'' (Reg l) (Reg r)]
      else if op = Ch CHR ''*'' then Inr [Op2 ''imul'' (Reg l) (Reg r)]
      else Inl (Span_Err ''unsupported binary operation token ''))"

section \<open>Calls and expressions\<close>

text \<open>The routine of the runtime that prints or reads a value of a type.\<close>

definition io_routine :: "string \<Rightarrow> int \<Rightarrow> string result" where
  "io_routine prefix ty =
     (if ty = INTEGER_TYPE_IDX then Inr (prefix @ ''_integer@'')
      else if ty = REAL_TYPE_IDX then Inr (prefix @ ''_real@'')
      else if ty = STRING_TYPE_IDX then Inr (prefix @ ''_string@'')
      else if ty = BOOLEAN_TYPE_IDX then Inr (prefix @ ''_bool@'')
      else if ty = CHAR_TYPE_IDX then Inr (prefix @ ''_char@'')
      else if ty = VOID_TYPE_IDX then Inr (prefix @ ''_void@'')
      else Inl (Span_Err ''argument of unprintable type passed to write/ln''))"

definition io_call :: "string \<Rightarrow> string \<Rightarrow> asm list" where
  "io_call r f = [Op1 ''push'' (Reg r), Call f, Op2 ''add'' (Reg ''rsp'') (Imm 8)]"

definition is_lvalue :: "ast_expr \<Rightarrow> bool" where
  "is_lvalue e = (case e of EXPR_IDX _ _ \<Rightarrow> True | EXPR_DEREF _ \<Rightarrow> True | EXPR_PATH _ \<Rightarrow> True | _ \<Rightarrow> False)"

text \<open>
  \<open>e->path\<close> of an expression: the first member of the union, which holds a path for these three.
\<close>

definition expr_path :: "ast_expr \<Rightarrow> ast_path result" where
  "expr_path e = (case e of
       EXPR_PATH p \<Rightarrow> Inr p | EXPR_IDX p _ \<Rightarrow> Inr p | EXPR_APP p _ \<Rightarrow> Inr p
     | _ \<Rightarrow> Inl (Undefined ''wrong member of a union''))"

definition void_resu :: resu where
  "void_resu = \<lparr>re_type = VOID_TYPE_IDX, re_reg = \<lparr>r_name = '''', r_which = 0, r_need_restore = False\<rparr>\<rparr>"

text \<open>What is printed for an argument of the wrong type; the analysis goes on.\<close>

definition arg_mismatch :: "stab \<Rightarrow> int \<Rightarrow> nat \<Rightarrow> int \<Rightarrow> int \<Rightarrow> io list result" where
  "arg_mismatch st pty i want found =
     bindr (stab_print_type st pty 0) (\<lambda>d1.
     bindr (stab_print_type st want INDSZ) (\<lambda>d2.
     bindr (stab_print_type st found INDSZ) (\<lambda>d3.
     Inr (Stderr ''in '' # d1
       @ [Stderr (''type of argument '' @ dec (int i) @ '' doesn't match declaration;'' @ nl),
          Stderr (''expected:'' @ nl), Stdout (spaces INDSZ)] @ d2
       @ [Stderr nl, Stderr (''found:'' @ nl), Stdout (spaces INDSZ)] @ d3))))"

definition func_args :: "stab_type \<Rightarrow> int list result" where
  "func_args t = (case st_ty t of
       R_FUNCTION _ (Some as) _ _ \<Rightarrow> Inr as
     | R_FUNCTION _ None _ _ \<Rightarrow> Inl (Undefined ''null pointer'')
     | _ \<Rightarrow> Inl Abort)"

text \<open>The code of a call, after the arguments: \<open>n\<close> is their number.\<close>

definition call_code :: "nat \<Rightarrow> string \<Rightarrow> string \<Rightarrow> asm list" where
  "call_code n f r =
     [Op1 ''push'' (Reg ''rbp''),
      if n = 0 then Op2 ''sub'' (Reg ''rsp'') (Imm 8) else Verbatim nl,
      Op2 ''mov'' (Reg ''rbp'') (Reg ''rsp''), Call (f @ ''@''),
      Op1 ''pop'' (Reg r), Op1 ''pop'' (Reg ''rbp'')]"

text \<open>The size of an expression, for the termination of its analysis.\<close>

primrec expr_weight :: "ast_expr \<Rightarrow> nat" where
  "expr_weight (EXPR_APP p es) = sum_list (map (\<lambda>e. Suc (expr_weight e)) es) + 4"
| "expr_weight (EXPR_BIN l op r) = expr_weight l + expr_weight r + 1"
| "expr_weight (EXPR_DEREF e) = expr_weight e + 1"
| "expr_weight (EXPR_IDX p e) = expr_weight e + 1"
| "expr_weight (EXPR_LIT s) = 1"
| "expr_weight (EXPR_PATH p) = 1"
| "expr_weight (EXPR_UN op e) = expr_weight e + 1"
| "expr_weight (EXPR_ADDROF e) = expr_weight e + 1"

definition exprs_weight :: "ast_expr list \<Rightarrow> nat" where
  "exprs_weight es = sum_list (map (\<lambda>e. Suc (expr_weight e)) es)"

text \<open>
  The analysis of expressions and calls. \<open>rv\<close> is \<open>compute_rvalue\<close>. \<open>magic_write\<close>, \<open>magic_read\<close> and
  \<open>call_args\<close> are the loops of \<open>analyze_magic\<close> and \<open>analyze_call\<close>; \<open>pty\<close> is the id of the type of
  the called subprogram and \<open>i\<close> the position of the argument.
\<close>

function (sequential)
  analyze_expr :: "acx \<Rightarrow> ast_expr \<Rightarrow> bool \<Rightarrow> (resu \<times> acx) result"
  and analyze_call :: "acx \<Rightarrow> ast_path \<Rightarrow> ast_expr list \<Rightarrow> (resu \<times> acx) result"
  and analyze_magic :: "acx \<Rightarrow> int \<Rightarrow> ast_expr list \<Rightarrow> acx result"
  and magic_write :: "acx \<Rightarrow> ast_expr list \<Rightarrow> acx result"
  and magic_read :: "acx \<Rightarrow> int \<Rightarrow> ast_expr list \<Rightarrow> acx result"
  and call_args :: "acx \<Rightarrow> int \<Rightarrow> nat \<Rightarrow> ast_expr list \<Rightarrow> int list \<Rightarrow> acx result"
where
  "analyze_expr cx (EXPR_APP name args) rv = analyze_call cx name args"
| "analyze_expr cx (EXPR_BIN left op right) rv =
     bindr (analyze_expr cx left True) (\<lambda>(lty, cx).
     bindr (analyze_expr cx right True) (\<lambda>(rty, cx).
     if re_type lty \<noteq> re_type rty then
       bindr (stab_print_type (acx_st cx) (re_type lty) INDSZ) (\<lambda>_.
       bindr (stab_print_type (acx_st cx) (re_type rty) INDSZ) (\<lambda>_.
       Inl (Span_Err ''incompatible types for binary operation'')))
     else
       bindr (bin_code op (r_name (re_reg lty)) (r_name (re_reg rty))) (\<lambda>code.
       Inr (\<lparr>re_type = (if is_relop op then BOOLEAN_TYPE_IDX else re_type lty), re_reg = re_reg lty\<rparr>,
            reg_takeitback (emit code cx) (re_reg rty)))))"
| "analyze_expr cx (EXPR_DEREF e) rv =
     bindr (expr_path e) (\<lambda>p.
     bindr (type_of_path cx p False) (\<lambda>(pathty, cx).
     bindr (STAB_TYPE (acx_st cx) (re_type pathty)) (\<lambda>t. case st_ty t of
         R_POINTER target \<Rightarrow>
           Inr (\<lparr>re_type = target, re_reg = re_reg pathty\<rparr>,
                emit [Op2 ''mov'' (Reg (r_name (re_reg pathty))) (Ind (r_name (re_reg pathty)))] cx)
       | _ \<Rightarrow> Inl (Span_Err ''tried to dereference non-pointer''))))"
| "analyze_expr cx (EXPR_IDX path e) rv =
     bindr (type_of_path cx path False) (\<lambda>(pathty, cx).
     bindr (STAB_TYPE (acx_st cx) (re_type pathty)) (\<lambda>t. case st_ty t of
         R_ARRAY _ _ elt \<Rightarrow>
           bindr (analyze_expr cx e True) (\<lambda>(ety, cx).
           if re_type ety \<noteq> INTEGER_TYPE_IDX then Inl (Span_Err ''tried to index array with non-integer'')
           else Inr (\<lparr>re_type = elt, re_reg = re_reg ety\<rparr>,
             if rv then emit [Op2 ''mov'' (Reg (r_name (re_reg ety))) (Ind (r_name (re_reg ety)))] cx else cx))
       | _ \<Rightarrow> bindr (stab_print_type (acx_st cx) (re_type pathty) 0) (\<lambda>_. Inl (Span_Err ''''))))"
| "analyze_expr cx (EXPR_LIT lit) rv =
     (let (r, cx) = reg_gimme cx in
      Inr (\<lparr>re_type = INTEGER_TYPE_IDX, re_reg = r\<rparr>, emit [Op2 ''mov'' (Reg (r_name r)) (Lit lit)] cx))"
| "analyze_expr cx (EXPR_PATH path) rv = type_of_path cx path rv"
| "analyze_expr cx (EXPR_UN op e) rv =
     bindr (analyze_expr cx e True) (\<lambda>(ety, cx).
     if op = T_NOT \<and> (re_type ety \<noteq> INTEGER_TYPE_IDX \<or> re_type ety \<noteq> REAL_TYPE_IDX) then
       Inl (Span_Err ''tried to apply unary +/- to a non-number'')
     else if re_type ety \<noteq> BOOLEAN_TYPE_IDX then Inl (Span_Err ''tried to boolean-NOT a non-boolean'')
     else Inr (ety, emit [Op1 ''not'' (Reg (r_name (re_reg ety)))] cx))"
| "analyze_expr cx (EXPR_ADDROF e) rv = Inl Abort"
| "analyze_call cx p args =
     (if length p \<noteq> 1 then Inl Abort else
      bindr (stab_resolve_func (acx_st cx) (last p)) (\<lambda>pty.
      bindr (CHKRES ''subprogram'' (last p) pty) (\<lambda>pty.
      bindr (STAB_TYPE (acx_st cx) pty) (\<lambda>pt.
      if st_magic pt \<noteq> 0 then bindr (analyze_magic cx (st_magic pt) args) (\<lambda>cx. Inr (void_resu, cx))
      else
        let cx = save_registers cx in
        bindr (func_args pt) (\<lambda>ids.
        if length args \<noteq> length ids then
          bindr (stab_print_type (acx_st cx) pty 0) (\<lambda>_.
          Inl (Span_Err (''wanted '' @ dec (int (length ids)) @ '', given '' @ dec (int (length args)))))
        else
          bindr (call_args cx pty 0 args ids) (\<lambda>cx.
          let (r, cx) = reg_gimme cx;
              cx = emit (call_code (length args) (last p) (r_name r)) cx in
          Inr (\<lparr>re_type = rf_retty (st_ty pt), re_reg = r\<rparr>, restore_registers_except cx r)))))))"
| "analyze_magic cx which args =
     (if which = MAGIC_WRITELN \<or> which = MAGIC_WRITE then
        bindr (magic_write cx args) (\<lambda>cx.
        Inr (if which = MAGIC_WRITELN then emit [Call ''write_newline@''] cx else cx))
      else if which = MAGIC_READ \<or> which = MAGIC_READLN then magic_read cx which args
      else Inl Abort)"
| "magic_write cx [] = Inr cx"
| "magic_write cx (e # es) =
     bindr (analyze_expr cx e True) (\<lambda>(r, cx).
     bindr (io_routine ''write'' (re_type r)) (\<lambda>callit.
     magic_write (reg_takeitback (emit (io_call (r_name (re_reg r)) callit) cx) (re_reg r)) es))"
| "magic_read cx which [] = Inr cx"
| "magic_read cx which (e # es) =
     (if \<not> is_lvalue e then Inl (Span_Err ''but read/ln must be called with lvalues'') else
      bindr (analyze_expr cx e False) (\<lambda>(r, cx).
      bindr (io_routine ''read'' (re_type r)) (\<lambda>callit.
      magic_read (reg_takeitback (emit (io_call (r_name (re_reg r)) callit
          @ (if which = MAGIC_READLN then [Call ''read_newline@''] else [])) cx) (re_reg r)) which es)))"
| "call_args cx pty i (e # es) (ft # fts) =
     bindr (analyze_expr cx e True) (\<lambda>(et, cx).
     bindr (STAB_VAR (acx_st cx) ft) (\<lambda>v.
     bindr (stab_types_eq (acx_st cx) (re_type et) (sv_type v)) (\<lambda>same.
     bindr (if same then Inr [] else arg_mismatch (acx_st cx) pty i (sv_type v) (re_type et)) (\<lambda>msg.
     call_args (emit [Op1 ''push'' (Reg (r_name (re_reg et)))] (diag msg cx)) pty (Suc i) es fts))))"
| "call_args cx pty i [] fts = Inr cx"
| "call_args cx pty i (e # es) [] = Inr cx"
  by pat_completeness auto

termination
  by (relation "measure (\<lambda>x. case x of
        Inl (Inl (_, e, _)) \<Rightarrow> expr_weight e
      | Inl (Inr (Inl (_, _, es))) \<Rightarrow> exprs_weight es + 2
      | Inl (Inr (Inr (_, _, es))) \<Rightarrow> exprs_weight es + 1
      | Inr (Inl (_, es)) \<Rightarrow> exprs_weight es
      | Inr (Inr (Inl (_, _, es))) \<Rightarrow> exprs_weight es
      | Inr (Inr (Inr (_, _, _, es, _))) \<Rightarrow> exprs_weight es)") (auto simp: exprs_weight_def)

section \<open>Statements\<close>

text \<open>
  What \<open>check_assignability\<close> does after its switch: \<open>n\<close> is the first component of \<open>e->path\<close>. Its
  result is not used by the caller.
\<close>

definition check_root :: "acx \<Rightarrow> string \<Rightarrow> acx result" where
  "check_root cx n =
     bindr (if acx_func_type cx = SUB_FUNCTION then
         bindr (stab_has_local_var (acx_st cx) n) (\<lambda>b.
         if \<not> b then Inl (Span_Err ''assigned to non-local in function'') else Inr ())
       else Inr ()) (\<lambda>_.
     Inr (if acx_func_name cx = n then cx\<lparr>acx_ret_assigned := True\<rparr> else cx))"

definition path_head :: "ast_path \<Rightarrow> string result" where
  "path_head p = (if p = [] then Inl (Undefined ''null pointer'') else Inr (hd p))"

text \<open>
  After the switch the code reads \<open>e->path\<close> whatever the tag. That is the path of a path and, by the
  layout of the union, of an indexed array, for which the recursive call has checked it before; for
  a dereference it is the pointer to the operand taken for a path.
\<close>

fun check_assignability :: "acx \<Rightarrow> ast_expr \<Rightarrow> acx result" where
  "check_assignability cx e =
     (if acx_toplevel cx then Inr cx else
      case e of
        EXPR_PATH p \<Rightarrow> bindr (path_head p) (check_root cx)
      | EXPR_IDX p _ \<Rightarrow> bindr (check_assignability cx (EXPR_PATH p)) (\<lambda>cx. bindr (path_head p) (check_root cx))
      | EXPR_DEREF d \<Rightarrow> bindr (check_assignability cx d) (\<lambda>_. Inl (Undefined ''wrong member of a union''))
      | _ \<Rightarrow> Inl Abort)"

definition fresh_labels :: "acx \<Rightarrow> int \<times> int \<times> acx" where
  "fresh_labels cx = (acx_label cx, acx_label cx + 1, cx\<lparr>acx_label := acx_label cx + 2\<rparr>)"

definition enter :: "acx \<Rightarrow> acx result" where
  "enter cx = bindr (stab_enter (acx_st cx)) (\<lambda>st. Inr (set_st st cx))"

definition leave :: "acx \<Rightarrow> acx result" where
  "leave cx = bindr (stab_leave (acx_st cx)) (\<lambda>st. Inr (set_st st cx))"

text \<open>\<open>analyze_stmt\<close>; \<open>None\<close> is the null statement. \<open>analyze_stmts\<close> is the loop over a sequence.\<close>

fun analyze_stmt :: "acx \<Rightarrow> ast_stmt option \<Rightarrow> acx result"
  and analyze_stmts :: "acx \<Rightarrow> ast_stmt option list \<Rightarrow> acx result" where
  "analyze_stmt cx None = Inr cx"
| "analyze_stmt cx (Some (STMT_ASSIGN lvalue rvalue)) =
     bindr (analyze_expr cx lvalue False) (\<lambda>(lty, cx).
     bindr (check_assignability cx lvalue) (\<lambda>cx.
     bindr (analyze_expr cx rvalue True) (\<lambda>(rty, cx).
     bindr (stab_types_eq (acx_st cx) (re_type rty) (re_type lty)) (\<lambda>same.
     if \<not> same then Inl (Span_Err ''cannot assign incompatible type'')
     else
       let cx = emit [Op2 ''mov'' (Ind (r_name (re_reg lty))) (Reg (r_name (re_reg rty)))] cx;
           cx = reg_takeitback cx (re_reg rty) in
       Inr (reg_takeitback cx (re_reg lty))))))"
| "analyze_stmt cx (Some (STMT_FOR i start stop body)) =
     bindr (analyze_expr cx start True) (\<lambda>(sty, cx).
     bindr (analyze_expr cx stop True) (\<lambda>(ety, cx).
     if re_type sty \<noteq> INTEGER_TYPE_IDX then Inl (Span_Err ''type of start not integer'')
     else if re_type ety \<noteq> INTEGER_TYPE_IDX then Inl (Span_Err ''type of end not integer'')
     else
     bindr (type_of_path cx (ast_path_new i) False) (\<lambda>(ity, cx).
     if re_type ity \<noteq> INTEGER_TYPE_IDX then Inl (Span_Err ''type of induction variable not integer'')
     else
     bindr (enter cx) (\<lambda>cx.
     let s = r_name (re_reg sty);
         e = r_name (re_reg ety);
         cx = emit [Op1 ''push'' (Reg s)] cx;
         (l0, l1, cx) = fresh_labels cx;
         cx = emit [Label l0, Op2 ''cmp'' (Reg s) (Reg e), Jump ''je'' l1] cx in
     bindr (analyze_stmt cx body) (\<lambda>cx.
     let cx = emit [Op1 ''inc'' (Reg s), Op2 ''mov'' (Ind ''rsp'') (Reg s), Jump ''jmp'' l0, Label l1] cx;
         cx = reg_takeitback cx (re_reg ety);
         cx = reg_takeitback cx (re_reg sty) in
     leave cx)))))"
| "analyze_stmt cx (Some (STMT_ITE c th el)) =
     bindr (analyze_expr cx c True) (\<lambda>(cty, cx).
     if re_type cty \<noteq> BOOLEAN_TYPE_IDX then Inl (Span_Err ''type of if condition not boolean'')
     else
     let (l0, l1, cx) = fresh_labels cx;
         cx = emit [Op2 ''cmp'' (Reg (r_name (re_reg cty))) (Imm 1), Jump ''jne'' l0] cx;
         cx = reg_takeitback cx (re_reg cty) in
     bindr (analyze_stmt cx th) (\<lambda>cx.
     let cx = emit [Jump ''jmp'' l1, Label l0] cx in
     bindr (analyze_stmt cx el) (\<lambda>cx.
     Inr (emit [Label l1] cx))))"
| "analyze_stmt cx (Some (STMT_PROC name args)) =
     bindr (analyze_call cx name args) (\<lambda>(cty, cx). Inr (reg_takeitback cx (re_reg cty)))"
| "analyze_stmt cx (Some (STMT_STMTS ss)) = analyze_stmts cx ss"
| "analyze_stmt cx (Some (STMT_WDO c body)) =
     (let (l0, l1, cx) = fresh_labels cx;
          cx = emit [Label l0] cx in
     bindr (analyze_expr cx c True) (\<lambda>(cty, cx).
     if re_type cty \<noteq> BOOLEAN_TYPE_IDX then Inl (Span_Err ''type of while condition not boolean'')
     else
     let cx = emit [Op2 ''cmp'' (Reg (r_name (re_reg cty))) (Imm 1), Jump ''jne'' l1] cx;
         cx = reg_takeitback cx (re_reg cty) in
     bindr (analyze_stmt cx body) (\<lambda>cx.
     Inr (emit [Jump ''jmp'' l0, Label l1] cx))))"
| "analyze_stmts cx [] = Inr cx"
| "analyze_stmts cx (s # ss) = bindr (analyze_stmt cx s) (\<lambda>cx. analyze_stmts cx ss)"

section \<open>Subprograms\<close>

fun add_types :: "acx \<Rightarrow> ast_type_decl list \<Rightarrow> acx result" where
  "add_types cx [] = Inr cx"
| "add_types cx (t # ts) =
     bindr (stab_add_type (acx_st cx) (td_name t) (td_type t)) (\<lambda>st. add_types (set_st st cx) ts)"

fun add_decls :: "acx \<Rightarrow> ast_decls list \<Rightarrow> int \<Rightarrow> bool \<Rightarrow> (int \<times> acx) result" where
  "add_decls cx [] off arguments = Inr (off, cx)"
| "add_decls cx (d # ds) off arguments =
     bindr (stab_add_decls (acx_st cx) d (Some off) arguments) (\<lambda>(off', st).
     add_decls (set_st st cx) ds (case off' of None \<Rightarrow> off | Some o' \<Rightarrow> o') arguments)"

text \<open>The display slot of a variable.\<close>

definition slot :: "stab_var \<Rightarrow> opnd" where
  "slot v = Display (sv_disp_offset v * ABI_POINTER_SIZE)"

text \<open>
  The loops over the captured variables of the innermost scope. \<open>save_display\<close> gives the ids pushed
  on the vector \<open>captured\<close>, in order; \<open>restore_display\<close> takes the ids in the order they are popped.
\<close>

fun save_display :: "acx \<Rightarrow> (string \<times> int) list \<Rightarrow> (int list \<times> acx) result" where
  "save_display cx [] = Inr ([], cx)"
| "save_display cx ((n, i) # es) =
     bindr (STAB_VAR (acx_st cx) i) (\<lambda>v.
     if sv_captured v then
       bindr (save_display (emit [PushRaw (slot v), Op2 ''mov'' (slot v) (RbpSum (sv_stack_base_offset v))] cx) es)
         (\<lambda>(captured, cx). Inr (i # captured, cx))
     else save_display cx es)"

fun restore_display :: "acx \<Rightarrow> string \<Rightarrow> int list \<Rightarrow> acx result" where
  "restore_display cx r [] = Inr cx"
| "restore_display cx r (i # captured) =
     bindr (STAB_VAR (acx_st cx) i) (\<lambda>v.
     restore_display (emit [Op1 ''pop'' (Reg r), Op2 ''mov'' (slot v) (Reg r)] cx) r captured)"

text \<open>The type of a subprogram, its formal arguments and its result type: \<open>s->head->func\<close>.\<close>

definition head_func :: "ast_type \<Rightarrow> (subprogs \<times> ast_decls list \<times> ast_type option) result" where
  "head_func h = (case h of
       TYPE_FUNCTION k args retty \<Rightarrow> Inr (k, args, retty)
     | _ \<Rightarrow> Inl (Undefined ''wrong member of a union''))"

text \<open>The start of a subprogram: fresh registers and labels, its entry point and its scope.\<close>

definition subprog_enter :: "acx \<Rightarrow> string \<Rightarrow> subprogs \<Rightarrow> acx result" where
  "subprog_enter cx name k =
     enter (emit [Entry name]
       (cx\<lparr>acx_rs := reg_init, acx_func_name := name, acx_ret_assigned := False, acx_func_type := k,
           acx_label := 0\<rparr>))"

text \<open>
  The declarations of a subprogram up to its return slot, a variable with the subprogram's name
  (of type void for a procedure). Gives the id of the slot and the size of the frame.
\<close>

definition subprog_decls ::
  "acx \<Rightarrow> string \<Rightarrow> ast_type_decl list \<Rightarrow> ast_decls list \<Rightarrow> ast_decls list \<Rightarrow> ast_type option \<Rightarrow>
   (int \<times> int \<times> acx) result" where
  "subprog_decls cx name tys args locals retty =
     bindr (add_types cx tys) (\<lambda>cx.
     bindr (add_decls cx args (8 * (int (length args) + 1)) False) (\<lambda>(_, cx).
     bindr (add_decls cx locals 0 True) (\<lambda>(off, cx).
     bindr (stab_resolve_type (acx_st cx) ''<retslot>'' retty) (\<lambda>(r, st).
     bindr (stab_add_var st name r (Some off) True) (\<lambda>(retslot, off', st).
     Inr (retslot, (case off' of None \<Rightarrow> off | Some o' \<Rightarrow> o'), set_st st cx))))))"

text \<open>The frame and the display, before the body.\<close>

definition subprog_prologue :: "acx \<Rightarrow> int \<Rightarrow> (int list \<times> acx) result" where
  "subprog_prologue cx off =
     (let cx = emit [Op2 ''sub'' (Reg ''rsp'') (Imm (off - ABI_POINTER_SIZE))] cx in
      bindr (top_scope (acx_st cx)) (\<lambda>(_, sc).
      save_display cx (hforeach (sc_vars sc))))"

text \<open>The result of a function goes from its slot to the word the caller pops.\<close>

definition copy_result :: "acx \<Rightarrow> int \<Rightarrow> acx result" where
  "copy_result cx retslot =
     (if acx_func_type cx = SUB_FUNCTION then
        let (r, cx) = reg_gimme cx in
        bindr (STAB_VAR (acx_st cx) retslot) (\<lambda>v.
        Inr (reg_takeitback
          (emit [Op2 ''mov'' (Reg (r_name r)) (RbpOffSp (sv_stack_base_offset v)),
                 Op2 ''mov'' (Ind ''rbp'') (Reg (r_name r))] cx) r))
      else Inr cx)"

text \<open>
  After the body. The loop that restores the display runs from the last captured variable down to
  the one of index 1.
\<close>

definition subprog_epilogue :: "acx \<Rightarrow> int \<Rightarrow> int \<Rightarrow> int list \<Rightarrow> acx result" where
  "subprog_epilogue cx retslot off captured =
     (if \<not> acx_ret_assigned cx \<and> acx_func_type cx = SUB_FUNCTION then
        Inl (Span_Err (''return value of '' @ acx_func_name cx @ '' not assigned''))
      else
      let (r, cx) = reg_gimme cx in
      bindr (restore_display cx (r_name r) (rev (tl captured))) (\<lambda>cx.
      bindr (copy_result (reg_takeitback cx r) retslot) (\<lambda>cx.
      leave (emit [Op2 ''add'' (Reg ''rsp'') (Imm (off - ABI_POINTER_SIZE)), Op0 ''ret''] cx))))"

text \<open>The fields of the context that belong to the enclosing subprogram are put back.\<close>

definition subprog_restore :: "acx \<Rightarrow> acx \<Rightarrow> acx" where
  "subprog_restore old cx =
     cx\<lparr>acx_func_name := acx_func_name old, acx_label := acx_label old,
        acx_ret_assigned := acx_ret_assigned old, acx_func_type := acx_func_type old, acx_rs := acx_rs old\<rparr>"

text \<open>\<open>analyze_subprog\<close>, and the loop over the subprograms of a block.\<close>

fun analyze_subprog :: "acx \<Rightarrow> ast_subdecl \<Rightarrow> acx result"
  and analyze_subprogs :: "acx \<Rightarrow> ast_subdecl list \<Rightarrow> acx result" where
  "analyze_subprog old (Subdecl head name locals subprogs tys body) =
     bindr (head_func head) (\<lambda>(k, args, retty).
     bindr (subprog_enter old name k) (\<lambda>cx.
     bindr (subprog_decls cx name tys args locals retty) (\<lambda>(retslot, off, cx).
     bindr (analyze_subprogs cx subprogs) (\<lambda>cx.
     bindr (subprog_prologue cx off) (\<lambda>(captured, cx).
     bindr (analyze_stmt cx body) (\<lambda>cx.
     bindr (subprog_epilogue cx retslot off captured) (\<lambda>cx.
     Inr (subprog_restore old cx))))))))"
| "analyze_subprogs cx [] = Inr cx"
| "analyze_subprogs cx (d # ds) =
     bindr (stab_add_func (acx_st cx) (sd_name d) (sd_head d)) (\<lambda>st.
     bindr (analyze_subprog (set_st st cx) d) (\<lambda>cx.
     analyze_subprogs cx ds))"

section \<open>Programs\<close>

definition output_header :: string where
  "output_header =
     ''; vim: ft=nasm'' @ nl @ ''extern write_integer@'' @ nl @ ''extern write_newline@'' @ nl
     @ ''SECTION .bss'' @ nl @ ''display@: db '' @ dec (0 + 1 * ABI_POINTER_ALIGN) @ nl
     @ ''SECTION .text'' @ nl"

definition initial_acx :: "stab \<Rightarrow> acx" where
  "initial_acx st =
     \<lparr>acx_rs = reg_init, acx_st = st, acx_disp_offset = 0, acx_ofd = [Verbatim output_header],
      acx_diag = [], acx_toplevel = False, acx_func_type = SUB_PROCEDURE, acx_ret_assigned = False,
      acx_func_name = ''@~unassignable~@'', acx_label = 0\<rparr>"

text \<open>The display slots of the captured global variables.\<close>

fun init_display :: "acx \<Rightarrow> (string \<times> int) list \<Rightarrow> acx result" where
  "init_display cx [] = Inr cx"
| "init_display cx ((n, i) # es) =
     bindr (STAB_VAR (acx_st cx) i) (\<lambda>v.
     if sv_captured v then
       let (r, cx) = reg_gimme cx;
           cx = emit [Op2 ''lea'' (Reg (r_name r)) (RbpOff (sv_stack_base_offset v)),
                      Op2 ''mov'' (slot v) (Reg (r_name r))] cx in
       init_display (reg_takeitback cx r) es
     else init_display cx es)"

definition analyze_globals :: "acx \<Rightarrow> ast_program \<Rightarrow> (int \<times> acx) result" where
  "analyze_globals cx prog =
     bindr (enter cx) (\<lambda>cx.
     bindr (do_imports cx (p_args prog)) (\<lambda>cx.
     bindr (add_types cx (p_types prog)) (\<lambda>cx.
     add_decls cx (p_decls prog) 0 True)))"

definition analyze_main :: "acx \<Rightarrow> int \<Rightarrow> ast_stmt option \<Rightarrow> acx result" where
  "analyze_main cx off body =
     (let cx = emit [Verbatim (''global main'' @ nl @ ''main:'' @ nl @ ''mov rbp, rsp'' @ nl),
                     Verbatim ('';'' @ nl), Op2 ''sub'' (Reg ''rsp'') (Imm off)] cx in
      bindr (top_scope (acx_st cx)) (\<lambda>(_, sc).
      bindr (init_display cx (hforeach (sc_vars sc))) (\<lambda>cx.
      bindr (analyze_stmt (cx\<lparr>acx_toplevel := True\<rparr>) body) (\<lambda>cx.
      Inr (emit [Verbatim (''; and we're done!'' @ nl), Op2 ''mov'' (Reg ''rax'') (Imm 60),
                 Op2 ''xor'' (Reg ''rdi'') (Reg ''rdi''), Op0 ''syscall''] cx)))))"

definition analyze :: "ast_program \<Rightarrow> acx result" where
  "analyze prog =
     bindr stab_new (\<lambda>st.
     bindr (analyze_globals (initial_acx st) prog) (\<lambda>(off, cx).
     bindr (analyze_subprogs cx (p_subprogs prog)) (\<lambda>cx.
     analyze_main cx off (p_body prog))))"

end
