(* ===== verification/Frames.thy ===== *)
theory Frames
  imports Analysis SymbolProps
begin

text \<open>
  What the analysis leaves alone. The locale \<open>expr_frame\<close> is the interface between the analysis and
  a relation \<open>R\<close> of a context before and after: if the primitive steps (output, registers, the load of
  a variable) keep to \<open>R\<close>, the analysis of expressions, calls and arguments does; \<open>stmt_frame\<close> adds
  what statements do. The interpretations give the facts the later theories use: code is only ever
  appended, the fields of the enclosing function stay, the symbol table changes in nothing but
  capture marks (\<open>quiet\<close>) and stays well formed.
\<close>

section \<open>Output\<close>

lemma emit_emit [simp]: "emit b (emit a cx) = emit (a @ b) cx"
  by (simp add: emit_def)

lemma emit_Nil [simp]: "emit [] cx = cx"
  by (simp add: emit_def)

lemma emit_fields [simp]:
  "acx_rs (emit code cx) = acx_rs cx" "acx_st (emit code cx) = acx_st cx"
  "acx_disp_offset (emit code cx) = acx_disp_offset cx" "acx_ofd (emit code cx) = acx_ofd cx @ code"
  "acx_diag (emit code cx) = acx_diag cx" "acx_toplevel (emit code cx) = acx_toplevel cx"
  "acx_func_type (emit code cx) = acx_func_type cx" "acx_ret_assigned (emit code cx) = acx_ret_assigned cx"
  "acx_func_name (emit code cx) = acx_func_name cx" "acx_label (emit code cx) = acx_label cx"
  by (simp_all add: emit_def)

lemma diag_fields [simp]:
  "acx_rs (diag es cx) = acx_rs cx" "acx_st (diag es cx) = acx_st cx"
  "acx_disp_offset (diag es cx) = acx_disp_offset cx" "acx_ofd (diag es cx) = acx_ofd cx"
  "acx_toplevel (diag es cx) = acx_toplevel cx"
  "acx_func_type (diag es cx) = acx_func_type cx" "acx_ret_assigned (diag es cx) = acx_ret_assigned cx"
  "acx_func_name (diag es cx) = acx_func_name cx" "acx_label (diag es cx) = acx_label cx"
  by (simp_all add: diag_def)

text \<open>
  The instructions of an expression are \<open>plain\<close>: no label, no jump, no entry point, and none of the
  pushes of the display.
\<close>

definition plain :: "asm \<Rightarrow> bool" where
  "plain i = (case i of Label _ \<Rightarrow> False | Jump _ _ \<Rightarrow> False | Entry _ \<Rightarrow> False | PushRaw _ \<Rightarrow> False | _ \<Rightarrow> True)"

lemma plain_simps [simp]:
  "plain (Op0 m)" "plain (Op1 m a)" "plain (Op2 m a b)" "plain (Call f)" "plain (Verbatim v)"
  "\<not> plain (Label l)" "\<not> plain (Jump m l)" "\<not> plain (Entry f)" "\<not> plain (PushRaw a)"
  by (simp_all add: plain_def)

lemma plain_codes:
  "list_all plain []" "list_all plain [Op1 m a]" "list_all plain [Op2 m a b]"
  "list_all plain (if w then [Op2 m a b] else [])" "list_all plain (if w then [Call f] else [])"
  "list_all plain (io_call r f)" "list_all plain (io_call r f @ (if w then [Call g] else []))"
  "list_all plain (call_code n f r)"
  "list_all plain (map (\<lambda>i. Op1 m (Reg (h i))) is)"
  by (simp_all add: io_call_def call_code_def list_all_iff)

lemma bin_code_plain: "bin_code op l r = Inr code \<Longrightarrow> list_all plain code"
  by (auto simp: bin_code_def div_code_def low8_def split: if_splits)

text \<open>The loop over a path prints plain instructions and changes nothing else.\<close>

definition emitted :: "acx \<Rightarrow> acx \<Rightarrow> bool" where
  "emitted cx cx' \<longleftrightarrow> (\<exists>code. list_all plain code \<and> cx' = emit code cx)"

lemma emitted_refl: "emitted cx cx"
  unfolding emitted_def by (rule exI [where x = "[]"]) simp

lemma emitted_emit:
  assumes "emitted (emit code cx) cx'" and "list_all plain code"
  shows "emitted cx cx'"
proof -
  from assms(1) obtain code2 where "list_all plain code2" "cx' = emit code2 (emit code cx)"
    unfolding emitted_def by blast
  with assms(2) show ?thesis unfolding emitted_def by (intro exI [of _ "code @ code2"]) simp
qed

lemmas emitted_op2 = emitted_emit [OF _ plain_codes(3)]

lemma path_loop_emits: "path_loop cx r ty first k cur = Inr cx' \<Longrightarrow> emitted cx cx'"
proof (induction k arbitrary: cx ty first cur)
  case 0
  then show ?case by (simp add: emitted_refl)
next
  case (Suc k)
  then show ?case
    by (cases cur) (auto split: if_splits option.splits stab_resolved_type.splits
        dest!: Suc.IH emitted_op2)
qed

section \<open>Inversion\<close>

text \<open>What a successful analysis went through, one rule per form. The later theories start from these.\<close>

lemma type_of_pathE:
  assumes "type_of_path cx p rv = Inr (res, cx')"
  obtains i r cx1 cx2 v t cx3 where "p \<noteq> []" "stab_resolve_var (acx_st cx) (hd p) = Inr i" "i \<noteq> -1"
    "reg_gimme cx = (r, cx1)" "load_var cx1 r (hd p) i = Inr cx2" "STAB_VAR (acx_st cx2) i = Inr v"
    "STAB_TYPE (acx_st cx2) (sv_type v) = Inr t"
    "path_loop cx2 r (st_ty t) True (length p) p = Inr cx3"
    "res = \<lparr>re_type = sv_type v, re_reg = r\<rparr>"
    "cx' = emit (if rv then [Op2 ''mov'' (Reg (r_name r)) (Ind (r_name r))] else []) cx3"
  using assms by (auto simp: type_of_path_def CHKRES_def split: if_splits prod.splits)

lemma analyze_binE:
  assumes "analyze_expr cx (EXPR_BIN left op right) rv = Inr (res, cx')"
  obtains lty cx1 rty cx2 code where "analyze_expr cx left True = Inr (lty, cx1)"
    "analyze_expr cx1 right True = Inr (rty, cx2)" "re_type lty = re_type rty"
    "bin_code op (r_name (re_reg lty)) (r_name (re_reg rty)) = Inr code"
    "res = \<lparr>re_type = (if is_relop op then BOOLEAN_TYPE_IDX else re_type lty), re_reg = re_reg lty\<rparr>"
    "cx' = reg_takeitback (emit code cx2) (re_reg rty)"
  using assms by (auto split: if_splits)

lemma analyze_derefE:
  assumes "analyze_expr cx (EXPR_DEREF e) rv = Inr (res, cx')"
  obtains p pathty cx1 t where "expr_path e = Inr p" "type_of_path cx p False = Inr (pathty, cx1)"
    "STAB_TYPE (acx_st cx1) (re_type pathty) = Inr t" "st_ty t = R_POINTER (re_type res)"
    "re_reg res = re_reg pathty"
    "cx' = emit [Op2 ''mov'' (Reg (r_name (re_reg pathty))) (Ind (r_name (re_reg pathty)))] cx1"
  using assms by (auto split: stab_resolved_type.splits)

lemma analyze_idxE:
  assumes "analyze_expr cx (EXPR_IDX p e) rv = Inr (res, cx')"
  obtains pathty cx1 t lo up elt ety cx2 where "type_of_path cx p False = Inr (pathty, cx1)"
    "STAB_TYPE (acx_st cx1) (re_type pathty) = Inr t" "st_ty t = R_ARRAY lo up elt"
    "analyze_expr cx1 e True = Inr (ety, cx2)" "re_type ety = INTEGER_TYPE_IDX"
    "res = \<lparr>re_type = elt, re_reg = re_reg ety\<rparr>"
    "cx' = emit (if rv then [Op2 ''mov'' (Reg (r_name (re_reg ety))) (Ind (r_name (re_reg ety)))] else []) cx2"
  using assms by (auto split: stab_resolved_type.splits if_splits)

lemma analyze_unE:
  assumes "analyze_expr cx (EXPR_UN op e) rv = Inr (res, cx')"
  obtains cx1 where "analyze_expr cx e True = Inr (res, cx1)" "op \<noteq> T_NOT" "re_type res = BOOLEAN_TYPE_IDX"
    "cx' = emit [Op1 ''not'' (Reg (r_name (re_reg res)))] cx1"
  using assms by (auto simp: idx_defs split: if_splits)

lemma analyze_litE:
  assumes "analyze_expr cx (EXPR_LIT lit) rv = Inr (res, cx')"
  obtains r cx1 where "reg_gimme cx = (r, cx1)" "res = \<lparr>re_type = INTEGER_TYPE_IDX, re_reg = r\<rparr>"
    "cx' = emit [Op2 ''mov'' (Reg (r_name r)) (Lit lit)] cx1"
  using assms by (auto split: prod.splits)

lemma analyze_callE:
  assumes "analyze_call cx p args = Inr (res, cx')"
  obtains (magic) pty pt where "length p = 1" "stab_resolve_func (acx_st cx) (last p) = Inr pty"
      "pty \<noteq> -1" "STAB_TYPE (acx_st cx) pty = Inr pt" "st_magic pt \<noteq> 0"
      "analyze_magic cx (st_magic pt) args = Inr cx'" "res = void_resu"
    | (call) pty pt ids cx1 r cx2 where "length p = 1" "stab_resolve_func (acx_st cx) (last p) = Inr pty"
      "pty \<noteq> -1" "STAB_TYPE (acx_st cx) pty = Inr pt" "st_magic pt = 0" "func_args pt = Inr ids"
      "length args = length ids" "call_args (save_registers cx) pty 0 args ids = Inr cx1"
      "reg_gimme cx1 = (r, cx2)" "res = \<lparr>re_type = rf_retty (st_ty pt), re_reg = r\<rparr>"
      "cx' = restore_registers_except (emit (call_code (length args) (last p) (r_name r)) cx2) r"
  using assms by (auto simp: CHKRES_def Let_def split: if_splits prod.splits)

lemma magic_writeE:
  assumes "magic_write cx (e # es) = Inr cx'"
  obtains r cx1 f where "analyze_expr cx e True = Inr (r, cx1)" "io_routine ''write'' (re_type r) = Inr f"
    "magic_write (reg_takeitback (emit (io_call (r_name (re_reg r)) f) cx1) (re_reg r)) es = Inr cx'"
  using assms by auto

lemma magic_readE:
  assumes "magic_read cx which (e # es) = Inr cx'"
  obtains r cx1 f where "is_lvalue e" "analyze_expr cx e False = Inr (r, cx1)"
    "io_routine ''read'' (re_type r) = Inr f"
    "magic_read (reg_takeitback (emit (io_call (r_name (re_reg r)) f
        @ (if which = MAGIC_READLN then [Call ''read_newline@''] else [])) cx1) (re_reg r)) which es = Inr cx'"
  using assms by (auto split: if_splits)

lemma call_argsE:
  assumes "call_args cx pty i (e # es) (ft # fts) = Inr cx'"
  obtains et cx1 v same msg where "analyze_expr cx e True = Inr (et, cx1)" "STAB_VAR (acx_st cx1) ft = Inr v"
    "stab_types_eq (acx_st cx1) (re_type et) (sv_type v) = Inr same"
    "(if same then Inr [] else arg_mismatch (acx_st cx1) pty i (sv_type v) (re_type et)) = Inr msg"
    "call_args (emit [Op1 ''push'' (Reg (r_name (re_reg et)))] (diag msg cx1)) pty (Suc i) es fts = Inr cx'"
  using assms by auto

lemma analyze_magicE:
  assumes "analyze_magic cx which args = Inr cx'"
  obtains (writes) cx1 where "which = MAGIC_WRITELN \<or> which = MAGIC_WRITE" "magic_write cx args = Inr cx1"
      "cx' = emit (if which = MAGIC_WRITELN then [Call ''write_newline@''] else []) cx1"
    | (reads) "which = MAGIC_READ \<or> which = MAGIC_READLN" "magic_read cx which args = Inr cx'"
  using assms by (auto split: if_splits)

lemma assignE:
  assumes "analyze_stmt cx (Some (STMT_ASSIGN l e)) = Inr cx'"
  obtains lty cx1 cx2 rty cx3 where "analyze_expr cx l False = Inr (lty, cx1)"
    "check_assignability cx1 l = Inr cx2" "analyze_expr cx2 e True = Inr (rty, cx3)"
    "stab_types_eq (acx_st cx3) (re_type rty) (re_type lty) = Inr True"
    "cx' = reg_takeitback (reg_takeitback
        (emit [Op2 ''mov'' (Ind (r_name (re_reg lty))) (Reg (r_name (re_reg rty)))] cx3) (re_reg rty)) (re_reg lty)"
  using assms by (auto simp: Let_def simp del: check_assignability.simps split: if_splits)

lemma forE:
  assumes "analyze_stmt cx (Some (STMT_FOR i start stop body)) = Inr cx'"
  obtains sty cx1 ety cx2 ity cx3 cx4 cx5 where "analyze_expr cx start True = Inr (sty, cx1)"
    "analyze_expr cx1 stop True = Inr (ety, cx2)"
    "re_type sty = INTEGER_TYPE_IDX" "re_type ety = INTEGER_TYPE_IDX"
    "type_of_path cx2 [i] False = Inr (ity, cx3)" "re_type ity = INTEGER_TYPE_IDX"
    "enter cx3 = Inr cx4"
    "analyze_stmt (emit [Op1 ''push'' (Reg (r_name (re_reg sty))), Label (acx_label cx4),
        Op2 ''cmp'' (Reg (r_name (re_reg sty))) (Reg (r_name (re_reg ety))), Jump ''je'' (acx_label cx4 + 1)]
        (cx4\<lparr>acx_label := acx_label cx4 + 2\<rparr>)) body = Inr cx5"
    "leave (reg_takeitback (reg_takeitback (emit [Op1 ''inc'' (Reg (r_name (re_reg sty))),
        Op2 ''mov'' (Ind ''rsp'') (Reg (r_name (re_reg sty))), Jump ''jmp'' (acx_label cx4),
        Label (acx_label cx4 + 1)] cx5) (re_reg ety)) (re_reg sty)) = Inr cx'"
  using assms
  by (auto simp: Let_def fresh_labels_def ast_path_new_def emit_def simp del: ast_stmt.simps split: if_splits)

lemma iteE:
  assumes "analyze_stmt cx (Some (STMT_ITE c th el)) = Inr cx'"
  obtains cty cx1 cx2 cx3 where "analyze_expr cx c True = Inr (cty, cx1)" "re_type cty = BOOLEAN_TYPE_IDX"
    "analyze_stmt (reg_takeitback (emit [Op2 ''cmp'' (Reg (r_name (re_reg cty))) (Imm 1),
        Jump ''jne'' (acx_label cx1)] (cx1\<lparr>acx_label := acx_label cx1 + 2\<rparr>)) (re_reg cty)) th = Inr cx2"
    "analyze_stmt (emit [Jump ''jmp'' (acx_label cx1 + 1), Label (acx_label cx1)] cx2) el = Inr cx3"
    "cx' = emit [Label (acx_label cx1 + 1)] cx3"
  using assms by (auto simp: Let_def fresh_labels_def split: if_splits)

lemma procE:
  assumes "analyze_stmt cx (Some (STMT_PROC p args)) = Inr cx'"
  obtains cty cx1 where "analyze_call cx p args = Inr (cty, cx1)" "cx' = reg_takeitback cx1 (re_reg cty)"
  using assms by auto

lemma wdoE:
  assumes "analyze_stmt cx (Some (STMT_WDO c body)) = Inr cx'"
  obtains cty cx1 cx2 where
    "analyze_expr (emit [Label (acx_label cx)] (cx\<lparr>acx_label := acx_label cx + 2\<rparr>)) c True = Inr (cty, cx1)"
    "re_type cty = BOOLEAN_TYPE_IDX"
    "analyze_stmt (reg_takeitback (emit [Op2 ''cmp'' (Reg (r_name (re_reg cty))) (Imm 1),
        Jump ''jne'' (acx_label cx + 1)] cx1) (re_reg cty)) body = Inr cx2"
    "cx' = emit [Jump ''jmp'' (acx_label cx), Label (acx_label cx + 1)] cx2"
  using assms by (auto simp: Let_def fresh_labels_def split: if_splits)

declare analyze_expr.simps [simp del] analyze_call.simps [simp del] analyze_magic.simps [simp del]
  magic_write.simps(2) [simp del] magic_read.simps(2) [simp del] call_args.simps(1) [simp del]
  analyze_stmt.simps(2-5,7) [simp del] check_assignability.simps [simp del]

text \<open>Induction over statements, with the null statement and the sequences.\<close>

lemma stmt_induct [case_names null assign loop ite proc stmts wdo nil cons]:
  fixes P :: "ast_stmt option \<Rightarrow> bool" and Q :: "ast_stmt option list \<Rightarrow> bool"
  assumes "P None"
    and "\<And>l e. P (Some (STMT_ASSIGN l e))"
    and "\<And>i start stop body. P body \<Longrightarrow> P (Some (STMT_FOR i start stop body))"
    and "\<And>c th el. P th \<Longrightarrow> P el \<Longrightarrow> P (Some (STMT_ITE c th el))"
    and "\<And>p args. P (Some (STMT_PROC p args))"
    and "\<And>ss. Q ss \<Longrightarrow> P (Some (STMT_STMTS ss))"
    and "\<And>c body. P body \<Longrightarrow> P (Some (STMT_WDO c body))"
    and "Q []"
    and "\<And>s ss. P s \<Longrightarrow> Q ss \<Longrightarrow> Q (s # ss)"
  shows "P s" and "Q ss"
proof -
  have "P (Some s)" for s
  proof (induction s)
    case (STMT_FOR i start stop body)
    then show ?case by (cases body) (auto intro: assms)
  next
    case (STMT_ITE c th el)
    then show ?case by (cases th; cases el) (auto intro!: assms)
  next
    case (STMT_STMTS ss)
    then have "\<And>s. s \<in> set ss \<Longrightarrow> P s" by (metis assms(1) not_Some_eq option.set_intros)
    then have "Q ss" by (induction ss) (auto intro: assms)
    then show ?case by (rule assms)
  next
    case (STMT_WDO c body)
    then show ?case by (cases body) (auto intro: assms)
  qed (auto intro: assms)
  then show P: "P s" for s by (cases s) (auto intro: assms)
  show "Q ss" by (induction ss) (auto intro: assms P)
qed

section \<open>Interfaces\<close>

locale expr_frame =
  fixes R :: "acx \<Rightarrow> acx \<Rightarrow> bool"
  assumes refl: "R cx cx"
    and trans: "R a b \<Longrightarrow> R b c \<Longrightarrow> R a c"
    and emits: "list_all plain code \<Longrightarrow> R cx (emit code cx)"
    and diags: "R cx (diag es cx)"
    and gimme: "reg_gimme cx = (r, cx') \<Longrightarrow> R cx cx'"
    and takeback: "R cx (reg_takeitback cx r)"
    and loads: "load_var cx r n i = Inr cx' \<Longrightarrow> R cx cx'"
begin

lemma emits_after: "R a b \<Longrightarrow> list_all plain code \<Longrightarrow> R a (emit code b)"
  by (rule trans [OF _ emits])

lemma takeback_after: "R a b \<Longrightarrow> R a (reg_takeitback b r)"
  by (rule trans [OF _ takeback])

lemma path_loop_frame: "path_loop cx r ty first k cur = Inr cx' \<Longrightarrow> R cx cx'"
  by (drule path_loop_emits) (auto simp: emitted_def intro: emits)

lemma type_of_path_frame: "type_of_path cx p rv = Inr (res, cx') \<Longrightarrow> R cx cx'"
  by (erule type_of_pathE) (blast intro: gimme loads path_loop_frame emits_after trans plain_codes)

text \<open>The analysis of expressions, by the induction of the six functions.\<close>

lemma analyze_frame:
  "analyze_expr cx e rv = Inr (res, cx') \<Longrightarrow> R cx cx'"
  "analyze_call cx p args = Inr (res, cx') \<Longrightarrow> R cx cx'"
  "analyze_magic cx which args = Inr cx' \<Longrightarrow> R cx cx'"
  "magic_write cx args = Inr cx' \<Longrightarrow> R cx cx'"
  "magic_read cx which args = Inr cx' \<Longrightarrow> R cx cx'"
  "call_args cx pty i args ids = Inr cx' \<Longrightarrow> R cx cx'"
proof (induction cx e rv and cx p args and cx which args and cx args and cx which args and cx pty i args ids
    arbitrary: res cx' and res cx' and cx' and cx' and cx' and cx'
    rule: analyze_expr_analyze_call_analyze_magic_magic_write_magic_read_call_args.induct)
  case (1 cx name args rv)
  then show ?case by (simp add: analyze_expr.simps)
next
  case (2 cx left op right rv)
  from "2.prems" show ?case
    by (rule analyze_binE) (blast intro: "2.IH"(1) "2.IH"(2) [OF _ HOL.refl] emits_after bin_code_plain takeback_after trans)
next
  case (3 cx e rv)
  then show ?case by (rule analyze_derefE) (blast intro: type_of_path_frame emits_after plain_codes)
next
  case (4 cx path e rv)
  from "4.prems" show ?case
  proof (rule analyze_idxE)
    fix pathty cx1 t lo up elt ety cx2
    assume a: "type_of_path cx path False = Inr (pathty, cx1)" "STAB_TYPE (acx_st cx1) (re_type pathty) = Inr t"
      "st_ty t = R_ARRAY lo up elt" "analyze_expr cx1 e True = Inr (ety, cx2)"
      and cx': "cx' = emit (if rv then [Op2 ''mov'' (Reg (r_name (re_reg ety))) (Ind (r_name (re_reg ety)))] else []) cx2"
    from a have "R cx cx2" by (blast intro: "4.IH" [OF a(1) HOL.refl a(2,3)] type_of_path_frame trans)
    then show ?thesis unfolding cx' by (rule emits_after) (rule plain_codes)
  qed
next
  case (5 cx lit rv)
  then show ?case by (rule analyze_litE) (blast intro: gimme emits_after plain_codes)
next
  case (6 cx path rv)
  then show ?case by (auto simp: analyze_expr.simps dest: type_of_path_frame)
next
  case (7 cx op e rv)
  from "7.prems" show ?case by (rule analyze_unE) (blast intro: "7.IH" emits_after plain_codes)
next
  case (8 cx e rv)
  then show ?case by (simp add: analyze_expr.simps)
next
  case (9 cx p args)
  have chk: "x \<noteq> -1 \<Longrightarrow> CHKRES w n x = Inr x" for w n x by (simp add: CHKRES_def)
  from "9.prems" show ?case
  proof (cases rule: analyze_callE)
    case (magic pty pt)
    then show ?thesis by (intro "9.IH"(1)) (auto intro: chk)
  next
    case (call pty pt ids cx1 r cx2)
    then have "R (save_registers cx) cx1" by (intro "9.IH"(2)) (auto intro: chk)
    with call show ?thesis
      unfolding save_registers_def restore_registers_except_def by (blast intro: gimme emits_after emits trans plain_codes)
  qed
next
  case (10 cx which args)
  from "10.prems" show ?case
  proof (cases rule: analyze_magicE)
    case (writes cx1)
    from "10.IH"(1) [OF writes(1,2)] show ?thesis unfolding writes(3) by (rule emits_after) (rule plain_codes)
  next
    case reads
    then have "\<not> (which = MAGIC_WRITELN \<or> which = MAGIC_WRITE)" by (auto simp: magic_defs)
    from "10.IH"(2) [OF this reads] show ?thesis .
  qed
next
  case (11 cx)
  then show ?case by (simp add: refl)
next
  case (12 cx e es)
  from "12.prems" show ?case
    by (rule magic_writeE) (blast intro: "12.IH"(1) "12.IH"(2) [OF _ HOL.refl] emits_after takeback_after trans plain_codes)
next
  case (13 cx which)
  then show ?case by (simp add: refl)
next
  case (14 cx which e es)
  from "14.prems" show ?case
  proof (rule magic_readE)
    fix r cx1 f
    assume a: "is_lvalue e" "analyze_expr cx e False = Inr (r, cx1)" "io_routine ''read'' (re_type r) = Inr f"
      and b: "magic_read (reg_takeitback (emit (io_call (r_name (re_reg r)) f
        @ (if which = MAGIC_READLN then [Call ''read_newline@''] else [])) cx1) (re_reg r)) which es = Inr cx'"
    from a(1) have a1: "\<not> \<not> is_lvalue e" by simp
    from a(2) have "R cx cx1" by (rule "14.IH"(1) [OF a1])
    with "14.IH"(2) [OF a1 a(2) HOL.refl a(3) b] show ?thesis by (blast intro: emits_after takeback_after trans plain_codes)
  qed
next
  case (15 cx pty i e es ft fts)
  from "15.prems" show ?case
  proof (rule call_argsE)
    fix et cx1 v same msg
    assume a: "analyze_expr cx e True = Inr (et, cx1)" "STAB_VAR (acx_st cx1) ft = Inr v"
        "stab_types_eq (acx_st cx1) (re_type et) (sv_type v) = Inr same"
        "(if same then Inr [] else arg_mismatch (acx_st cx1) pty i (sv_type v) (re_type et)) = Inr msg"
      and b: "call_args (emit [Op1 ''push'' (Reg (r_name (re_reg et)))] (diag msg cx1)) pty (Suc i) es fts = Inr cx'"
    have "R (emit [Op1 ''push'' (Reg (r_name (re_reg et)))] (diag msg cx1)) cx'"
      by (rule "15.IH"(2) [OF a(1) HOL.refl a(2,3,4) b])
    then show ?thesis by (rule trans [OF trans [OF "15.IH"(1) [OF a(1)] diags] trans [OF emits [OF plain_codes(2)]]])
  qed
next
  case (16 cx pty i fts)
  then show ?case by (simp add: refl)
next
  case (17 cx pty i e es)
  then show ?case by (simp add: refl)
qed

end

text \<open>Statements: two labels at a time, the mark of an assigned result, a scope around the body of a loop.\<close>

locale stmt_frame = expr_frame +
  assumes emits_any: "R cx (emit code cx)"
    and labels: "R cx (cx\<lparr>acx_label := acx_label cx + 2\<rparr>)"
    and assigned: "R cx (cx\<lparr>acx_ret_assigned := True\<rparr>)"
    and scoped: "enter cx = Inr cx1 \<Longrightarrow> R cx1 cx2 \<Longrightarrow> leave cx2 = Inr cx3 \<Longrightarrow> R cx cx3"
begin

lemma any_after: "R a b \<Longrightarrow> R a (emit code b)"
  by (rule trans [OF _ emits_any])

lemma check_root_frame: "check_root cx n = Inr cx' \<Longrightarrow> R cx cx'"
  by (auto simp: check_root_def refl assigned split: if_splits)

lemma check_assignability_frame: "check_assignability cx e = Inr cx' \<Longrightarrow> R cx cx'"
  by (cases e) (auto simp: check_assignability.simps path_head_def refl split: if_splits
      dest!: check_root_frame intro: trans)

lemma labels_after: "R a b \<Longrightarrow> R a (b\<lparr>acx_label := acx_label b + 2\<rparr>)"
  by (rule trans [OF _ labels])

lemma analyze_stmt_frame:
  "analyze_stmt cx s = Inr cx' \<Longrightarrow> R cx cx'"
  "analyze_stmts cx ss = Inr cx' \<Longrightarrow> R cx cx'"
proof (induction s and ss arbitrary: cx cx' and cx cx' rule: stmt_induct)
  case null
  then show ?case by (simp add: refl)
next
  case (assign l e)
  from assign.prems show ?case
  proof (rule assignE)
    fix lty cx1 cx2 rty cx3
    assume a: "analyze_expr cx l False = Inr (lty, cx1)" "check_assignability cx1 l = Inr cx2"
        "analyze_expr cx2 e True = Inr (rty, cx3)"
      and c: "cx' = reg_takeitback (reg_takeitback
        (emit [Op2 ''mov'' (Ind (r_name (re_reg lty))) (Reg (r_name (re_reg rty)))] cx3) (re_reg rty)) (re_reg lty)"
    have "R cx cx3"
      by (rule trans [OF trans [OF analyze_frame(1) [OF a(1)] check_assignability_frame [OF a(2)]]
            analyze_frame(1) [OF a(3)]])
    then show ?thesis unfolding c by (intro takeback_after any_after)
  qed
next
  case (loop i start stop body)
  from loop.prems show ?case
  proof (rule forE)
    fix sty cx1 ety cx2 ity cx3 cx4 cx5
    assume a: "analyze_expr cx start True = Inr (sty, cx1)" "analyze_expr cx1 stop True = Inr (ety, cx2)"
        "type_of_path cx2 [i] False = Inr (ity, cx3)" "enter cx3 = Inr cx4"
      and b: "analyze_stmt (emit [Op1 ''push'' (Reg (r_name (re_reg sty))), Label (acx_label cx4),
        Op2 ''cmp'' (Reg (r_name (re_reg sty))) (Reg (r_name (re_reg ety))), Jump ''je'' (acx_label cx4 + 1)]
        (cx4\<lparr>acx_label := acx_label cx4 + 2\<rparr>)) body = Inr cx5"
      and c: "leave (reg_takeitback (reg_takeitback (emit [Op1 ''inc'' (Reg (r_name (re_reg sty))),
        Op2 ''mov'' (Ind ''rsp'') (Reg (r_name (re_reg sty))), Jump ''jmp'' (acx_label cx4),
        Label (acx_label cx4 + 1)] cx5) (re_reg ety)) (re_reg sty)) = Inr cx'"
    have "R cx4 cx5" by (rule trans [OF trans [OF labels emits_any] loop.IH [OF b]])
    then have "R cx3 cx'" by (intro scoped [OF a(4) _ c] takeback_after any_after)
    then show ?thesis
      by (rule trans [OF trans [OF trans [OF analyze_frame(1) [OF a(1)] analyze_frame(1) [OF a(2)]]
            type_of_path_frame [OF a(3)]]])
  qed
next
  case (ite c th el)
  from ite.prems show ?case
  proof (rule iteE)
    fix cty cx1 cx2 cx3
    assume a: "analyze_expr cx c True = Inr (cty, cx1)"
      and b: "analyze_stmt (reg_takeitback (emit [Op2 ''cmp'' (Reg (r_name (re_reg cty))) (Imm 1),
        Jump ''jne'' (acx_label cx1)] (cx1\<lparr>acx_label := acx_label cx1 + 2\<rparr>)) (re_reg cty)) th = Inr cx2"
        "analyze_stmt (emit [Jump ''jmp'' (acx_label cx1 + 1), Label (acx_label cx1)] cx2) el = Inr cx3"
      and c: "cx' = emit [Label (acx_label cx1 + 1)] cx3"
    have "R cx cx2"
      by (rule trans [OF takeback_after [OF any_after [OF labels_after [OF analyze_frame(1) [OF a]]]]
            ite.IH(1) [OF b(1)]])
    then have "R cx cx3" by (rule trans [OF any_after ite.IH(2) [OF b(2)]])
    then show ?thesis unfolding c by (rule any_after)
  qed
next
  case (proc p args)
  from proc.prems show ?case by (rule procE) (blast intro: analyze_frame takeback_after)
next
  case (stmts ss)
  then show ?case by simp
next
  case (wdo c body)
  from wdo.prems show ?case
  proof (rule wdoE)
    fix cty cx1 cx2
    assume a: "analyze_expr (emit [Label (acx_label cx)] (cx\<lparr>acx_label := acx_label cx + 2\<rparr>)) c True = Inr (cty, cx1)"
      and b: "analyze_stmt (reg_takeitback (emit [Op2 ''cmp'' (Reg (r_name (re_reg cty))) (Imm 1),
        Jump ''jne'' (acx_label cx + 1)] cx1) (re_reg cty)) body = Inr cx2"
      and c: "cx' = emit [Jump ''jmp'' (acx_label cx), Label (acx_label cx + 1)] cx2"
    have "R cx cx1" by (rule trans [OF trans [OF labels emits_any] analyze_frame(1) [OF a]])
    then have "R cx cx2" by (rule trans [OF takeback_after [OF any_after] wdo.IH [OF b]])
    then show ?thesis unfolding c by (rule any_after)
  qed
next
  case nil
  then show ?case by (simp add: refl)
next
  case (cons s ss)
  from cons.prems show ?case by (auto dest!: cons.IH intro: trans)
qed

end

end
