(* ===== verification/AcxWf.thy ===== *)
theory AcxWf
  imports Frames
begin

text \<open>
  The invariant of the analysis context, and the two relations every analysed expression and
  statement keeps to: \<open>keeps\<close> (the output only grows, the enclosing function stays) and \<open>quiet\<close> (the
  symbol table gets capture marks and closed scopes, nothing else). Both are interpretations of the
  frame locales.
\<close>

section \<open>Output and the fields of the function\<close>

definition keeps :: "acx \<Rightarrow> acx \<Rightarrow> bool" where
  "keeps cx cx' \<longleftrightarrow> (\<exists>code. acx_ofd cx' = acx_ofd cx @ code)
     \<and> acx_toplevel cx' = acx_toplevel cx \<and> acx_func_type cx' = acx_func_type cx
     \<and> acx_func_name cx' = acx_func_name cx \<and> acx_label cx \<le> acx_label cx'
     \<and> (acx_ret_assigned cx \<longrightarrow> acx_ret_assigned cx') \<and> acx_disp_offset cx \<le> acx_disp_offset cx'"

definition keeps_expr :: "acx \<Rightarrow> acx \<Rightarrow> bool" where
  "keeps_expr cx cx' \<longleftrightarrow> keeps cx cx' \<and> acx_label cx' = acx_label cx
     \<and> acx_ret_assigned cx' = acx_ret_assigned cx"

lemma reg_gimme_fields:
  assumes "reg_gimme cx = (r, cx')"
  shows "acx_st cx' = acx_st cx" "acx_disp_offset cx' = acx_disp_offset cx"
    "acx_toplevel cx' = acx_toplevel cx" "acx_func_type cx' = acx_func_type cx"
    "acx_ret_assigned cx' = acx_ret_assigned cx" "acx_func_name cx' = acx_func_name cx"
    "acx_label cx' = acx_label cx" "\<exists>code. acx_ofd cx' = acx_ofd cx @ code"
    "length (rs_used (acx_rs cx')) = length (rs_used (acx_rs cx))"
  using assms by (auto simp: reg_gimme_def Let_def split: option.splits)

lemma reg_takeitback_fields [simp]:
  "acx_st (reg_takeitback cx r) = acx_st cx"
  "acx_disp_offset (reg_takeitback cx r) = acx_disp_offset cx"
  "acx_toplevel (reg_takeitback cx r) = acx_toplevel cx"
  "acx_func_type (reg_takeitback cx r) = acx_func_type cx"
  "acx_ret_assigned (reg_takeitback cx r) = acx_ret_assigned cx"
  "acx_func_name (reg_takeitback cx r) = acx_func_name cx"
  "acx_label (reg_takeitback cx r) = acx_label cx"
  "\<exists>code. acx_ofd (reg_takeitback cx r) = acx_ofd cx @ code"
  "length (rs_used (acx_rs (reg_takeitback cx r))) = length (rs_used (acx_rs cx))"
  by (auto simp: reg_takeitback_def Let_def)

lemma load_varE:
  assumes "load_var cx r n i = Inr cx'"
  obtains (frame) v where "stab_has_local_var (acx_st cx) n = Inr True" "STAB_VAR (acx_st cx) i = Inr v"
      "cx' = emit [Op2 ''lea'' (Reg (r_name r)) (RbpOff (sv_stack_base_offset v))] cx"
    | (display) v where "stab_has_local_var (acx_st cx) n = Inr False" "STAB_VAR (acx_st cx) i = Inr v"
      "sv_captured v"
      "cx' = emit [Op2 ''mov'' (Reg (r_name r)) (Display (sv_disp_offset v * ABI_POINTER_ALIGN))] cx"
    | (capture) v st where "stab_has_local_var (acx_st cx) n = Inr False" "STAB_VAR (acx_st cx) i = Inr v"
      "\<not> sv_captured v"
      "stab_var_put (acx_st cx) i (v\<lparr>sv_captured := True, sv_disp_offset := acx_disp_offset cx\<rparr>) = Inr st"
      "cx' = emit [Op2 ''mov'' (Reg (r_name r)) (Display (acx_disp_offset cx * ABI_POINTER_ALIGN))]
         (cx\<lparr>acx_st := st, acx_disp_offset := acx_disp_offset cx + 1\<rparr>)"
  using assms by (auto simp: load_var_def split: if_splits)

lemma enterE:
  assumes "enter cx = Inr cx'"
  obtains st where "stab_enter (acx_st cx) = Inr st" "cx' = cx\<lparr>acx_st := st\<rparr>"
  using assms by (auto simp: enter_def)

lemma leaveE:
  assumes "leave cx = Inr cx'"
  obtains st where "stab_leave (acx_st cx) = Inr st" "cx' = cx\<lparr>acx_st := st\<rparr>"
  using assms by (auto simp: leave_def)

lemma keeps_refl: "keeps cx cx"
  by (simp add: keeps_def)

lemma keeps_trans: "keeps a b \<Longrightarrow> keeps b c \<Longrightarrow> keeps a c"
  by (fastforce simp: keeps_def)

lemma keeps_expr_trans: "keeps_expr a b \<Longrightarrow> keeps_expr b c \<Longrightarrow> keeps_expr a c"
  by (simp add: keeps_expr_def) (blast intro: keeps_trans)

lemma keeps_exprI:
  assumes "\<exists>code. acx_ofd cx' = acx_ofd cx @ code" "acx_toplevel cx' = acx_toplevel cx"
    "acx_func_type cx' = acx_func_type cx" "acx_func_name cx' = acx_func_name cx"
    "acx_label cx' = acx_label cx" "acx_ret_assigned cx' = acx_ret_assigned cx"
    "acx_disp_offset cx \<le> acx_disp_offset cx'"
  shows "keeps_expr cx cx'"
  using assms by (simp add: keeps_expr_def keeps_def)

lemma keeps_load: "load_var cx r n i = Inr cx' \<Longrightarrow> keeps_expr cx cx'"
  by (erule load_varE) (auto intro!: keeps_exprI)

interpretation keeps_expr: expr_frame keeps_expr
proof
  show "reg_gimme cx = (r, cx') \<Longrightarrow> keeps_expr cx cx'" for cx r cx'
    by (intro keeps_exprI) (simp_all add: reg_gimme_fields)
  show "keeps_expr a b \<Longrightarrow> keeps_expr b c \<Longrightarrow> keeps_expr a c" for a b c by (rule keeps_expr_trans)
  show "load_var cx r n i = Inr cx' \<Longrightarrow> keeps_expr cx cx'" for cx r n i cx' by (rule keeps_load)
qed (auto intro!: keeps_exprI)

interpretation keeps: stmt_frame keeps
proof
  fix cx cx1 cx2 cx3 :: acx
  assume "enter cx = Inr cx1" "keeps cx1 cx2" "leave cx2 = Inr cx3"
  then show "keeps cx cx3" by (auto simp: keeps_def elim!: enterE leaveE)
next
  show "reg_gimme cx = (r, cx') \<Longrightarrow> keeps cx cx'" for cx r cx'
    using keeps_expr.gimme by (simp add: keeps_expr_def)
  show "load_var cx r n i = Inr cx' \<Longrightarrow> keeps cx cx'" for cx r n i cx'
    using keeps_load by (simp add: keeps_expr_def)
qed (auto simp: keeps_def intro: keeps_trans)

section \<open>The symbol table\<close>

definition quiet :: "stab \<Rightarrow> stab \<Rightarrow> bool" where
  "quiet st st' \<longleftrightarrow> chain st' = chain st \<and> types st' = types st
     \<and> map var_sig (pv_list (vars st')) = map var_sig (pv_list (vars st))
     \<and> pv_length (scopes st) \<le> pv_length (scopes st')
     \<and> (\<forall>j < pv_length (scopes st). scope_nth st' j = scope_nth st j)"

lemma quiet_refl [simp]: "quiet st st"
  by (simp add: quiet_def)

lemma quiet_trans: "quiet a b \<Longrightarrow> quiet b c \<Longrightarrow> quiet a c"
  by (simp add: quiet_def)

lemma quiet_stab_ext: "quiet st st' \<Longrightarrow> stab_ext st st'"
  by (auto simp: quiet_def stab_ext_def)

lemma quiet_simps:
  assumes "quiet st st'"
  shows "chain st' = chain st" "types st' = types st" "ntypes st' = ntypes st" "nvars st' = nvars st"
    "type_nth st' i = type_nth st i"
proof -
  have "length (map var_sig (pv_list (vars st'))) = length (map var_sig (pv_list (vars st)))"
    using assms by (metis quiet_def)
  then have "pv_length (vars st') = pv_length (vars st)" by simp
  with assms show "chain st' = chain st" "types st' = types st" "ntypes st' = ntypes st" "nvars st' = nvars st"
    "type_nth st' i = type_nth st i"
    by (simp_all add: quiet_def type_nth_def)
qed

lemma quiet_var_sig: "quiet st st' \<Longrightarrow> id_ok (nvars st) i \<Longrightarrow> var_sig (var_nth st' i) = var_sig (var_nth st i)"
  by (rule ext_var_sig [OF quiet_stab_ext])

lemma quiet_env: "stab_wf st \<Longrightarrow> quiet st st' \<Longrightarrow> env_of tab st' = env_of tab st"
  by (rule env_of_same) (auto simp: quiet_def stab_wfD(5))

text \<open>Display slots: a captured variable has one below \<open>disp_offset\<close>, and no two have the same.\<close>

definition display_ok :: "acx \<Rightarrow> bool" where
  "display_ok cx \<longleftrightarrow> 0 \<le> acx_disp_offset cx
     \<and> (\<forall>v \<in> set (pv_list (vars (acx_st cx))). sv_captured v \<longrightarrow> 0 \<le> sv_disp_offset v
          \<and> sv_disp_offset v < acx_disp_offset cx)
     \<and> (\<forall>i < pv_length (vars (acx_st cx)). \<forall>j < i.
          sv_captured (pv_list (vars (acx_st cx)) ! i) \<longrightarrow> sv_captured (pv_list (vars (acx_st cx)) ! j) \<longrightarrow>
          sv_disp_offset (pv_list (vars (acx_st cx)) ! i) \<noteq> sv_disp_offset (pv_list (vars (acx_st cx)) ! j))"

definition acx_wf :: "acx \<Rightarrow> bool" where
  "acx_wf cx \<longleftrightarrow> stab_wf (acx_st cx) \<and> display_ok cx \<and> length (rs_used (acx_rs cx)) = NUM_REGS"

definition calm :: "acx \<Rightarrow> acx \<Rightarrow> bool" where
  "calm cx cx' \<longleftrightarrow> (acx_wf cx \<longrightarrow> acx_wf cx' \<and> quiet (acx_st cx) (acx_st cx'))"

lemma acx_wfD: "acx_wf cx \<Longrightarrow> stab_wf (acx_st cx)" "acx_wf cx \<Longrightarrow> display_ok cx"
    "acx_wf cx \<Longrightarrow> length (rs_used (acx_rs cx)) = NUM_REGS"
  by (simp_all add: acx_wf_def)

lemma acx_wf_cong:
  "acx_st cx' = acx_st cx \<Longrightarrow> acx_disp_offset cx' = acx_disp_offset cx
   \<Longrightarrow> length (rs_used (acx_rs cx')) = length (rs_used (acx_rs cx)) \<Longrightarrow> acx_wf cx \<Longrightarrow> acx_wf cx'"
  by (simp add: acx_wf_def display_ok_def)

lemma calm_same:
  "acx_st cx' = acx_st cx \<Longrightarrow> acx_disp_offset cx' = acx_disp_offset cx
   \<Longrightarrow> length (rs_used (acx_rs cx')) = length (rs_used (acx_rs cx)) \<Longrightarrow> calm cx cx'"
  by (simp add: calm_def) (blast intro: acx_wf_cong)

lemma calm_trans: "calm a b \<Longrightarrow> calm b c \<Longrightarrow> calm a c"
  by (auto simp: calm_def intro: quiet_trans)

lemma capture_wf:
  assumes wf: "acx_wf cx" and v: "STAB_VAR (acx_st cx) i = Inr v" and "\<not> sv_captured v"
    and put: "stab_var_put (acx_st cx) i (v\<lparr>sv_captured := True, sv_disp_offset := acx_disp_offset cx\<rparr>) = Inr st"
  shows "acx_wf (cx\<lparr>acx_st := st, acx_disp_offset := acx_disp_offset cx + 1\<rparr>)" and "quiet (acx_st cx) st"
proof -
  let ?st = "acx_st cx" and ?v = "v\<lparr>sv_captured := True, sv_disp_offset := acx_disp_offset cx\<rparr>"
  note stwf = acx_wfD(1) [OF wf]
  have i: "nat i < pv_length (vars ?st)" and v_nth: "v = pv_list (vars ?st) ! nat i"
    using STAB_VAR_Inr [OF stwf v] by (auto simp: id_ok_def var_nth_def)
  obtain vs where vs: "st = ?st\<lparr>vars := vs\<rparr>" "pv_inv vs" "pv_list vs = (pv_list (vars ?st))[nat i := ?v]"
    using pv_write_inv [OF stab_wfD(1) [OF stwf] i, of ?v] put by (auto simp: stab_var_put_def)
  have len: "pv_length vs = pv_length (vars ?st)"
    using arg_cong [OF vs(3), of length] by simp
  have "var_sig ?v = map var_sig (pv_list (vars ?st)) ! nat i"
    using i by (simp add: var_sig_def v_nth)
  then have sig: "map var_sig (pv_list vs) = map var_sig (pv_list (vars ?st))"
    by (simp only: vs(3) map_update list_update_id)
  then show q: "quiet ?st st" by (simp add: vs(1) quiet_def scope_nth_def)
  have "stab_wf st"
  proof -
    have "\<forall>w \<in> set (pv_list vs). ref_ok (ntypes ?st) (sv_type w)"
    proof
      fix w assume "w \<in> set (pv_list vs)"
      then have "w = ?v \<or> w \<in> set (pv_list (vars ?st))"
        unfolding vs(3) using set_update_subset_insert by fastforce
      moreover have "v \<in> set (pv_list (vars ?st))" using i by (simp add: v_nth)
      ultimately show "ref_ok (ntypes ?st) (sv_type w)" using stab_wfD(8) [OF stwf] by auto
    qed
    with stwf vs(2) len show ?thesis by (simp add: vs(1) stab_wf_def)
  qed
  moreover have "display_ok (cx\<lparr>acx_st := st, acx_disp_offset := acx_disp_offset cx + 1\<rparr>)"
  proof -
    have d: "display_ok cx" by (rule acx_wfD(2) [OF wf])
    have cap: "sv_captured w \<Longrightarrow> 0 \<le> sv_disp_offset w \<and> sv_disp_offset w < acx_disp_offset cx"
      if "w \<in> set (pv_list (vars ?st))" for w using d that by (simp add: display_ok_def)
    have pos: "0 \<le> acx_disp_offset cx" using d by (simp add: display_ok_def)
    have nth: "pv_list vs ! k = (if k = nat i then ?v else pv_list (vars ?st) ! k)" for k
      using i by (simp add: vs(3) nth_list_update)
    have lt: "k < pv_length (vars ?st) \<Longrightarrow> sv_captured (pv_list (vars ?st) ! k)
        \<Longrightarrow> sv_disp_offset (pv_list (vars ?st) ! k) \<noteq> acx_disp_offset cx" for k
      using cap [of "pv_list (vars ?st) ! k"] by simp
    have inj: "\<And>k j. k < pv_length (vars ?st) \<Longrightarrow> j < k \<Longrightarrow> sv_captured (pv_list (vars ?st) ! k) \<Longrightarrow>
        sv_captured (pv_list (vars ?st) ! j) \<Longrightarrow>
        sv_disp_offset (pv_list (vars ?st) ! k) \<noteq> sv_disp_offset (pv_list (vars ?st) ! j)"
      using d by (simp add: display_ok_def)
    have "0 \<le> sv_disp_offset w \<and> sv_disp_offset w < acx_disp_offset cx + 1"
      if "w \<in> set (pv_list vs)" "sv_captured w" for w
      using that pos cap unfolding vs(3) by (force dest!: set_update_subset_insert [THEN subsetD])
    moreover have "sv_disp_offset (pv_list vs ! k) \<noteq> sv_disp_offset (pv_list vs ! j)"
      if "k < pv_length (vars ?st)" "j < k" "sv_captured (pv_list vs ! k)" "sv_captured (pv_list vs ! j)" for k j
      using inj [of k j] lt [of k] lt [of j] that unfolding nth by (simp split: if_splits)
    ultimately show ?thesis
      using pos unfolding display_ok_def by (simp add: vs(1) len)
  qed
  ultimately show "acx_wf (cx\<lparr>acx_st := st, acx_disp_offset := acx_disp_offset cx + 1\<rparr>)"
    using wf by (simp add: acx_wf_def)
qed

lemma calm_load: "load_var cx r n i = Inr cx' \<Longrightarrow> calm cx cx'"
proof (erule load_varE)
  fix v st
  assume a: "STAB_VAR (acx_st cx) i = Inr v" "\<not> sv_captured v"
    "stab_var_put (acx_st cx) i (v\<lparr>sv_captured := True, sv_disp_offset := acx_disp_offset cx\<rparr>) = Inr st"
  assume b: "cx' = emit [Op2 ''mov'' (Reg (r_name r)) (Display (acx_disp_offset cx * ABI_POINTER_ALIGN))]
         (cx\<lparr>acx_st := st, acx_disp_offset := acx_disp_offset cx + 1\<rparr>)"
  have "calm cx (cx\<lparr>acx_st := st, acx_disp_offset := acx_disp_offset cx + 1\<rparr>)"
    using capture_wf [OF _ a] by (simp add: calm_def)
  then show "calm cx cx'" unfolding b by (rule calm_trans) (simp add: calm_same)
qed (simp_all add: calm_same)

lemma scoped_wf:
  assumes wf: "acx_wf cx" and e: "enter cx = Inr cx1" and r: "calm cx1 cx2" and l: "leave cx2 = Inr cx3"
  shows "acx_wf cx3" and "quiet (acx_st cx) (acx_st cx3)"
proof -
  let ?st = "acx_st cx" and ?n = "pv_length (scopes (acx_st cx))"
  from e obtain st1 where e1: "stab_enter ?st = Inr st1" "cx1 = cx\<lparr>acx_st := st1\<rparr>" by (rule enterE)
  with stab_enter_wf [OF acx_wfD(1) [OF wf]] have st1: "stab_wf st1" "chain st1 = chain ?st @ [?n]"
      "\<forall>i < ?n. scope_nth st1 i = scope_nth ?st i" "pv_length (scopes st1) = Suc ?n"
      "types st1 = types ?st" "vars st1 = vars ?st" by auto
  have "acx_wf cx1" using wf st1 by (simp add: e1(2) acx_wf_def display_ok_def)
  with r have c: "acx_wf cx2" "quiet st1 (acx_st cx2)" by (auto simp: calm_def e1(2))
  from l obtain st3 where l3: "stab_leave (acx_st cx2) = Inr st3" "cx3 = cx2\<lparr>acx_st := st3\<rparr>" by (rule leaveE)
  then have len: "1 < length (chain (acx_st cx2))"
    by (auto simp: stab_leave_def chain_pop_def split: if_splits)
  from stab_leave_wf [OF acx_wfD(1) [OF c(1)] len] l3(1)
  have st3: "st3 = acx_st cx2\<lparr>chain := butlast (chain (acx_st cx2))\<rparr>" "stab_wf st3" by auto
  show "acx_wf cx3" using c st3 by (simp add: l3(2) acx_wf_def display_ok_def)
  show "quiet ?st (acx_st cx3)" using c(2) st1 by (auto simp: l3(2) st3(1) quiet_def scope_nth_def)
qed

interpretation calm: stmt_frame calm
proof
  fix cx cx1 cx2 cx3 :: acx
  assume a: "enter cx = Inr cx1" "calm cx1 cx2" "leave cx2 = Inr cx3"
  show "calm cx cx3"
    unfolding calm_def using scoped_wf [OF _ a] by blast
next
  show "reg_gimme cx = (r, cx') \<Longrightarrow> calm cx cx'" for cx r cx'
    by (rule calm_same) (simp_all add: reg_gimme_fields)
  show "calm a b \<Longrightarrow> calm b c \<Longrightarrow> calm a c" for a b c by (rule calm_trans)
  show "load_var cx r n i = Inr cx' \<Longrightarrow> calm cx cx'" for cx r n i cx' by (rule calm_load)
qed (auto intro!: calm_same)

end
