(* ===== verification/ProgramWf.thy ===== *)
theory ProgramWf
  imports AcxWf
begin

text \<open>
  Subprograms and whole programs: \<open>inside\<close> is what any step between the entry of a scope and its
  exit keeps; a whole subprogram leaves the enclosing scopes, registers and labels as they were
  (\<open>analyze_subprog_frame\<close>), and the analysis of a program ends in a well-formed table with the
  global scope open (\<open>analyze_frame\<close>).
\<close>

definition inside :: "acx \<Rightarrow> acx \<Rightarrow> bool" where
  "inside cx cx' \<longleftrightarrow> keeps cx cx' \<and> acx_wf cx' \<and> stab_ext (acx_st cx) (acx_st cx')
     \<and> (\<forall>j < pv_length (scopes (acx_st cx)). j \<noteq> last (chain (acx_st cx)) \<longrightarrow>
          scope_nth (acx_st cx') j = scope_nth (acx_st cx) j)"

lemma insideD:
  assumes "inside cx cx'"
  shows "keeps cx cx'" "acx_wf cx'" "stab_ext (acx_st cx) (acx_st cx')" "stab_wf (acx_st cx')"
    "chain (acx_st cx') = chain (acx_st cx)"
    "pv_length (scopes (acx_st cx)) \<le> pv_length (scopes (acx_st cx'))"
  using assms by (simp_all add: inside_def acx_wf_def stab_ext_def)

lemma inside_refl: "acx_wf cx \<Longrightarrow> inside cx cx"
  by (simp add: inside_def keeps_refl)

lemma inside_trans:
  assumes "inside a b" and "inside b c"
  shows "inside a c"
  using assms insideD(5,6) [OF assms(1)] unfolding inside_def
  by (auto intro: keeps_trans stab_ext_trans)

lemma inside_emit: "acx_wf cx \<Longrightarrow> inside cx (emit code cx)"
  using calm_same [of "emit code cx" cx] by (simp add: inside_def calm_def keeps_def)

lemma inside_emit_after: "inside cx cx' \<Longrightarrow> inside cx (emit code cx')"
  by (rule inside_trans [OF _ inside_emit [OF insideD(2)]])

lemma inside_calm: "acx_wf cx \<Longrightarrow> keeps cx cx' \<Longrightarrow> calm cx cx' \<Longrightarrow> inside cx cx'"
  by (simp add: inside_def calm_def quiet_stab_ext) (simp add: quiet_def)

lemma inside_stmt: "acx_wf cx \<Longrightarrow> analyze_stmt cx s = Inr cx' \<Longrightarrow> inside cx cx'"
  by (intro inside_calm keeps.analyze_stmt_frame(1) calm.analyze_stmt_frame(1))

lemma inside_gimme: "acx_wf cx \<Longrightarrow> reg_gimme cx = (r, cx') \<Longrightarrow> inside cx cx'"
  by (intro inside_calm keeps.gimme calm.gimme)

lemma inside_takeback: "acx_wf cx \<Longrightarrow> inside cx (reg_takeitback cx r)"
  by (intro inside_calm keeps.takeback calm.takeback)

lemma display_ok_adds:
  assumes d: "display_ok cx" and a: "adds (acx_st cx) st"
  shows "display_ok (cx\<lparr>acx_st := st\<rparr>)"
proof -
  from a obtain vs where vs: "pv_list (vars st) = pv_list (vars (acx_st cx)) @ vs"
    "\<forall>v \<in> set vs. \<not> sv_captured v" by (auto simp: adds_def)
  have len: "pv_length (vars st) = pv_length (vars (acx_st cx)) + length vs"
    using arg_cong [OF vs(1), of length] by simp
  have old: "i < pv_length (vars (acx_st cx))" if "i < pv_length (vars st)" "sv_captured (pv_list (vars st) ! i)" for i
    using that vs(2) by (auto simp: vs(1) len nth_append split: if_splits)
  have "sv_disp_offset (pv_list (vars st) ! i) \<noteq> sv_disp_offset (pv_list (vars st) ! j)"
    if "i < pv_length (vars st)" "j < i" "sv_captured (pv_list (vars st) ! i)" "sv_captured (pv_list (vars st) ! j)" for i j
  proof -
    from that have "i < pv_length (vars (acx_st cx))" "j < pv_length (vars (acx_st cx))"
      using old [of i] old [of j] by auto
    with d that show ?thesis by (simp add: display_ok_def vs(1) nth_append)
  qed
  moreover have "\<forall>v \<in> set (pv_list (vars st)). sv_captured v \<longrightarrow> 0 \<le> sv_disp_offset v
          \<and> sv_disp_offset v < acx_disp_offset cx"
    using d vs by (auto simp: display_ok_def)
  ultimately show ?thesis using d by (simp add: display_ok_def)
qed

lemma inside_ext:
  assumes "acx_wf cx" and "ext_wf (acx_st cx) st"
  shows "inside cx (cx\<lparr>acx_st := st\<rparr>)"
proof -
  note e = ext_wfD [OF assms(2)]
  have "acx_wf (cx\<lparr>acx_st := st\<rparr>)"
    using assms(1) e display_ok_adds [OF acx_wfD(2) [OF assms(1)] e(6)] by (simp add: acx_wf_def)
  moreover have "keeps cx (cx\<lparr>acx_st := st\<rparr>)" by (simp add: keeps_def)
  ultimately show ?thesis using e(2,6) by (simp add: inside_def adds_def)
qed

section \<open>Declarations\<close>

lemma add_types_inside:
  "acx_wf cx \<Longrightarrow> chain (acx_st cx) \<noteq> [] \<Longrightarrow> add_types cx ts = Inr cx' \<Longrightarrow> inside cx cx'"
proof (induction ts arbitrary: cx)
  case Nil
  then show ?case by (simp add: inside_refl)
next
  case (Cons t ts)
  from Cons.prems(3) obtain st where st: "stab_add_type (acx_st cx) (td_name t) (td_type t) = Inr st"
    and rest: "add_types (cx\<lparr>acx_st := st\<rparr>) ts = Inr cx'" by auto
  have i: "inside cx (cx\<lparr>acx_st := st\<rparr>)"
    by (rule inside_ext [OF Cons.prems(1) stab_add_type_ext_wf(1) [OF acx_wfD(1) [OF Cons.prems(1)] Cons.prems(2) st]])
  from Cons.IH [OF insideD(2) [OF i] _ rest] insideD(5) [OF i] Cons.prems(2)
  show ?case by (auto intro: inside_trans [OF i])
qed

lemma add_decls_inside:
  "acx_wf cx \<Longrightarrow> chain (acx_st cx) \<noteq> [] \<Longrightarrow> add_decls cx ds off b = Inr (off', cx') \<Longrightarrow> inside cx cx'"
proof (induction ds arbitrary: cx off)
  case Nil
  then show ?case by (simp add: inside_refl)
next
  case (Cons d ds)
  from Cons.prems(3) obtain o1 st where st: "stab_add_decls (acx_st cx) d (Some off) b = Inr (o1, st)"
    and rest: "add_decls (cx\<lparr>acx_st := st\<rparr>) ds (case o1 of None \<Rightarrow> off | Some p \<Rightarrow> p) b = Inr (off', cx')"
    by auto
  have i: "inside cx (cx\<lparr>acx_st := st\<rparr>)"
    by (rule inside_ext [OF Cons.prems(1) grows_ext_wf [OF stab_add_decls_grows
          [OF acx_wfD(1) [OF Cons.prems(1)] Cons.prems(2) st]]])
  from Cons.IH [OF insideD(2) [OF i] _ rest] insideD(5) [OF i] Cons.prems(2)
  show ?case by (auto intro: inside_trans [OF i])
qed

lemma do_imports_inside:
  "acx_wf cx \<Longrightarrow> chain (acx_st cx) \<noteq> [] \<Longrightarrow> do_imports cx ns = Inr cx' \<Longrightarrow> inside cx cx'"
proof (induction ns arbitrary: cx)
  case Nil
  then show ?case by (simp add: inside_refl)
next
  case (Cons n ns)
  have two: "\<exists>st. bindr (stab_add_magic_func (acx_st cx) a) (\<lambda>st. bindr (stab_add_magic_func st b)
      (\<lambda>st. Inr (cx\<lparr>acx_st := st\<rparr>))) = Inr (cx\<lparr>acx_st := st\<rparr>) \<and> ext_wf (acx_st cx) st"
    if "{a, b} \<subseteq> {MAGIC_READ, MAGIC_READLN, MAGIC_WRITE, MAGIC_WRITELN}" for a b
  proof -
    from stab_add_magic_func_wf [OF acx_wfD(1) [OF Cons.prems(1)] Cons.prems(2), of a] that obtain s1 where
      s1: "stab_add_magic_func (acx_st cx) a = Inr s1" "ext_wf (acx_st cx) s1" by auto
    from stab_add_magic_func_wf [OF ext_wfD(1) [OF s1(2)], of b] that ext_wfD(3) [OF s1(2)] Cons.prems(2)
    obtain s2 where "stab_add_magic_func s1 b = Inr s2" "ext_wf s1 s2" by auto
    with s1 show ?thesis by (auto intro: ext_wf_trans)
  qed
  from Cons.prems(3) obtain cx1 where c: "(if n = ''input'' then register_input cx
            else if n = ''output'' then register_output cx
            else Inl (Span_Err (''no such library: `'' @ n @ ''`''))) = Inr cx1"
    and rest: "do_imports cx1 ns = Inr cx'" by (auto split: if_splits)
  from c two [of MAGIC_READLN MAGIC_READ] two [of MAGIC_WRITELN MAGIC_WRITE]
  obtain st where st: "cx1 = cx\<lparr>acx_st := st\<rparr>" "ext_wf (acx_st cx) st"
    unfolding register_input_def register_output_def by (auto split: if_splits)
  have i: "inside cx cx1" unfolding st(1) by (rule inside_ext [OF Cons.prems(1) st(2)])
  from Cons.IH [OF insideD(2) [OF i] _ rest] insideD(5) [OF i] Cons.prems(2)
  show ?case by (auto intro: inside_trans [OF i])
qed

lemma subprog_decls_inside:
  assumes wf: "acx_wf cx" and ne: "chain (acx_st cx) \<noteq> []"
    and r: "subprog_decls cx name tys args locals retty = Inr (retslot, off, cx')"
  shows "inside cx cx'" and "id_ok (nvars (acx_st cx')) retslot"
proof -
  from r obtain cx1 o2 cx2 o3 cx3 ty st1 o4 st2 where
    s: "add_types cx tys = Inr cx1"
      "add_decls cx1 args (8 * (int (length args) + 1)) False = Inr (o2, cx2)"
      "add_decls cx2 locals 0 True = Inr (o3, cx3)"
      "stab_resolve_type (acx_st cx3) ''<retslot>'' retty = Inr (ty, st1)"
      "stab_add_var st1 name ty (Some o3) True = Inr (retslot, o4, st2)"
    and cx': "cx' = cx3\<lparr>acx_st := st2\<rparr>"
    by (auto simp: subprog_decls_def)
  have i1: "inside cx cx1" by (rule add_types_inside [OF wf ne s(1)])
  then have n1: "chain (acx_st cx1) \<noteq> []" using ne insideD(5) by metis
  have i2: "inside cx1 cx2" by (rule add_decls_inside [OF insideD(2) [OF i1] n1 s(2)])
  then have n2: "chain (acx_st cx2) \<noteq> []" using n1 insideD(5) by metis
  have i3: "inside cx2 cx3" by (rule add_decls_inside [OF insideD(2) [OF i2] n2 s(3)])
  then have n3: "chain (acx_st cx3) \<noteq> []" using n2 insideD(5) by metis
  from resolve_grows(1) [OF insideD(4) [OF i3] n3 s(4)]
  have g: "grows (acx_st cx3) st1" "ref_ok (ntypes st1) ty" by auto
  from add_var_grows [OF growsD(1) [OF g(1)] _ g(2) s(5)] growsD(5) [OF g(1)] n3
  have g2: "grows st1 st2" "id_ok (nvars st2) retslot" by auto
  have "inside cx3 cx'"
    unfolding cx' by (rule inside_ext [OF insideD(2) [OF i3] grows_ext_wf [OF grows_trans [OF g(1) g2(1)]]])
  with i1 i2 i3 show "inside cx cx'" by (blast intro: inside_trans)
  show "id_ok (nvars (acx_st cx')) retslot" using g2(2) by (simp add: cx')
qed

section \<open>The display\<close>

definition printed :: "acx \<Rightarrow> acx \<Rightarrow> bool" where
  "printed cx cx' \<longleftrightarrow> (\<exists>code. cx' = emit code cx)"

lemma printed_refl: "printed cx cx"
  unfolding printed_def by (rule exI [where x = "[]"]) simp

lemma printed_emit: "printed (emit code cx) cx' \<Longrightarrow> printed cx cx'"
  by (auto simp: printed_def)

lemma save_display_emits: "save_display cx es = Inr (ids, cx') \<Longrightarrow> printed cx cx'"
  by (induction es arbitrary: cx ids) (force simp: printed_refl split: if_splits dest: printed_emit)+

lemma restore_display_emits: "restore_display cx r ids = Inr cx' \<Longrightarrow> printed cx cx'"
  by (induction ids arbitrary: cx) (auto simp: printed_refl dest: printed_emit)

lemma inside_printed: "acx_wf cx \<Longrightarrow> printed cx cx' \<Longrightarrow> inside cx cx'"
  by (auto simp: printed_def intro: inside_emit)

lemma prologue_emits: "subprog_prologue cx off = Inr (captured, cx') \<Longrightarrow> printed cx cx'"
  by (auto simp: subprog_prologue_def Let_def dest!: save_display_emits printed_emit)

lemma init_display_inside: "acx_wf cx \<Longrightarrow> init_display cx es = Inr cx' \<Longrightarrow> inside cx cx'"
proof (induction es arbitrary: cx)
  case Nil
  then show ?case by (simp add: inside_refl)
next
  case (Cons e es)
  obtain n i where e: "e = (n, i)" by fastforce
  from Cons.prems(2) obtain v where v: "STAB_VAR (acx_st cx) i = Inr v" by (auto simp: e)
  show ?case
  proof (cases "sv_captured v")
    case True
    obtain r cx1 where g: "reg_gimme cx = (r, cx1)" by fastforce
    let ?cx2 = "reg_takeitback (emit [Op2 ''lea'' (Reg (r_name r)) (RbpOff (sv_stack_base_offset v)),
                      Op2 ''mov'' (slot v) (Reg (r_name r))] cx1) r"
    have i: "inside cx ?cx2"
      using inside_emit_after [OF inside_gimme [OF Cons.prems(1) g]] by (blast intro: inside_trans inside_takeback insideD(2))
    moreover have "init_display ?cx2 es = Inr cx'" using Cons.prems(2) v True g by (simp add: e)
    ultimately show ?thesis using Cons.IH insideD(2) inside_trans by blast
  next
    case False
    with Cons v show ?thesis by (simp add: e)
  qed
qed

section \<open>Subprograms\<close>

text \<open>What a whole subprogram leaves as it was for the code around it.\<close>

definition outside :: "acx \<Rightarrow> acx \<Rightarrow> bool" where
  "outside cx cx' \<longleftrightarrow> acx_wf cx' \<and> stab_ext (acx_st cx) (acx_st cx')
     \<and> (\<forall>j < pv_length (scopes (acx_st cx)). scope_nth (acx_st cx') j = scope_nth (acx_st cx) j)
     \<and> (\<exists>code. acx_ofd cx' = acx_ofd cx @ code) \<and> acx_disp_offset cx \<le> acx_disp_offset cx'
     \<and> acx_toplevel cx' = acx_toplevel cx \<and> acx_func_type cx' = acx_func_type cx
     \<and> acx_func_name cx' = acx_func_name cx \<and> acx_label cx' = acx_label cx
     \<and> acx_ret_assigned cx' = acx_ret_assigned cx \<and> acx_rs cx' = acx_rs cx"

lemma outside_inside: "outside cx cx' \<Longrightarrow> inside cx cx'"
  by (simp add: outside_def inside_def keeps_def)

lemma subprog_enter_wf:
  assumes wf: "acx_wf cx" and r: "subprog_enter cx name k = Inr cx1"
  shows "acx_wf cx1" and "chain (acx_st cx1) = chain (acx_st cx) @ [pv_length (scopes (acx_st cx))]"
    and "\<forall>j < pv_length (scopes (acx_st cx)). scope_nth (acx_st cx1) j = scope_nth (acx_st cx) j"
    and "pv_length (scopes (acx_st cx1)) = Suc (pv_length (scopes (acx_st cx)))"
    and "types (acx_st cx1) = types (acx_st cx)" and "vars (acx_st cx1) = vars (acx_st cx)"
    and "acx_ofd cx1 = acx_ofd cx @ [Entry name]" and "acx_disp_offset cx1 = acx_disp_offset cx"
    and "acx_toplevel cx1 = acx_toplevel cx" and "acx_func_type cx1 = k" and "acx_func_name cx1 = name"
    and "\<not> acx_ret_assigned cx1" and "acx_label cx1 = 0" and "acx_rs cx1 = reg_init"
  using stab_enter_wf [OF acx_wfD(1) [OF wf]] r wf
  by (auto simp: subprog_enter_def acx_wf_def display_ok_def reg_init_def elim!: enterE)

lemma copy_result_inside:
  assumes wf: "acx_wf cx" and c: "copy_result cx retslot = Inr cx'"
  shows "inside cx cx'"
proof (cases "acx_func_type cx = SUB_FUNCTION")
  case True
  obtain r cx1 where g: "reg_gimme cx = (r, cx1)" by fastforce
  with c True obtain v where v: "STAB_VAR (acx_st cx1) retslot = Inr v" by (auto simp: copy_result_def)
  with c True g have cx': "cx' = reg_takeitback
        (emit [Op2 ''mov'' (Reg (r_name r)) (RbpOffSp (sv_stack_base_offset v)),
               Op2 ''mov'' (Ind ''rbp'') (Reg (r_name r))] cx1) r" by (simp add: copy_result_def)
  note i = inside_emit_after [OF inside_gimme [OF wf g]]
  show ?thesis unfolding cx' by (rule inside_trans [OF i inside_takeback [OF insideD(2) [OF i]]])
next
  case False
  with c wf show ?thesis by (simp add: copy_result_def inside_refl)
qed

lemma epilogueE:
  assumes "subprog_epilogue cx retslot off captured = Inr cx'"
  obtains cx1 where "acx_func_type cx = SUB_FUNCTION \<Longrightarrow> acx_ret_assigned cx"
    "acx_wf cx \<Longrightarrow> inside cx cx1" "leave cx1 = Inr cx'"
proof -
  obtain r cxa where g: "reg_gimme cx = (r, cxa)" by fastforce
  from assms obtain cxb cxc where ra: "acx_func_type cx = SUB_FUNCTION \<Longrightarrow> acx_ret_assigned cx"
    and b: "restore_display cxa (r_name r) (rev (tl captured)) = Inr cxb"
    and c: "copy_result (reg_takeitback cxb r) retslot = Inr cxc"
    and l: "leave (emit [Op2 ''add'' (Reg ''rsp'') (Imm (off - ABI_POINTER_SIZE)), Op0 ''ret''] cxc) = Inr cx'"
    by (auto simp: subprog_epilogue_def g split: if_splits)
  have "inside cx (emit [Op2 ''add'' (Reg ''rsp'') (Imm (off - ABI_POINTER_SIZE)), Op0 ''ret''] cxc)"
    if wf: "acx_wf cx"
  proof -
    note ia = inside_gimme [OF wf g]
    note ib = inside_trans [OF ia inside_printed [OF insideD(2) [OF ia] restore_display_emits [OF b]]]
    note it = inside_trans [OF ib inside_takeback [OF insideD(2) [OF ib], of r]]
    have "inside cx cxc" by (rule inside_trans [OF it copy_result_inside [OF insideD(2) [OF it] c]])
    then show ?thesis by (rule inside_emit_after)
  qed
  with ra l that show thesis by blast
qed

lemma analyze_subprog_outside:
  "acx_wf cx \<Longrightarrow> analyze_subprog cx d = Inr cx' \<Longrightarrow> outside cx cx'"
  "acx_wf cx \<Longrightarrow> chain (acx_st cx) \<noteq> [] \<Longrightarrow> analyze_subprogs cx ds = Inr cx' \<Longrightarrow> inside cx cx'"
proof (induction cx d and cx ds arbitrary: cx' and cx' rule: analyze_subprog_analyze_subprogs.induct)
  case (1 old head name locals subprogs tys body)
  from "1.prems"(2) obtain k args retty cx1 retslot off cx2 cx3 captured cx4 cx5 cx6 where
    hd: "head_func head = Inr (k, args, retty)"
    and r: "subprog_enter old name k = Inr cx1"
      "subprog_decls cx1 name tys args locals retty = Inr (retslot, off, cx2)"
      "analyze_subprogs cx2 subprogs = Inr cx3"
      "subprog_prologue cx3 off = Inr (captured, cx4)" "analyze_stmt cx4 body = Inr cx5"
      "subprog_epilogue cx5 retslot off captured = Inr cx6"
    and cx': "cx' = subprog_restore old cx6"
    by auto
  note e = subprog_enter_wf [OF "1.prems"(1) r(1)]
  have i2: "inside cx1 cx2" by (rule subprog_decls_inside [OF e(1) _ r(2)]) (simp add: e(2))
  have i3: "inside cx2 cx3"
    by (rule "1.IH" [OF hd HOL.refl HOL.refl r(1,2) HOL.refl HOL.refl insideD(2) [OF i2] _ r(3)])
      (simp add: insideD(5) [OF i2] e(2))
  note i4 = inside_printed [OF insideD(2) [OF i3] prologue_emits [OF r(4)]]
  note i5 = inside_stmt [OF insideD(2) [OF i4] r(5)]
  from r(6) obtain cx5a where i6: "inside cx5 cx5a" and l: "leave cx5a = Inr cx6"
    using insideD(2) [OF i5] by (blast elim: epilogueE)
  have i: "inside cx1 cx5a" using i2 i3 i4 i5 i6 by (blast intro: inside_trans)
  note d = insideD [OF i]
  have k: "keeps cx1 cx5a" by (rule d(1))
  from l obtain st where st: "stab_leave (acx_st cx5a) = Inr st" "cx6 = cx5a\<lparr>acx_st := st\<rparr>" by (rule leaveE)
  then have len: "1 < length (chain (acx_st cx5a))" by (auto simp: stab_leave_def chain_pop_def split: if_splits)
  note lv = stab_leave_wf [OF d(4) len]
  from lv st have st': "st = acx_st cx5a\<lparr>chain := butlast (chain (acx_st cx5a))\<rparr>" "stab_wf st" by auto
  have "acx_wf cx'"
    using d(2) "1.prems"(1) st' by (simp add: cx' subprog_restore_def st(2) acx_wf_def display_ok_def)
  moreover have "stab_ext (acx_st old) (acx_st cx')"
    using d(3) e by (simp add: cx' subprog_restore_def st(2) st'(1) stab_ext_def)
  moreover have "scope_nth (acx_st cx') j = scope_nth (acx_st old) j"
    if "j < pv_length (scopes (acx_st old))" for j
    using i that e(2,3,4) by (simp add: cx' subprog_restore_def st(2) st'(1) inside_def scope_nth_def)
  ultimately show ?case
    using k e by (auto simp: outside_def cx' subprog_restore_def st(2) keeps_def)
next
  case (2 cx)
  then show ?case by (simp add: inside_refl)
next
  case (3 cx d ds)
  from "3.prems"(3) obtain st cx1 where st: "stab_add_func (acx_st cx) (sd_name d) (sd_head d) = Inr st"
    and s: "analyze_subprog (cx\<lparr>acx_st := st\<rparr>) d = Inr cx1" and rest: "analyze_subprogs cx1 ds = Inr cx'"
    by auto
  note i1 = inside_ext [OF "3.prems"(1) stab_add_func_ext_wf [OF acx_wfD(1) [OF "3.prems"(1)] "3.prems"(2) st]]
  note i2 = inside_trans [OF i1 outside_inside [OF "3.IH"(1) [OF st insideD(2) [OF i1] s]]]
  have "chain (acx_st cx1) \<noteq> []" using insideD(5) [OF i2] "3.prems"(2) by simp
  from "3.IH"(2) [OF st s insideD(2) [OF i2] this rest] show ?case by (rule inside_trans [OF i2])
qed

section \<open>Programs\<close>

lemma keeps_ofd: "keeps cx cx' \<Longrightarrow> \<exists>code. acx_ofd cx' = acx_ofd cx @ code"
  by (simp add: keeps_def)

lemma initial_acx_wf: "stab_wf st \<Longrightarrow> pv_list (vars st) = [] \<Longrightarrow> acx_wf (initial_acx st)"
  using length_pv_list [of "vars st"]
  by (simp add: acx_wf_def initial_acx_def display_ok_def reg_init_def del: length_pv_list)

lemma globals_wf:
  assumes st: "stab_new = Inr st" and g: "analyze_globals (initial_acx st) prog = Inr (off, cx)"
  shows "acx_wf cx" and "chain (acx_st cx) = [0]" and "\<exists>code. acx_ofd cx = Verbatim output_header # code"
    and "\<not> acx_toplevel cx"
proof -
  from stab_new_wf obtain st' where st': "stab_new = Inr st'" "stab_wf st'" "chain st' = []"
    "pv_list (vars st') = []" "pv_list (scopes st') = []" by blast
  have eq: "st' = st" by (rule Inr_inject) (rule trans [OF sym [OF st'(1)] st])
  note st_wf = st'(2-5) [unfolded eq]
  let ?cx = "initial_acx st"
  have wf: "acx_wf ?cx" by (rule initial_acx_wf [OF st_wf(1,3)])
  from g obtain cxa cxb cxc where a: "enter ?cx = Inr cxa" "do_imports cxa (p_args prog) = Inr cxb"
    "add_types cxb (p_types prog) = Inr cxc" "add_decls cxc (p_decls prog) 0 True = Inr (off, cx)"
    by (auto simp: analyze_globals_def)
  have len: "pv_length (scopes st) = 0" using st_wf(4) by (metis length_pv_list list.size(3))
  have ia: "acx_wf cxa" "chain (acx_st cxa) = [0]" "acx_ofd cxa = [Verbatim output_header]" "\<not> acx_toplevel cxa"
    using a(1) stab_enter_wf [OF st_wf(1)] wf st_wf(2) len
    by (auto simp: acx_wf_def display_ok_def initial_acx_def elim!: enterE)
  have ib: "inside cxa cxb" by (rule do_imports_inside [OF ia(1) _ a(2)]) (simp add: ia(2))
  have ic: "inside cxb cxc"
    by (rule add_types_inside [OF insideD(2) [OF ib] _ a(3)]) (simp add: insideD(5) [OF ib] ia(2))
  note iac = inside_trans [OF ib ic]
  have i1: "inside cxc cx"
    by (rule add_decls_inside [OF insideD(2) [OF ic] _ a(4)]) (simp add: insideD(5) [OF iac] ia(2))
  note ia1 = inside_trans [OF iac i1]
  show "acx_wf cx" by (rule insideD(2) [OF i1])
  show "chain (acx_st cx) = [0]" using insideD(5) [OF ia1] ia(2) by simp
  show "\<exists>code. acx_ofd cx = Verbatim output_header # code"
    using keeps_ofd [OF insideD(1) [OF ia1]] ia(3) by auto
  show "\<not> acx_toplevel cx" using insideD(1) [OF ia1] ia(4) by (simp add: keeps_def)
qed

lemma analyze_inside:
  assumes "analyze prog = Inr cx"
  shows "acx_wf cx" and "chain (acx_st cx) = [0]" and "\<exists>code. acx_ofd cx = Verbatim output_header # code"
proof -
  from assms obtain st off cx1 cx2 where st: "stab_new = Inr st"
    and g: "analyze_globals (initial_acx st) prog = Inr (off, cx1)"
    and s: "analyze_subprogs cx1 (p_subprogs prog) = Inr cx2"
    and m: "analyze_main cx2 off (p_body prog) = Inr cx"
    by (auto simp: analyze_def)
  note g1 = globals_wf [OF st g]
  have i2: "inside cx1 cx2" by (rule analyze_subprog_outside(2) [OF g1(1) _ s]) (simp add: g1(2))
  let ?pro = "emit [Verbatim (''global main'' @ nl @ ''main:'' @ nl @ ''mov rbp, rsp'' @ nl),
                     Verbatim ('';'' @ nl), Op2 ''sub'' (Reg ''rsp'') (Imm off)] cx2"
  from m obtain i sc cx3 cx4 where top: "top_scope (acx_st cx2) = Inr (i, sc)"
    and d: "init_display ?pro (hforeach (sc_vars sc)) = Inr cx3"
    and b: "analyze_stmt (cx3\<lparr>acx_toplevel := True\<rparr>) (p_body prog) = Inr cx4"
    and cx: "cx = emit [Verbatim (''; and we're done!'' @ nl), Op2 ''mov'' (Reg ''rax'') (Imm 60),
                 Op2 ''xor'' (Reg ''rdi'') (Reg ''rdi''), Op0 ''syscall''] cx4"
    by (auto simp: analyze_main_def Let_def)
  note ip = inside_emit_after [OF i2]
  note i3 = inside_trans [OF ip init_display_inside [OF insideD(2) [OF ip] d]]
  have w3: "acx_wf (cx3\<lparr>acx_toplevel := True\<rparr>)" using insideD(2) [OF i3] by (simp add: acx_wf_def display_ok_def)
  note i4 = inside_emit_after [OF inside_stmt [OF w3 b]]
  show "acx_wf cx" unfolding cx by (rule insideD(2) [OF i4])
  show "chain (acx_st cx) = [0]"
    unfolding cx using insideD(5) [OF i4] insideD(5) [OF i3] g1(2) by simp
  have "\<exists>code. acx_ofd cx3 = Verbatim output_header # code"
    using keeps_ofd [OF insideD(1) [OF i3]] g1(3) by auto
  then show "\<exists>code. acx_ofd cx = Verbatim output_header # code"
    unfolding cx using keeps_ofd [OF insideD(1) [OF inside_stmt [OF w3 b]]] by auto
qed

end
