(* ===== verification/Typing.thy ===== *)
theory Typing
  imports AcxWf
begin

text \<open>
  The static semantics the analysis implements, without registers, code or a symbol table that
  changes: \<open>expr_type\<close> and \<open>stmt_ok\<close> over a fixed environment. The theorems say that the analysis of
  an expression or a statement succeeds exactly when they accept it, with the type they give.
\<close>

section \<open>Environments\<close>

text \<open>
  The types of the visible variables, the ids of the visible subprograms, the entries of the types,
  the types of the parameters, the comparison of types, and the names of the innermost scope.
\<close>

record tenv =
  te_var :: "string \<Rightarrow> int option"
  te_func :: "string \<Rightarrow> int option"
  te_type :: "int \<Rightarrow> stab_type option"
  te_param :: "int \<Rightarrow> int option"
  te_eq :: "int \<Rightarrow> int \<Rightarrow> bool option"

definition ok_of :: "'a result \<Rightarrow> 'a option" where
  "ok_of r = (case r of Inl _ \<Rightarrow> None | Inr x \<Rightarrow> Some x)"

lemma ok_of_simps [simp]: "ok_of (Inl e) = None" "ok_of (Inr x) = Some x"
  by (simp_all add: ok_of_def)

lemma ok_of_bindr: "ok_of (bindr m f) = Option.bind (ok_of m) (\<lambda>x. ok_of (f x))"
  by (cases m) simp_all

lemma ok_of_Some: "ok_of m = Some x \<longleftrightarrow> m = Inr x"
  by (cases m) simp_all

lemma ok_of_None: "ok_of m = None \<longleftrightarrow> (\<exists>e. m = Inl e)"
  by (cases m) simp_all

definition tenv_of :: "stab \<Rightarrow> tenv" where
  "tenv_of st =
     \<lparr>te_var = (\<lambda>n. map_option (\<lambda>i. sv_type (var_nth st i)) (env_of sc_vars st n)),
      te_func = env_of sc_funcs st,
      te_type = (\<lambda>i. ok_of (STAB_TYPE st i)),
      te_param = (\<lambda>i. map_option sv_type (ok_of (STAB_VAR st i))),
      te_eq = (\<lambda>a b. ok_of (stab_types_eq st a b))\<rparr>"

section \<open>Paths\<close>

fun field_type :: "tenv \<Rightarrow> (string \<times> int) list \<Rightarrow> string \<Rightarrow> int option" where
  "field_type te [] n = None"
| "field_type te ((f, ty) # fs) n =
     (if f = n then Some ty else if te_type te ty = None then None else field_type te fs n)"

text \<open>
  The names looked up as fields are all components but the last, the first one included: the loop's
  \<open>continue\<close> leaves it one component behind.
\<close>

fun fields_ok :: "tenv \<Rightarrow> stab_resolved_type \<Rightarrow> string list \<Rightarrow> bool" where
  "fields_ok te ty [] = True"
| "fields_ok te ty (n # ns) =
     (is_record ty \<and>
      (case Option.bind (field_type te (rr_fields ty) n) (te_type te) of
         None \<Rightarrow> False
       | Some t \<Rightarrow> (case st_ty t of
             R_POINTER q \<Rightarrow> (case te_type te q of None \<Rightarrow> False | Some qt \<Rightarrow> fields_ok te (st_ty qt) ns)
           | ty' \<Rightarrow> fields_ok te ty' ns)))"

definition path_type :: "tenv \<Rightarrow> ast_path \<Rightarrow> int option" where
  "path_type te p =
     (if p = [] then None else
      Option.bind (te_var te (hd p)) (\<lambda>ty.
      Option.bind (te_type te ty) (\<lambda>t.
      if fields_ok te (st_ty t) (butlast p) then Some ty else None)))"

section \<open>Expressions\<close>

definition supported :: "token \<Rightarrow> bool" where
  "supported op \<longleftrightarrow> is_relop op \<or> op \<in> {T_AND, T_OR, T_DIV, Ch CHR ''/'', T_MOD, Ch CHR ''+'', Ch CHR ''-'', Ch CHR ''*''}"

text \<open>A call of a built-in procedure has no register for its result, nor has what is computed in place of it.\<close>

fun no_reg :: "tenv \<Rightarrow> ast_expr \<Rightarrow> bool" where
  "no_reg te (EXPR_APP p args) \<longleftrightarrow>
     (case Option.bind (te_func te (last p)) (te_type te) of None \<Rightarrow> False | Some t \<Rightarrow> st_magic t \<noteq> 0)"
| "no_reg te (EXPR_BIN l op r) \<longleftrightarrow> no_reg te l"
| "no_reg te (EXPR_IDX p e) \<longleftrightarrow> no_reg te e"
| "no_reg te (EXPR_UN op e) \<longleftrightarrow> no_reg te e"
| "no_reg te _ \<longleftrightarrow> False"

definition printable :: "int \<Rightarrow> bool" where
  "printable ty \<longleftrightarrow> ty \<in> {INTEGER_TYPE_IDX, REAL_TYPE_IDX, STRING_TYPE_IDX, BOOLEAN_TYPE_IDX, CHAR_TYPE_IDX, VOID_TYPE_IDX}"

fun expr_type :: "tenv \<Rightarrow> ast_expr \<Rightarrow> int option"
  and call_type :: "tenv \<Rightarrow> ast_path \<Rightarrow> ast_expr list \<Rightarrow> int option"
  and write_ok :: "tenv \<Rightarrow> ast_expr list \<Rightarrow> bool"
  and read_ok :: "tenv \<Rightarrow> ast_expr list \<Rightarrow> bool"
  and args_ok :: "tenv \<Rightarrow> ast_expr list \<Rightarrow> int list \<Rightarrow> bool" where
  "expr_type te (EXPR_APP p args) = call_type te p args"
| "expr_type te (EXPR_BIN l op r) =
     Option.bind (expr_type te l) (\<lambda>a.
     Option.bind (expr_type te r) (\<lambda>b.
     if a = b \<and> supported op \<and> \<not> (is_relop op \<and> no_reg te r)
     then Some (if is_relop op then BOOLEAN_TYPE_IDX else a) else None))"
| "expr_type te (EXPR_DEREF e) =
     Option.bind (ok_of (expr_path e)) (\<lambda>p.
     Option.bind (path_type te p) (\<lambda>ty.
     Option.bind (te_type te ty) (\<lambda>t. case st_ty t of R_POINTER q \<Rightarrow> Some q | _ \<Rightarrow> None)))"
| "expr_type te (EXPR_IDX p e) =
     Option.bind (path_type te p) (\<lambda>ty.
     Option.bind (te_type te ty) (\<lambda>t. case st_ty t of
         R_ARRAY _ _ elt \<Rightarrow> if expr_type te e = Some INTEGER_TYPE_IDX then Some elt else None
       | _ \<Rightarrow> None))"
| "expr_type te (EXPR_LIT lit) = Some INTEGER_TYPE_IDX"
| "expr_type te (EXPR_PATH p) = path_type te p"
| "expr_type te (EXPR_UN op e) =
     (if op \<noteq> T_NOT \<and> expr_type te e = Some BOOLEAN_TYPE_IDX then Some BOOLEAN_TYPE_IDX else None)"
| "expr_type te (EXPR_ADDROF e) = None"
| "call_type te p args =
     (if length p \<noteq> 1 then None else
      Option.bind (Option.bind (te_func te (last p)) (te_type te)) (\<lambda>t.
      if st_magic t = MAGIC_WRITE \<or> st_magic t = MAGIC_WRITELN then
        if write_ok te args then Some VOID_TYPE_IDX else None
      else if st_magic t = MAGIC_READ \<or> st_magic t = MAGIC_READLN then
        if read_ok te args then Some VOID_TYPE_IDX else None
      else if st_magic t \<noteq> 0 then None
      else case st_ty t of
          R_FUNCTION _ (Some ids) ret _ \<Rightarrow>
            if length args = length ids \<and> args_ok te args ids then Some ret else None
        | _ \<Rightarrow> None))"
| "write_ok te [] = True"
| "write_ok te (e # es) =
     ((case expr_type te e of None \<Rightarrow> False | Some ty \<Rightarrow> printable ty) \<and> write_ok te es)"
| "read_ok te [] = True"
| "read_ok te (e # es) =
     (is_lvalue e \<and> (case expr_type te e of None \<Rightarrow> False | Some ty \<Rightarrow> printable ty) \<and> read_ok te es)"
| "args_ok te (e # es) (i # ids) =
     ((case expr_type te e of None \<Rightarrow> False | Some ty \<Rightarrow>
         (case te_param te i of None \<Rightarrow> False | Some pty \<Rightarrow> te_eq te ty pty \<noteq> None)) \<and> args_ok te es ids)"
| "args_ok te _ _ = True"

section \<open>The environment does not change\<close>

lemma STAB_TYPE_cong: "types st' = types st \<Longrightarrow> STAB_TYPE st' i = STAB_TYPE st i"
  by (simp add: STAB_TYPE_def)

lemma types_eq_cong: "types st' = types st \<Longrightarrow> types_eq_fuel n st' a b = types_eq_fuel n st a b"
proof (induction n arbitrary: a b)
  case (Suc n)
  show ?case
    unfolding types_eq_fuel.simps STAB_TYPE_cong [OF Suc.prems]
    by (intro bindr_cong HOL.refl) (simp add: Suc.IH [OF Suc.prems] split: stab_resolved_type.split)
qed simp

lemma quiet_STAB_VAR:
  assumes wf: "stab_wf st" "stab_wf st'" and q: "quiet st st'"
  shows "map_option sv_type (ok_of (STAB_VAR st' i)) = map_option sv_type (ok_of (STAB_VAR st i))"
proof (cases "id_ok (nvars st) i")
  case True
  with q have "id_ok (nvars st') i" by (simp add: quiet_simps)
  with True quiet_var_sig [OF q True] show ?thesis
    by (simp add: STAB_VAR_ok [OF wf(1)] STAB_VAR_ok [OF wf(2)] var_sig_def)
next
  case False
  with q have f: "\<not> id_ok (nvars st') i" by (simp add: quiet_simps)
  have "ok_of (STAB_VAR st i) = None" using STAB_VAR_Inr(1) [OF wf(1)] False by (cases "STAB_VAR st i") auto
  moreover have "ok_of (STAB_VAR st' i) = None" using STAB_VAR_Inr(1) [OF wf(2)] f by (cases "STAB_VAR st' i") auto
  ultimately show ?thesis by simp
qed

lemma quiet_tenv:
  assumes wf: "stab_wf st" "stab_wf st'" and q: "quiet st st'"
  shows "tenv_of st' = tenv_of st"
proof -
  note ty = quiet_simps(2) [OF q]
  have "map_option (\<lambda>i. sv_type (var_nth st' i)) (env_of sc_vars st n)
      = map_option (\<lambda>i. sv_type (var_nth st i)) (env_of sc_vars st n)" for n
    using quiet_var_sig [OF q env_of_ok(1) [OF wf(1), of n]]
    by (cases "env_of sc_vars st n") (simp_all add: var_sig_def)
  then have v: "(\<lambda>n. map_option (\<lambda>i. sv_type (var_nth st' i)) (env_of sc_vars st n))
      = (\<lambda>n. map_option (\<lambda>i. sv_type (var_nth st i)) (env_of sc_vars st n))" by (rule ext)
  show ?thesis
    by (simp add: tenv_of_def v quiet_env [OF wf(1) q] STAB_TYPE_cong [OF ty] quiet_STAB_VAR [OF wf q]
        stab_types_eq_def types_eq_cong [OF ty] ty)
qed

lemma calm_tenv:
  assumes "acx_wf cx" and "calm cx cx'"
  shows "acx_wf cx'" and "tenv_of (acx_st cx') = tenv_of (acx_st cx)"
  using assms quiet_tenv acx_wfD(1) by (auto simp: calm_def)

lemma te_type_Some: "te_type (tenv_of st) i = Some t \<longleftrightarrow> STAB_TYPE st i = Inr t"
  by (simp add: tenv_of_def ok_of_Some)

lemma te_var_Some: "te_var (tenv_of st) n = Some ty \<longleftrightarrow> (\<exists>i. env_of sc_vars st n = Some i \<and> ty = sv_type (var_nth st i))"
  by (auto simp: tenv_of_def)

lemma STAB_TYPE_not_ref:
  assumes wf: "stab_wf st" and t: "STAB_TYPE st i = Inr t"
  shows "st_ty t \<noteq> R_REF"
proof -
  note i = STAB_TYPE_Inr [OF wf t]
  then have "nat i < length (pv_list (types st))" by (auto simp: id_ok_def nat_less_iff)
  from stab_wfD(7) [OF wf, unfolded types_wf_def, rule_format, OF this] i(2)
  have "rtype_wf (nvars st) (int (nat i)) (st_ty t)" by (simp only: type_nth_def)
  then show ?thesis by (auto simp: rtype_wf_def)
qed

section \<open>Paths have the type the environment gives\<close>

lemma size_of_type_ok:
  assumes "stab_wf (acx_st cx)"
  shows "(\<exists>n. size_of_type cx ty = Inr n) \<longleftrightarrow> te_type (tenv_of (acx_st cx)) ty \<noteq> None"
  using STAB_TYPE_not_ref [OF assms, of ty]
  by (cases "STAB_TYPE (acx_st cx) ty")
    (auto simp: size_of_type_def tenv_of_def split: stab_resolved_type.splits)

lemma find_field_type:
  assumes "stab_wf (acx_st cx)"
  shows "(\<exists>off'. find_field cx fs n off = Inr (Some (ty, off'))) \<longleftrightarrow> field_type (tenv_of (acx_st cx)) fs n = Some ty"
proof (induction fs arbitrary: off)
  case (Cons f fs)
  obtain g tg where f: "f = (g, tg)" by fastforce
  show ?case
  proof (cases "size_of_type cx tg")
    case (Inl e)
    with size_of_type_ok [OF assms, of tg] show ?thesis by (simp add: f)
  next
    case (Inr k)
    with size_of_type_ok [OF assms, of tg] Cons.IH show ?thesis by (auto simp: f)
  qed
qed simp

lemma path_loop_ok:
  "stab_wf (acx_st cx) \<Longrightarrow> rest \<noteq> [] \<Longrightarrow>
   (\<exists>cx'. path_loop cx r ty False (length ns) (ns @ rest) = Inr cx') \<longleftrightarrow> fields_ok (tenv_of (acx_st cx)) ty ns"
proof (induction ns arbitrary: cx ty)
  case Nil
  then show ?case by simp
next
  case (Cons n ns)
  let ?te = "tenv_of (acx_st cx)"
  have ne: "ns @ rest \<noteq> []" using Cons.prems(2) by simp
  show ?case
  proof (cases "is_record ty")
    case False
    with ne show ?thesis by simp
  next
    case rec: True
    show ?thesis
    proof (cases "field_type ?te (rr_fields ty) n")
      case None
      with find_field_type [OF Cons.prems(1), of "rr_fields ty" n 0] rec ne show ?thesis
        by (cases "find_field cx (rr_fields ty) n 0") (auto split: option.splits)
    next
      case (Some fty)
      then obtain off where off: "find_field cx (rr_fields ty) n 0 = Inr (Some (fty, off))"
        using find_field_type [OF Cons.prems(1)] by blast
      note IH = Cons.IH [OF _ Cons.prems(2), of "emit code cx" for code, simplified, OF Cons.prems(1)]
      show ?thesis
      proof (cases "STAB_TYPE (acx_st cx) fty")
        case (Inl e)
        with rec ne off Some show ?thesis by (simp add: tenv_of_def)
      next
        case (Inr t)
        then have te: "te_type ?te fty = Some t" by (simp add: te_type_Some)
        show ?thesis
        proof (cases "\<exists>p. st_ty t = R_POINTER p")
          case True
          then obtain p where p: "st_ty t = R_POINTER p" ..
          show ?thesis using rec ne off Some Inr te p IH
            by (cases "STAB_TYPE (acx_st cx) p") (auto simp: tenv_of_def ok_of_Some)
        next
          case False
          then show ?thesis using rec ne off Some Inr te IH
            by (simp split: stab_resolved_type.split)
        qed
      qed
    qed
  qed
qed

definition ty_of :: "(resu \<times> acx) result \<Rightarrow> int option" where
  "ty_of m = map_option (\<lambda>(r, cx). re_type r) (ok_of m)"

lemma ty_of_simps [simp]: "ty_of (Inl e) = None" "ty_of (Inr (r, cx)) = Some (re_type r)"
  by (simp_all add: ty_of_def)

lemma ty_of_Some: "ty_of m = Some ty \<longleftrightarrow> (\<exists>r cx. m = Inr (r, cx) \<and> re_type r = ty)"
  by (cases m) (auto simp: ty_of_def)

lemma ty_of_None: "ty_of m = None \<longleftrightarrow> (\<exists>e. m = Inl e)"
  by (cases m) (auto simp: ty_of_def)

lemma load_var_ok:
  assumes wf: "acx_wf cx" and e: "env_of sc_vars (acx_st cx) n = Some i"
  shows "\<exists>cx'. load_var cx r n i = Inr cx'"
proof -
  note st = acx_wfD(1) [OF wf]
  have ne: "chain (acx_st cx) \<noteq> []" using e by (auto simp: env_of_def)
  have i: "id_ok (nvars (acx_st cx)) i" by (rule env_of_ok(1) [OF st e])
  then have "nat i < pv_length (vars (acx_st cx))" by (auto simp: id_ok_def nat_less_iff)
  then obtain vs where vs: "pv_write (vars (acx_st cx)) (nat i) ((var_nth (acx_st cx) i)
      \<lparr>sv_captured := True, sv_disp_offset := acx_disp_offset cx\<rparr>) = Inr vs"
    using pv_write_inv [OF stab_wfD(1) [OF st]] by blast
  then show ?thesis
    by (simp add: load_var_def stab_has_local_var_def has_local_map [OF st ne] STAB_VAR_ok [OF st i]
        stab_var_put_def del: not_None_eq)
qed

lemma type_of_path_type:
  assumes wf: "acx_wf cx"
  shows "ty_of (type_of_path cx p rv) = path_type (tenv_of (acx_st cx)) p"
proof (cases "p = []")
  case True
  then show ?thesis by (simp add: type_of_path_def path_type_def)
next
  case ne: False
  note st = acx_wfD(1) [OF wf]
  let ?te = "tenv_of (acx_st cx)"
  show ?thesis
  proof (cases "env_of sc_vars (acx_st cx) (hd p)")
    case None
    with ne show ?thesis
      by (simp add: type_of_path_def path_type_def resolve_env [OF st] CHKRES_def tenv_of_def)
  next
    case (Some i)
    note i = env_of_ok(1) [OF st Some]
    then have "i \<noteq> -1" by (auto simp: id_ok_def)
    then have chk: "CHKRES w (hd p) i = Inr i" for w by (simp add: CHKRES_def)
    obtain r cx1 where g: "reg_gimme cx = (r, cx1)" by fastforce
    note c1 = calm_tenv [OF wf calm.gimme [OF g]]
    have e1: "env_of sc_vars (acx_st cx1) (hd p) = Some i" by (simp add: reg_gimme_fields [OF g] Some)
    then obtain cx2 where l: "load_var cx1 r (hd p) i = Inr cx2" using load_var_ok [OF c1(1)] by blast
    have q: "calm cx cx2" by (rule calm.trans [OF calm.gimme [OF g] calm.loads [OF l]])
    note c2 = calm_tenv [OF wf q]
    from q wf have qt: "quiet (acx_st cx) (acx_st cx2)" by (simp add: calm_def)
    have v2: "STAB_VAR (acx_st cx2) i = Inr (var_nth (acx_st cx2) i)"
      by (rule STAB_VAR_ok [OF acx_wfD(1) [OF c2(1)]]) (simp add: quiet_simps [OF qt] i)
    let ?ty = "sv_type (var_nth (acx_st cx) i)"
    have ty: "sv_type (var_nth (acx_st cx2) i) = ?ty" using quiet_var_sig [OF qt i] by (simp add: var_sig_def)
    have te: "te_var ?te (hd p) = Some ?ty" by (simp add: tenv_of_def Some)
    have sT: "STAB_TYPE (acx_st cx2) ?ty = STAB_TYPE (acx_st cx) ?ty"
      by (rule STAB_TYPE_cong [OF quiet_simps(2) [OF qt]])
    show ?thesis
    proof (cases "STAB_TYPE (acx_st cx) ?ty")
      case (Inl e)
      with ne te show ?thesis
        by (simp add: type_of_path_def path_type_def resolve_env [OF st] Some chk g l v2 ty sT tenv_of_def)
    next
      case (Inr t)
      have p: "p = butlast p @ [last p]" "length p = Suc (length (butlast p))" using ne by simp_all
      have "path_loop cx2 r (st_ty t) True (length p) p = path_loop cx2 r (st_ty t) False (length (butlast p)) p"
        using ne by (subst p(2)) (cases p, simp_all)
      moreover have "(\<exists>cx'. path_loop cx2 r (st_ty t) False (length (butlast p)) p = Inr cx')
          \<longleftrightarrow> fields_ok ?te (st_ty t) (butlast p)"
        using path_loop_ok [OF acx_wfD(1) [OF c2(1)], of "[last p]" r "st_ty t" "butlast p"] ne c2(2) by simp
      ultimately show ?thesis
        using ne te Inr
        by (cases "path_loop cx2 r (st_ty t) False (length (butlast p)) p")
          (auto simp: type_of_path_def path_type_def resolve_env [OF st] Some chk g l v2 ty sT tenv_of_def)
    qed
  qed
qed

section \<open>Registers have names of two characters at least\<close>

lemma REGS_length: "i < NUM_REGS \<Longrightarrow> 2 \<le> length (REGS ! i)"
  by (auto simp: NUM_REGS_def REGS_def less_Suc_eq numeral_eq_Suc)

lemma first_unused_bound: "first_unused bs k = Some i \<Longrightarrow> k \<le> i \<and> i < k + length bs"
  by (induction bs k rule: first_unused.induct) (fastforce split: if_splits)+

lemma reg_gimme_name:
  assumes "length (rs_used (acx_rs cx)) = NUM_REGS" and "reg_gimme cx = (r, cx')"
  shows "2 \<le> length (r_name r)"
  using assms REGS_length [of 1] REGS_length first_unused_bound [of "rs_used (acx_rs cx)" 0]
  by (auto simp: reg_gimme_def Let_def NUM_REGS_def split: option.splits)

lemma te_func_resolve:
  assumes "stab_wf st"
  shows "stab_resolve_func st n = Inr (or_failure (te_func (tenv_of st) n))"
  by (simp add: resolve_env [OF assms] tenv_of_def)

lemma func_not_failure: "stab_wf st \<Longrightarrow> te_func (tenv_of st) n = Some i \<Longrightarrow> i \<noteq> -1"
  using env_of_ok(2) [of st n i] by (auto simp: tenv_of_def id_ok_def)

lemma type_of_path_name:
  assumes "acx_wf cx" and "type_of_path cx p rv = Inr (res, cx')"
  shows "2 \<le> length (r_name (re_reg res))"
  using assms(2) reg_gimme_name [OF acx_wfD(3) [OF assms(1)]] by (auto elim!: type_of_pathE)

lemma analyze_call_name:
  assumes wf: "acx_wf cx" and r: "analyze_call cx p args = Inr (res, cx')"
  shows "if no_reg (tenv_of (acx_st cx)) (EXPR_APP p args) then r_name (re_reg res) = ''''
         else 2 \<le> length (r_name (re_reg res))"
  using r
proof (cases rule: analyze_callE)
  case (magic pty pt)
  then have "te_func (tenv_of (acx_st cx)) (last p) = Some pty"
    using te_func_resolve [OF acx_wfD(1) [OF wf], of "last p"] by (cases "te_func (tenv_of (acx_st cx)) (last p)") auto
  with magic show ?thesis by (simp add: te_type_Some [THEN iffD2] void_resu_def)
next
  case (call pty pt ids cx1 r cx2)
  then have "te_func (tenv_of (acx_st cx)) (last p) = Some pty"
    using te_func_resolve [OF acx_wfD(1) [OF wf], of "last p"] by (cases "te_func (tenv_of (acx_st cx)) (last p)") auto
  moreover have "calm cx cx1"
    using calm.trans [OF calm.emits_any calm.analyze_frame(6) [OF call(8) [unfolded save_registers_def]]] .
  then have "2 \<le> length (r_name r)"
    using reg_gimme_name [OF acx_wfD(3) call(9)] calm_tenv(1) [OF wf] by blast
  ultimately show ?thesis using call by (simp add: te_type_Some [THEN iffD2])
qed

lemma analyze_expr_name:
  "acx_wf cx \<Longrightarrow> analyze_expr cx e rv = Inr (res, cx') \<Longrightarrow>
   if no_reg (tenv_of (acx_st cx)) e then r_name (re_reg res) = '''' else 2 \<le> length (r_name (re_reg res))"
proof (induction e arbitrary: cx rv res cx')
  case (EXPR_APP p args)
  then show ?case by (simp add: analyze_expr.simps(1) analyze_call_name del: no_reg.simps)
next
  case (EXPR_BIN l op r)
  from EXPR_BIN.prems(2) show ?case
    by (rule analyze_binE) (use EXPR_BIN.IH(1) [OF EXPR_BIN.prems(1)] in fastforce)
next
  case (EXPR_DEREF e)
  from EXPR_DEREF.prems(2) show ?case
    by (rule analyze_derefE) (simp add: type_of_path_name [OF EXPR_DEREF.prems(1)])
next
  case (EXPR_IDX p e)
  from EXPR_IDX.prems(2) show ?case
  proof (rule analyze_idxE)
    fix pathty cx1 t lo up elt ety cx2
    assume a: "type_of_path cx p False = Inr (pathty, cx1)" "analyze_expr cx1 e True = Inr (ety, cx2)"
      and r: "res = \<lparr>re_type = elt, re_reg = re_reg ety\<rparr>"
    note c = calm_tenv [OF EXPR_IDX.prems(1) calm.type_of_path_frame [OF a(1)]]
    show ?thesis using EXPR_IDX.IH [OF c(1) a(2)] by (simp add: r c(2))
  qed
next
  case (EXPR_LIT lit)
  from EXPR_LIT.prems(2) show ?case
    by (rule analyze_litE) (simp add: reg_gimme_name [OF acx_wfD(3) [OF EXPR_LIT.prems(1)]])
next
  case (EXPR_PATH p)
  then show ?case by (simp add: analyze_expr.simps type_of_path_name)
next
  case (EXPR_UN op e)
  from EXPR_UN.prems(2) show ?case
    by (rule analyze_unE) (use EXPR_UN.IH [OF EXPR_UN.prems(1)] in fastforce)
next
  case (EXPR_ADDROF e)
  then show ?case by (simp add: analyze_expr.simps)
qed

section \<open>Expressions have the type the environment gives\<close>

abbreviation succeeds :: "'a result \<Rightarrow> bool" where
  "succeeds m \<equiv> \<exists>x. m = Inr x"

abbreviation te_cx :: "acx \<Rightarrow> tenv" where
  "te_cx cx \<equiv> tenv_of (acx_st cx)"

lemma bin_code_ok: "succeeds (bin_code op l r) \<longleftrightarrow> supported op \<and> (is_relop op \<longrightarrow> 2 \<le> length r)"
  by (auto simp: bin_code_def supported_def low8_def)

lemma io_routine_ok: "succeeds (io_routine w ty) \<longleftrightarrow> printable ty"
  by (auto simp: io_routine_def printable_def)

lemma print_type_ok: "stab_wf st \<Longrightarrow> STAB_TYPE st i = Inr t \<Longrightarrow> succeeds (stab_print_type st i n)"
  using STAB_TYPE_not_ref [of st i t] by (auto simp: stab_print_type_def split: stab_resolved_type.split)

lemma types_eq_types: "stab_types_eq st a b = Inr same \<Longrightarrow> succeeds (STAB_TYPE st a) \<and> succeeds (STAB_TYPE st b)"
  by (auto simp: stab_types_eq_def)

lemma arg_mismatch_ok:
  assumes "stab_wf st" "succeeds (STAB_TYPE st pty)" "stab_types_eq st b a = Inr same"
  shows "succeeds (arg_mismatch st pty i a b)"
proof -
  from types_eq_types [OF assms(3)] assms(2) obtain t1 t2 t3 where
    "STAB_TYPE st pty = Inr t1" "STAB_TYPE st a = Inr t2" "STAB_TYPE st b = Inr t3" by auto
  from this [THEN print_type_ok [OF assms(1)]] obtain d1 d2 d3 where
    "stab_print_type st pty 0 = Inr d1" "stab_print_type st a INDSZ = Inr d2" "stab_print_type st b INDSZ = Inr d3"
    by meson
  then show ?thesis by (simp add: arg_mismatch_def)
qed

text \<open>A step that keeps the invariant, as the two facts about the context after it.\<close>

lemma after_expr:
  assumes "acx_wf cx" and "analyze_expr cx e rv = Inr (r, cx')"
  shows "acx_wf cx'" and "te_cx cx' = te_cx cx" and "quiet (acx_st cx) (acx_st cx')"
  using calm_tenv [OF assms(1) calm.analyze_frame(1) [OF assms(2)]] calm.analyze_frame(1) [OF assms(2)] assms(1)
  by (auto simp: calm_def)

lemma after_path:
  assumes "acx_wf cx" and "type_of_path cx p rv = Inr (r, cx')"
  shows "acx_wf cx'" and "te_cx cx' = te_cx cx"
  using calm_tenv [OF assms(1) calm.type_of_path_frame [OF assms(2)]] by auto

lemma after_takeback:
  assumes "acx_wf cx"
  shows "acx_wf (reg_takeitback (emit code cx) r)" and "te_cx (reg_takeitback (emit code cx) r) = te_cx cx"
  using calm_tenv [OF assms calm.takeback_after [OF calm.emits_any]] by auto

lemma after_emit: "acx_wf cx \<Longrightarrow> acx_wf (emit code cx)"
  by (rule calm_tenv(1) [OF _ calm.emits_any])

lemma after_diag: "acx_wf cx \<Longrightarrow> acx_wf (diag es cx)"
  by (rule calm_tenv(1) [OF _ calm.diags])

lemma te_type_cx: "te_type (te_cx cx) i = ok_of (STAB_TYPE (acx_st cx) i)"
  by (simp add: tenv_of_def)

lemma typing_bin:
  assumes l: "acx_wf cx \<Longrightarrow> ty_of (analyze_expr cx left True) = expr_type (te_cx cx) left"
    and r: "\<And>lty cx1. analyze_expr cx left True = Inr (lty, cx1) \<Longrightarrow> acx_wf cx1 \<Longrightarrow>
      ty_of (analyze_expr cx1 right True) = expr_type (te_cx cx1) right"
    and wf: "acx_wf cx"
  shows "ty_of (analyze_expr cx (EXPR_BIN left op right) rv) = expr_type (te_cx cx) (EXPR_BIN left op right)"
proof (cases "analyze_expr cx left True")
  case (Inl e)
  with l [OF wf] show ?thesis by (simp add: analyze_expr.simps)
next
  case (Inr x)
  then obtain lty cx1 where la: "analyze_expr cx left True = Inr (lty, cx1)" by (cases x) simp
  note c1 = after_expr [OF wf la]
  have lt: "expr_type (te_cx cx) left = Some (re_type lty)" using l [OF wf] la by simp
  show ?thesis
  proof (cases "analyze_expr cx1 right True")
    case (Inl e)
    with r [OF la c1(1)] lt la show ?thesis by (simp add: analyze_expr.simps c1(2))
  next
    case (Inr y)
    then obtain rty cx2 where ra: "analyze_expr cx1 right True = Inr (rty, cx2)" by (cases y) simp
    have rt: "expr_type (te_cx cx) right = Some (re_type rty)" using r [OF la c1(1)] ra by (simp add: c1(2))
    let ?b = "bin_code op (r_name (re_reg lty)) (r_name (re_reg rty))"
    have b: "succeeds ?b \<longleftrightarrow> supported op \<and> \<not> (is_relop op \<and> no_reg (te_cx cx) right)"
      unfolding bin_code_ok using analyze_expr_name [OF c1(1) ra] by (auto simp: c1(2) split: if_splits)
    show ?thesis
    proof (cases "re_type lty = re_type rty")
      case True
      with la ra lt rt b show ?thesis by (cases ?b) (auto simp: analyze_expr.simps)
    next
      case False
      have "ty_of (analyze_expr cx (EXPR_BIN left op right) rv) = None"
        unfolding ty_of_None using la ra False
        by (cases "stab_print_type (acx_st cx2) (re_type lty) INDSZ";
            cases "stab_print_type (acx_st cx2) (re_type rty) INDSZ") (simp_all add: analyze_expr.simps)
      with lt rt False show ?thesis by simp
    qed
  qed
qed

lemma typing_deref:
  assumes wf: "acx_wf cx"
  shows "ty_of (analyze_expr cx (EXPR_DEREF e) rv) = expr_type (te_cx cx) (EXPR_DEREF e)"
proof (cases "expr_path e")
  case (Inl x)
  then show ?thesis by (simp add: analyze_expr.simps)
next
  case (Inr p)
  show ?thesis
  proof (cases "type_of_path cx p False")
    case (Inl x)
    with type_of_path_type [OF wf, of p False] \<open>expr_path e = Inr p\<close> show ?thesis by (simp add: analyze_expr.simps)
  next
    case (Inr x)
    then obtain pt cx1 where pa: "type_of_path cx p False = Inr (pt, cx1)" by (cases x) simp
    note c1 = after_path [OF wf pa]
    have P: "path_type (te_cx cx) p = Some (re_type pt)" using type_of_path_type [OF wf, of p False] pa by simp
    have "te_type (te_cx cx) (re_type pt) = ok_of (STAB_TYPE (acx_st cx1) (re_type pt))"
      by (simp add: c1(2) [symmetric] te_type_cx)
    with P pa \<open>expr_path e = Inr p\<close> show ?thesis
      by (cases "STAB_TYPE (acx_st cx1) (re_type pt)")
        (auto simp: analyze_expr.simps split: stab_resolved_type.split)
  qed
qed

lemma typing_idx:
  assumes IH: "\<And>pt cx1. type_of_path cx p False = Inr (pt, cx1) \<Longrightarrow> acx_wf cx1 \<Longrightarrow>
      succeeds (STAB_TYPE (acx_st cx1) (re_type pt)) \<Longrightarrow>
      (\<And>t. STAB_TYPE (acx_st cx1) (re_type pt) = Inr t \<Longrightarrow> \<exists>lo up elt. st_ty t = R_ARRAY lo up elt) \<Longrightarrow>
      ty_of (analyze_expr cx1 e True) = expr_type (te_cx cx1) e"
    and wf: "acx_wf cx"
  shows "ty_of (analyze_expr cx (EXPR_IDX p e) rv) = expr_type (te_cx cx) (EXPR_IDX p e)"
proof (cases "type_of_path cx p False")
  case (Inl x)
  with type_of_path_type [OF wf, of p False] show ?thesis by (simp add: analyze_expr.simps)
next
  case (Inr x)
  then obtain pt cx1 where pa: "type_of_path cx p False = Inr (pt, cx1)" by (cases x) simp
  note c1 = after_path [OF wf pa]
  have T: "te_type (te_cx cx) (re_type pt) = ok_of (STAB_TYPE (acx_st cx1) (re_type pt))"
    by (simp add: c1(2) [symmetric] te_type_cx)
  have P: "path_type (te_cx cx) p = Some (re_type pt)" using type_of_path_type [OF wf, of p False] pa by simp
  show ?thesis
  proof (cases "\<exists>t lo up elt. STAB_TYPE (acx_st cx1) (re_type pt) = Inr t \<and> st_ty t = R_ARRAY lo up elt")
    case True
    then obtain t lo up elt where t: "STAB_TYPE (acx_st cx1) (re_type pt) = Inr t" "st_ty t = R_ARRAY lo up elt"
      by blast
    have "ty_of (analyze_expr cx1 e True) = expr_type (te_cx cx) e"
      using IH [OF pa c1(1)] t c1(2) by auto
    with P T pa t show ?thesis
      by (cases "analyze_expr cx1 e True") (auto simp: analyze_expr.simps split: prod.splits)
  next
    case False
    then have "ty_of (analyze_expr cx (EXPR_IDX p e) rv) = None"
      unfolding ty_of_None using pa
      by (cases "STAB_TYPE (acx_st cx1) (re_type pt)"; cases "stab_print_type (acx_st cx1) (re_type pt) 0")
        (auto simp: analyze_expr.simps split: stab_resolved_type.split)
    moreover have "expr_type (te_cx cx) (EXPR_IDX p e) = None"
      using P T False by (cases "STAB_TYPE (acx_st cx1) (re_type pt)") (auto split: stab_resolved_type.split)
    ultimately show ?thesis by simp
  qed
qed

lemma typing_write:
  assumes e: "acx_wf cx \<Longrightarrow> ty_of (analyze_expr cx e True) = expr_type (te_cx cx) e"
    and es: "\<And>r cx1 f. analyze_expr cx e True = Inr (r, cx1) \<Longrightarrow> io_routine ''write'' (re_type r) = Inr f \<Longrightarrow>
      acx_wf (reg_takeitback (emit (io_call (r_name (re_reg r)) f) cx1) (re_reg r)) \<Longrightarrow>
      succeeds (magic_write (reg_takeitback (emit (io_call (r_name (re_reg r)) f) cx1) (re_reg r)) es)
      \<longleftrightarrow> write_ok (te_cx (reg_takeitback (emit (io_call (r_name (re_reg r)) f) cx1) (re_reg r))) es"
    and wf: "acx_wf cx"
  shows "succeeds (magic_write cx (e # es)) \<longleftrightarrow> write_ok (te_cx cx) (e # es)"
proof (cases "analyze_expr cx e True")
  case (Inl x)
  with e [OF wf] show ?thesis by (simp add: magic_write.simps)
next
  case (Inr x)
  then obtain r cx1 where a: "analyze_expr cx e True = Inr (r, cx1)" by (cases x) simp
  note c1 = after_expr [OF wf a]
  have t: "expr_type (te_cx cx) e = Some (re_type r)" using e [OF wf] a by simp
  show ?thesis
  proof (cases "io_routine ''write'' (re_type r)")
    case (Inl x)
    with a t io_routine_ok [of "''write''" "re_type r"] show ?thesis by (simp add: magic_write.simps)
  next
    case (Inr f)
    note c2 = after_takeback [OF c1(1), of "io_call (r_name (re_reg r)) f" "re_reg r"]
    from es [OF a Inr c2(1)] a t Inr io_routine_ok [of "''write''" "re_type r"] show ?thesis
      by (simp add: magic_write.simps c1(2))
  qed
qed

lemma typing_read:
  assumes e: "is_lvalue e \<Longrightarrow> acx_wf cx \<Longrightarrow> ty_of (analyze_expr cx e False) = expr_type (te_cx cx) e"
    and es: "\<And>r cx1 f code. is_lvalue e \<Longrightarrow> analyze_expr cx e False = Inr (r, cx1) \<Longrightarrow>
      io_routine ''read'' (re_type r) = Inr f \<Longrightarrow>
      code = io_call (r_name (re_reg r)) f @ (if which = MAGIC_READLN then [Call ''read_newline@''] else []) \<Longrightarrow>
      acx_wf (reg_takeitback (emit code cx1) (re_reg r)) \<Longrightarrow>
      succeeds (magic_read (reg_takeitback (emit code cx1) (re_reg r)) which es)
      \<longleftrightarrow> read_ok (te_cx (reg_takeitback (emit code cx1) (re_reg r))) es"
    and wf: "acx_wf cx"
  shows "succeeds (magic_read cx which (e # es)) \<longleftrightarrow> read_ok (te_cx cx) (e # es)"
proof (cases "is_lvalue e")
  case False
  then show ?thesis by (simp add: magic_read.simps)
next
  case lv: True
  show ?thesis
  proof (cases "analyze_expr cx e False")
    case (Inl x)
    with e [OF lv wf] show ?thesis by (simp add: magic_read.simps)
  next
    case (Inr x)
    then obtain r cx1 where a: "analyze_expr cx e False = Inr (r, cx1)" by (cases x) simp
    note c1 = after_expr [OF wf a]
    have t: "expr_type (te_cx cx) e = Some (re_type r)" using e [OF lv wf] a by simp
    show ?thesis
    proof (cases "io_routine ''read'' (re_type r)")
      case (Inl x)
      with a t io_routine_ok [of "''read''" "re_type r"] show ?thesis by (simp add: magic_read.simps)
    next
      case (Inr f)
      let ?code = "io_call (r_name (re_reg r)) f @ (if which = MAGIC_READLN then [Call ''read_newline@''] else [])"
      note c2 = after_takeback [OF c1(1), of ?code "re_reg r"]
      from es [OF lv a Inr HOL.refl c2(1)] a t lv Inr io_routine_ok [of "''read''" "re_type r"] show ?thesis
        by (simp add: magic_read.simps c1(2))
    qed
  qed
qed

lemma typing_args:
  assumes e: "acx_wf cx \<Longrightarrow> ty_of (analyze_expr cx e True) = expr_type (te_cx cx) e"
    and es: "\<And>et cx1 v same msg. analyze_expr cx e True = Inr (et, cx1) \<Longrightarrow> STAB_VAR (acx_st cx1) ft = Inr v \<Longrightarrow>
      stab_types_eq (acx_st cx1) (re_type et) (sv_type v) = Inr same \<Longrightarrow>
      (if same then Inr [] else arg_mismatch (acx_st cx1) pty i (sv_type v) (re_type et)) = Inr msg \<Longrightarrow>
      acx_wf (emit [Op1 ''push'' (Reg (r_name (re_reg et)))] (diag msg cx1)) \<Longrightarrow>
      succeeds (STAB_TYPE (acx_st cx1) pty) \<Longrightarrow>
      succeeds (call_args (emit [Op1 ''push'' (Reg (r_name (re_reg et)))] (diag msg cx1)) pty (Suc i) es fts)
      \<longleftrightarrow> args_ok (te_cx (emit [Op1 ''push'' (Reg (r_name (re_reg et)))] (diag msg cx1))) es fts"
    and wf: "acx_wf cx" and pty: "succeeds (STAB_TYPE (acx_st cx) pty)"
  shows "succeeds (call_args cx pty i (e # es) (ft # fts)) \<longleftrightarrow> args_ok (te_cx cx) (e # es) (ft # fts)"
proof (cases "analyze_expr cx e True")
  case (Inl x)
  with e [OF wf] show ?thesis by (simp add: call_args.simps)
next
  case (Inr x)
  then obtain et cx1 where a: "analyze_expr cx e True = Inr (et, cx1)" by (cases x) simp
  note c1 = after_expr [OF wf a]
  have t: "expr_type (te_cx cx) e = Some (re_type et)" using e [OF wf] a by simp
  have pty1: "succeeds (STAB_TYPE (acx_st cx1) pty)"
    using pty by (simp add: STAB_TYPE_cong [OF quiet_simps(2) [OF c1(3)]])
  have par: "te_param (te_cx cx) ft = map_option sv_type (ok_of (STAB_VAR (acx_st cx1) ft))"
    and eq: "te_eq (te_cx cx) = (\<lambda>a b. ok_of (stab_types_eq (acx_st cx1) a b))"
    unfolding c1(2) [symmetric] by (simp_all add: tenv_of_def)
  show ?thesis
  proof (cases "STAB_VAR (acx_st cx1) ft")
    case (Inl x)
    with a t par show ?thesis by (simp add: call_args.simps)
  next
    case v: (Inr v)
    show ?thesis
    proof (cases "stab_types_eq (acx_st cx1) (re_type et) (sv_type v)")
      case (Inl x)
      with a t par eq v show ?thesis by (simp add: call_args.simps)
    next
      case same: (Inr same)
      have "succeeds (if same then Inr [] else arg_mismatch (acx_st cx1) pty i (sv_type v) (re_type et))"
        using arg_mismatch_ok [OF acx_wfD(1) [OF c1(1)] pty1 same] by simp
      then obtain msg where msg: "(if same then Inr [] else arg_mismatch (acx_st cx1) pty i (sv_type v) (re_type et)) = Inr msg"
        by blast
      from es [OF a v same msg after_emit [OF after_diag [OF c1(1)]] pty1] a t par eq v same msg show ?thesis
        by (simp add: call_args.simps c1(2))
    qed
  qed
qed

lemma typing_call:
  assumes magic: "\<And>pty pt. stab_resolve_func (acx_st cx) (last p) = Inr pty \<Longrightarrow> pty \<noteq> -1 \<Longrightarrow>
      STAB_TYPE (acx_st cx) pty = Inr pt \<Longrightarrow> length p = 1 \<Longrightarrow> st_magic pt \<noteq> 0 \<Longrightarrow>
      succeeds (analyze_magic cx (st_magic pt) args)
      \<longleftrightarrow> (if st_magic pt = MAGIC_WRITELN \<or> st_magic pt = MAGIC_WRITE then write_ok (te_cx cx) args
           else (st_magic pt = MAGIC_READ \<or> st_magic pt = MAGIC_READLN) \<and> read_ok (te_cx cx) args)"
    and call: "\<And>pty pt ids. stab_resolve_func (acx_st cx) (last p) = Inr pty \<Longrightarrow> pty \<noteq> -1 \<Longrightarrow>
      STAB_TYPE (acx_st cx) pty = Inr pt \<Longrightarrow> length p = 1 \<Longrightarrow> st_magic pt = 0 \<Longrightarrow> func_args pt = Inr ids \<Longrightarrow>
      length args = length ids \<Longrightarrow> acx_wf (save_registers cx) \<Longrightarrow>
      succeeds (STAB_TYPE (acx_st (save_registers cx)) pty) \<Longrightarrow>
      succeeds (call_args (save_registers cx) pty 0 args ids) \<longleftrightarrow> args_ok (te_cx (save_registers cx)) args ids"
    and wf: "acx_wf cx"
  shows "ty_of (analyze_call cx p args) = call_type (te_cx cx) p args"
proof (cases "length p = 1")
  case False
  then show ?thesis by (simp add: analyze_call.simps)
next
  case len: True
  note st = acx_wfD(1) [OF wf]
  show ?thesis
  proof (cases "te_func (te_cx cx) (last p)")
    case None
    with len te_func_resolve [OF st, of "last p"] show ?thesis by (simp add: analyze_call.simps CHKRES_def)
  next
    case (Some pty)
    note ne = func_not_failure [OF st Some]
    have res: "stab_resolve_func (acx_st cx) (last p) = Inr pty" using te_func_resolve [OF st, of "last p"] Some by simp
    have "id_ok (ntypes (acx_st cx)) pty" using env_of_ok(2) [OF st, of "last p" pty] Some by (simp add: tenv_of_def)
    then obtain pt where pt: "STAB_TYPE (acx_st cx) pty = Inr pt" using STAB_TYPE_ok [OF st] by blast
    have te: "te_type (te_cx cx) pty = Some pt" by (simp add: te_type_cx pt)
    note start = len Some ne res pt te
    show ?thesis
    proof (cases "st_magic pt = 0")
      case False
      then show ?thesis
        using magic [OF res ne pt len False] start
        by (cases "analyze_magic cx (st_magic pt) args")
          (auto simp: analyze_call.simps CHKRES_def void_resu_def magic_defs split: if_splits)
    next
      case m: True
      show ?thesis
      proof (cases "func_args pt")
        case (Inl x)
        with m start show ?thesis
          by (auto simp: analyze_call.simps CHKRES_def magic_defs func_args_def split: stab_resolved_type.splits option.splits)
      next
        case (Inr ids)
        then obtain k ret ra where ty: "st_ty pt = R_FUNCTION k (Some ids) ret ra"
          by (auto simp: func_args_def split: stab_resolved_type.splits option.splits)
        show ?thesis
        proof (cases "length args = length ids")
          case False
          have "ty_of (analyze_call cx p args) = None"
            unfolding ty_of_None using m start Inr False
            by (cases "stab_print_type (acx_st (save_registers cx)) pty 0")
              (auto simp: analyze_call.simps CHKRES_def)
          with m start ty False show ?thesis by (simp add: magic_defs)
        next
          case True
          have "acx_wf (save_registers cx)" unfolding save_registers_def by (rule after_emit [OF wf])
          moreover have sv: "acx_st (save_registers cx) = acx_st cx" by (simp add: save_registers_def)
          ultimately have "succeeds (call_args (save_registers cx) pty 0 args ids) \<longleftrightarrow> args_ok (te_cx cx) args ids"
            using call [OF res ne pt len m Inr True] pt by simp
          with m start ty Inr True show ?thesis
            by (cases "call_args (save_registers cx) pty 0 args ids")
              (auto simp: analyze_call.simps CHKRES_def magic_defs split: prod.splits)
        qed
      qed
    qed
  qed
qed

theorem typing:
  "acx_wf cx \<Longrightarrow> ty_of (analyze_expr cx e rv) = expr_type (te_cx cx) e"
  "acx_wf cx \<Longrightarrow> ty_of (analyze_call cx p args) = call_type (te_cx cx) p args"
  "acx_wf cx \<Longrightarrow> succeeds (analyze_magic cx which args)
      \<longleftrightarrow> (if which = MAGIC_WRITELN \<or> which = MAGIC_WRITE then write_ok (te_cx cx) args
           else (which = MAGIC_READ \<or> which = MAGIC_READLN) \<and> read_ok (te_cx cx) args)"
  "acx_wf cx \<Longrightarrow> succeeds (magic_write cx args) \<longleftrightarrow> write_ok (te_cx cx) args"
  "acx_wf cx \<Longrightarrow> succeeds (magic_read cx which args) \<longleftrightarrow> read_ok (te_cx cx) args"
  "acx_wf cx \<Longrightarrow> succeeds (STAB_TYPE (acx_st cx) pty) \<Longrightarrow>
     succeeds (call_args cx pty i args ids) \<longleftrightarrow> args_ok (te_cx cx) args ids"
proof (induction cx e rv and cx p args and cx which args and cx args and cx which args and cx pty i args ids
    rule: analyze_expr_analyze_call_analyze_magic_magic_write_magic_read_call_args.induct)
  case (1 cx name args rv)
  then show ?case by (simp add: analyze_expr.simps)
next
  case (2 cx left op right rv)
  show ?case by (rule typing_bin [OF "2.IH"(1) "2.IH"(2) [OF _ HOL.refl] "2.prems"])
next
  case (3 cx e rv)
  show ?case by (rule typing_deref [OF "3.prems"])
next
  case (4 cx path e rv)
  show ?case
  proof (rule typing_idx [OF _ "4.prems"])
    fix pt cx1
    assume a: "type_of_path cx path False = Inr (pt, cx1)" "acx_wf cx1"
      "succeeds (STAB_TYPE (acx_st cx1) (re_type pt))"
      "\<And>t. STAB_TYPE (acx_st cx1) (re_type pt) = Inr t \<Longrightarrow> \<exists>lo up elt. st_ty t = R_ARRAY lo up elt"
    then obtain t lo up elt where "STAB_TYPE (acx_st cx1) (re_type pt) = Inr t" "st_ty t = R_ARRAY lo up elt" by blast
    from "4.IH" [OF a(1) HOL.refl this a(2)] show "ty_of (analyze_expr cx1 e True) = expr_type (te_cx cx1) e" .
  qed
next
  case (5 cx lit rv)
  then show ?case by (simp add: analyze_expr.simps split: prod.split)
next
  case (6 cx path rv)
  then show ?case by (simp add: analyze_expr.simps type_of_path_type)
next
  case (7 cx op e rv)
  from "7.IH" [OF "7.prems"] show ?case
    by (cases "analyze_expr cx e True") (auto simp: analyze_expr.simps idx_defs split: prod.splits)
next
  case (8 cx e rv)
  then show ?case by (simp add: analyze_expr.simps)
next
  case (9 cx p args)
  have chk: "x \<noteq> -1 \<Longrightarrow> CHKRES w n x = Inr x" for w n x by (simp add: CHKRES_def)
  show ?case
    by (rule typing_call [OF "9.IH"(1) "9.IH"(2) "9.prems"]) (auto intro: chk "9.prems")
next
  case (10 cx which args)
  show ?case
  proof (cases "which = MAGIC_WRITELN \<or> which = MAGIC_WRITE")
    case True
    from "10.IH"(1) [OF True "10.prems"] True show ?thesis
      by (cases "magic_write cx args") (auto simp: analyze_magic.simps)
  next
    case w: False
    show ?thesis
    proof (cases "which = MAGIC_READ \<or> which = MAGIC_READLN")
      case True
      from "10.IH"(2) [OF w True "10.prems"] w True show ?thesis by (simp add: analyze_magic.simps)
    next
      case False
      with w show ?thesis by (simp add: analyze_magic.simps)
    qed
  qed
next
  case (11 cx)
  then show ?case by simp
next
  case (12 cx e es)
  show ?case by (rule typing_write [OF "12.IH"(1) "12.IH"(2) [OF _ HOL.refl] "12.prems"])
next
  case (13 cx which)
  then show ?case by simp
next
  case (14 cx which e es)
  show ?case by (rule typing_read [OF "14.IH"(1) _ "14.prems"]) (simp_all add: "14.IH"(2) [OF _ _ HOL.refl])
next
  case (15 cx pty i e es ft fts)
  show ?case
    by (rule typing_args [OF "15.IH"(1) _ "15.prems"]) (simp_all add: "15.IH"(2) [OF _ HOL.refl])
next
  case (16 cx pty i fts)
  then show ?case by simp
next
  case (17 cx pty i e es)
  then show ?case by simp
qed

section \<open>Statements\<close>

text \<open>
  \<open>loc\<close> are the names of the innermost scope, \<open>glob\<close> and \<open>k\<close> say where the statement stands. The body
  of a \<open>for\<close> is in a scope of its own, which has no names.
\<close>

definition assign_ok :: "bool \<Rightarrow> subprogs \<Rightarrow> (string \<Rightarrow> bool) \<Rightarrow> ast_expr \<Rightarrow> bool" where
  "assign_ok glob k loc l \<longleftrightarrow> glob \<or> (case l of
       EXPR_PATH p \<Rightarrow> p \<noteq> [] \<and> (k = SUB_FUNCTION \<longrightarrow> loc (hd p))
     | EXPR_IDX p _ \<Rightarrow> p \<noteq> [] \<and> (k = SUB_FUNCTION \<longrightarrow> loc (hd p))
     | _ \<Rightarrow> False)"

fun stmt_ok :: "tenv \<Rightarrow> bool \<Rightarrow> subprogs \<Rightarrow> (string \<Rightarrow> bool) \<Rightarrow> ast_stmt option \<Rightarrow> bool"
  and stmts_ok :: "tenv \<Rightarrow> bool \<Rightarrow> subprogs \<Rightarrow> (string \<Rightarrow> bool) \<Rightarrow> ast_stmt option list \<Rightarrow> bool" where
  "stmt_ok te glob k loc None = True"
| "stmt_ok te glob k loc (Some (STMT_ASSIGN l e)) =
     (case (expr_type te l, expr_type te e) of
        (Some a, Some b) \<Rightarrow> assign_ok glob k loc l \<and> te_eq te b a = Some True
      | _ \<Rightarrow> False)"
| "stmt_ok te glob k loc (Some (STMT_FOR i start stop body)) =
     (expr_type te start = Some INTEGER_TYPE_IDX \<and> expr_type te stop = Some INTEGER_TYPE_IDX
      \<and> path_type te [i] = Some INTEGER_TYPE_IDX \<and> stmt_ok te glob k (\<lambda>_. False) body)"
| "stmt_ok te glob k loc (Some (STMT_ITE c th el)) =
     (expr_type te c = Some BOOLEAN_TYPE_IDX \<and> stmt_ok te glob k loc th \<and> stmt_ok te glob k loc el)"
| "stmt_ok te glob k loc (Some (STMT_PROC p args)) = (call_type te p args \<noteq> None)"
| "stmt_ok te glob k loc (Some (STMT_STMTS ss)) = stmts_ok te glob k loc ss"
| "stmt_ok te glob k loc (Some (STMT_WDO c body)) =
     (expr_type te c = Some BOOLEAN_TYPE_IDX \<and> stmt_ok te glob k loc body)"
| "stmts_ok te glob k loc [] = True"
| "stmts_ok te glob k loc (s # ss) = (stmt_ok te glob k loc s \<and> stmts_ok te glob k loc ss)"

lemma quiet_local_names:
  "stab_wf st \<Longrightarrow> chain st \<noteq> [] \<Longrightarrow> quiet st st' \<Longrightarrow> local_names st' = local_names st"
  using last_chain [of st] by (simp add: local_names_def quiet_def fun_eq_iff)

lemma enter_tenv:
  assumes wf: "acx_wf cx" and e: "enter cx = Inr cx'"
  shows "acx_wf cx'" and "te_cx cx' = te_cx cx" and "local_names (acx_st cx') = (\<lambda>_. False)"
    and "chain (acx_st cx') = chain (acx_st cx) @ [pv_length (scopes (acx_st cx))]"
    and "types (acx_st cx') = types (acx_st cx)"
proof -
  let ?st = "acx_st cx"
  note st = acx_wfD(1) [OF wf]
  from e obtain s where s: "stab_enter ?st = Inr s" "cx' = cx\<lparr>acx_st := s\<rparr>" by (rule enterE)
  with stab_enter_wf [OF st] have c: "stab_wf s" "chain s = chain ?st @ [pv_length (scopes ?st)]"
    "scope_nth s (pv_length (scopes ?st)) = stab_scope_new"
    "\<forall>i < pv_length (scopes ?st). scope_nth s i = scope_nth ?st i" "types s = types ?st" "vars s = vars ?st"
    by auto
  show "acx_wf cx'" using wf c by (simp add: s(2) acx_wf_def display_ok_def)
  have map: "map (\<lambda>i. tab (scope_nth s i)) (rev (chain ?st)) = map (\<lambda>i. tab (scope_nth ?st i)) (rev (chain ?st))" for tab
    using c(4) stab_wfD(5) [OF st] by simp
  have "env_of tab s = env_of tab ?st" if "is_table tab" for tab
    using that by (auto simp: env_of_def c(2,3) map is_table_def stab_scope_new_def hash_new_map)
  then have env: "env_of sc_vars s = env_of sc_vars ?st" "env_of sc_funcs s = env_of sc_funcs ?st" by simp_all
  have "STAB_VAR s i = STAB_VAR ?st i" "var_nth s i = var_nth ?st i" for i
    by (simp_all add: STAB_VAR_def var_nth_def c(6))
  then show "te_cx cx' = te_cx cx"
    by (simp add: s(2) tenv_of_def env STAB_TYPE_cong [OF c(5)] stab_types_eq_def types_eq_cong [OF c(5)] c(5))
  show "local_names (acx_st cx') = (\<lambda>_. False)"
    by (rule ext) (simp add: s(2) local_names_def c(2,3) stab_scope_new_def hash_new_map)
  show "chain (acx_st cx') = chain ?st @ [pv_length (scopes ?st)]" "types (acx_st cx') = types ?st"
    by (simp_all add: s(2) c)
qed

lemma check_assignability_ok:
  assumes wf: "acx_wf cx" and ne: "chain (acx_st cx) \<noteq> []"
  shows "succeeds (check_assignability cx l)
    \<longleftrightarrow> assign_ok (acx_toplevel cx) (acx_func_type cx) (local_names (acx_st cx)) l"
proof -
  have root: "succeeds (check_root cx n) \<longleftrightarrow> (acx_func_type cx = SUB_FUNCTION \<longrightarrow> local_names (acx_st cx) n)" for n
    by (simp add: check_root_def stab_has_local_var_def has_local_map [OF acx_wfD(1) [OF wf] ne] local_names_def)
  have same: "check_root cx n = Inr cx' \<Longrightarrow> acx_st cx' = acx_st cx \<and> acx_func_type cx' = acx_func_type cx" for n cx'
    by (auto simp: check_root_def split: if_splits)
  have again: "acx_st a = acx_st b \<and> acx_func_type a = acx_func_type b \<Longrightarrow>
      succeeds (check_root a n) = succeeds (check_root b n)" for a b n
    by (simp add: check_root_def bindr_def split: sum.splits)
  have twice: "succeeds (bindr (check_root cx n) (\<lambda>cx. check_root cx n)) \<longleftrightarrow> succeeds (check_root cx n)" for n
  proof (cases "check_root cx n")
    case (Inr cx1)
    with again [OF same [OF Inr], of n] show ?thesis by simp
  qed simp
  show ?thesis
  proof (cases l)
    case (EXPR_IDX p e)
    with root [of "hd p"] twice [of "hd p"] show ?thesis
      by (simp add: assign_ok_def check_assignability.simps path_head_def)
  next
    case (EXPR_DEREF e)
    show ?thesis
      by (cases "check_assignability cx e") (auto simp: EXPR_DEREF assign_ok_def check_assignability.simps [of cx "EXPR_DEREF e"])
  qed (auto simp: assign_ok_def check_assignability.simps path_head_def root)
qed

text \<open>What the statements after a first step see: the same environment, in the same place.\<close>

definition same_place :: "acx \<Rightarrow> acx \<Rightarrow> bool" where
  "same_place cx cx' \<longleftrightarrow> acx_wf cx' \<and> chain (acx_st cx') \<noteq> [] \<and> te_cx cx' = te_cx cx
     \<and> local_names (acx_st cx') = local_names (acx_st cx)
     \<and> acx_toplevel cx' = acx_toplevel cx \<and> acx_func_type cx' = acx_func_type cx"

lemma same_placeI:
  assumes wf: "acx_wf cx" and ne: "chain (acx_st cx) \<noteq> []" and c: "calm cx cx'" and k: "keeps cx cx'"
  shows "same_place cx cx'"
proof -
  from c wf have q: "quiet (acx_st cx) (acx_st cx')" by (simp add: calm_def)
  show ?thesis
    using calm_tenv [OF wf c] k ne quiet_local_names [OF acx_wfD(1) [OF wf] ne q]
    by (simp add: same_place_def keeps_def quiet_simps [OF q])
qed

lemma place_expr:
  assumes "acx_wf cx" "chain (acx_st cx) \<noteq> []" "analyze_expr cx e rv = Inr (r, cx')"
  shows "same_place cx cx'"
  by (rule same_placeI [OF assms(1,2) calm.analyze_frame(1) [OF assms(3)] keeps.analyze_frame(1) [OF assms(3)]])

lemma place_stmt:
  assumes "acx_wf cx" "chain (acx_st cx) \<noteq> []" "analyze_stmt cx s = Inr cx'"
  shows "same_place cx cx'"
  by (rule same_placeI [OF assms(1,2) calm.analyze_stmt_frame(1) [OF assms(3)] keeps.analyze_stmt_frame(1) [OF assms(3)]])

lemma place_check:
  assumes "acx_wf cx" "chain (acx_st cx) \<noteq> []" "check_assignability cx l = Inr cx'"
  shows "same_place cx cx'"
  by (rule same_placeI [OF assms(1,2) calm.check_assignability_frame [OF assms(3)] keeps.check_assignability_frame [OF assms(3)]])

lemma place_trans: "same_place a b \<Longrightarrow> same_place b c \<Longrightarrow> same_place a c"
  by (simp add: same_place_def)

lemma place_step:
  assumes "acx_wf cx" "chain (acx_st cx) \<noteq> []"
  shows "same_place cx (emit code cx)" "same_place cx (reg_takeitback cx r)"
    "same_place cx (cx\<lparr>acx_label := acx_label cx + 2\<rparr>)"
  using assms same_placeI [OF assms calm.emits_any keeps.emits_any] same_placeI [OF assms calm.takeback keeps.takeback]
    same_placeI [OF assms calm.labels keeps.labels] by auto

lemma placeD:
  assumes "same_place cx cx'"
  shows "acx_wf cx'" "chain (acx_st cx') \<noteq> []" "te_cx cx' = te_cx cx"
    "local_names (acx_st cx') = local_names (acx_st cx)"
    "acx_toplevel cx' = acx_toplevel cx" "acx_func_type cx' = acx_func_type cx"
  using assms by (simp_all add: same_place_def)

lemma place_emit: "same_place cx cx' \<Longrightarrow> same_place cx (emit code cx')"
  by (rule place_trans, assumption, rule place_step) (erule placeD)+

lemma place_takeback: "same_place cx cx' \<Longrightarrow> same_place cx (reg_takeitback cx' r)"
  by (rule place_trans, assumption, rule place_step) (erule placeD)+

lemma place_labels: "same_place cx cx' \<Longrightarrow> same_place cx (cx'\<lparr>acx_label := acx_label cx' + 2\<rparr>)"
  by (rule place_trans, assumption, rule place_step) (erule placeD)+

lemma typed:
  assumes "acx_wf cx"
  shows "analyze_expr cx e rv = Inr (r, cx') \<Longrightarrow> expr_type (te_cx cx) e = Some (re_type r)"
    and "expr_type (te_cx cx) e = Some ty \<Longrightarrow> \<exists>r cx'. analyze_expr cx e rv = Inr (r, cx') \<and> re_type r = ty"
    and "analyze_call cx p args = Inr (r, cx') \<Longrightarrow> call_type (te_cx cx) p args = Some (re_type r)"
    and "call_type (te_cx cx) p args = Some ty \<Longrightarrow> \<exists>r cx'. analyze_call cx p args = Inr (r, cx') \<and> re_type r = ty"
    and "type_of_path cx q rv = Inr (r, cx') \<Longrightarrow> path_type (te_cx cx) q = Some (re_type r)"
    and "path_type (te_cx cx) q = Some ty \<Longrightarrow> \<exists>r cx'. type_of_path cx q rv = Inr (r, cx') \<and> re_type r = ty"
  unfolding typing(1) [OF assms, of e rv, symmetric] typing(2) [OF assms, of p args, symmetric]
    type_of_path_type [OF assms, of q rv, symmetric] ty_of_Some by blast+

definition stmt_fits :: "acx \<Rightarrow> ast_stmt option \<Rightarrow> bool" where
  "stmt_fits cx s \<longleftrightarrow> stmt_ok (te_cx cx) (acx_toplevel cx) (acx_func_type cx) (local_names (acx_st cx)) s"

definition stmts_fit :: "acx \<Rightarrow> ast_stmt option list \<Rightarrow> bool" where
  "stmts_fit cx ss \<longleftrightarrow> stmts_ok (te_cx cx) (acx_toplevel cx) (acx_func_type cx) (local_names (acx_st cx)) ss"

lemma fits_place:
  "same_place cx cx' \<Longrightarrow> stmt_fits cx' s = stmt_fits cx s"
  "same_place cx cx' \<Longrightarrow> stmts_fit cx' ss = stmts_fit cx ss"
  by (simp_all add: stmt_fits_def stmts_fit_def same_place_def)

lemma assign_fits:
  assumes wf: "acx_wf cx" and ne: "chain (acx_st cx) \<noteq> []"
  shows "succeeds (analyze_stmt cx (Some (STMT_ASSIGN l e))) \<longleftrightarrow> stmt_fits cx (Some (STMT_ASSIGN l e))"
proof
  assume "succeeds (analyze_stmt cx (Some (STMT_ASSIGN l e)))"
  then obtain cx' where "analyze_stmt cx (Some (STMT_ASSIGN l e)) = Inr cx'" ..
  then show "stmt_fits cx (Some (STMT_ASSIGN l e))"
  proof (rule assignE)
    fix lty cx1 cx2 rty cx3
    assume a: "analyze_expr cx l False = Inr (lty, cx1)" "check_assignability cx1 l = Inr cx2"
      "analyze_expr cx2 e True = Inr (rty, cx3)"
      "stab_types_eq (acx_st cx3) (re_type rty) (re_type lty) = Inr True"
    note p1 = place_expr [OF wf ne a(1)]
    note p2 = place_trans [OF p1 place_check [OF placeD(1,2) [OF p1] a(2)]]
    note p3 = place_trans [OF p2 place_expr [OF placeD(1,2) [OF p2] a(3)]]
    have eq: "te_eq (te_cx cx) (re_type rty) (re_type lty) = Some True"
      unfolding placeD(3) [OF p3, symmetric] by (simp add: tenv_of_def a(4))
    have "assign_ok (acx_toplevel cx) (acx_func_type cx) (local_names (acx_st cx)) l"
      using check_assignability_ok [OF placeD(1,2) [OF p1], of l] a(2) by (simp add: placeD(4-6) [OF p1])
    with typed(1) [OF wf a(1)] typed(1) [OF placeD(1) [OF p2] a(3)] eq show ?thesis
      by (simp add: stmt_fits_def placeD(3) [OF p2])
  qed
next
  assume "stmt_fits cx (Some (STMT_ASSIGN l e))"
  then obtain a b where t: "expr_type (te_cx cx) l = Some a" "expr_type (te_cx cx) e = Some b"
    "assign_ok (acx_toplevel cx) (acx_func_type cx) (local_names (acx_st cx)) l" "te_eq (te_cx cx) b a = Some True"
    by (auto simp: stmt_fits_def split: option.splits)
  from typed(2) [OF wf t(1)] obtain lty cx1 where l: "analyze_expr cx l False = Inr (lty, cx1)" "re_type lty = a" by blast
  note p1 = place_expr [OF wf ne l(1)]
  from check_assignability_ok [OF placeD(1,2) [OF p1], of l] t(3) obtain cx2 where
    c: "check_assignability cx1 l = Inr cx2" by (auto simp: placeD(4-6) [OF p1])
  note p2 = place_trans [OF p1 place_check [OF placeD(1,2) [OF p1] c]]
  from typed(2) [OF placeD(1) [OF p2], of e b True] t(2) obtain rty cx3 where
    r: "analyze_expr cx2 e True = Inr (rty, cx3)" "re_type rty = b" by (auto simp: placeD(3) [OF p2])
  note p3 = place_trans [OF p2 place_expr [OF placeD(1,2) [OF p2] r(1)]]
  have "stab_types_eq (acx_st cx3) b a = Inr True"
    using t(4) unfolding placeD(3) [OF p3, symmetric] by (simp add: tenv_of_def ok_of_Some)
  with l c r show "succeeds (analyze_stmt cx (Some (STMT_ASSIGN l e)))"
    by (simp add: analyze_stmt.simps Let_def)
qed

lemma ite_fits:
  assumes wf: "acx_wf cx" and ne: "chain (acx_st cx) \<noteq> []"
    and th: "\<And>cx. acx_wf cx \<Longrightarrow> chain (acx_st cx) \<noteq> [] \<Longrightarrow> succeeds (analyze_stmt cx th) \<longleftrightarrow> stmt_fits cx th"
    and el: "\<And>cx. acx_wf cx \<Longrightarrow> chain (acx_st cx) \<noteq> [] \<Longrightarrow> succeeds (analyze_stmt cx el) \<longleftrightarrow> stmt_fits cx el"
  shows "succeeds (analyze_stmt cx (Some (STMT_ITE c th el))) \<longleftrightarrow> stmt_fits cx (Some (STMT_ITE c th el))"
proof (cases "expr_type (te_cx cx) c = Some BOOLEAN_TYPE_IDX")
  case False
  then show ?thesis using typed(1) [OF wf] by (auto simp: stmt_fits_def elim!: iteE)
next
  case True
  from typed(2) [OF wf this] obtain cty cx1 where c: "analyze_expr cx c True = Inr (cty, cx1)"
    "re_type cty = BOOLEAN_TYPE_IDX" by blast
  note p1 = place_takeback [OF place_emit [OF place_labels [OF place_expr [OF wf ne c(1)]]],
      of "[Op2 ''cmp'' (Reg (r_name (re_reg cty))) (Imm 1), Jump ''jne'' (acx_label cx1)]" "re_reg cty"]
  let ?cx1 = "reg_takeitback (emit [Op2 ''cmp'' (Reg (r_name (re_reg cty))) (Imm 1),
        Jump ''jne'' (acx_label cx1)] (cx1\<lparr>acx_label := acx_label cx1 + 2\<rparr>)) (re_reg cty)"
  note th' = th [OF placeD(1,2) [OF p1], unfolded fits_place(1) [OF p1]]
  show ?thesis
  proof (cases "analyze_stmt ?cx1 th")
    case (Inl e)
    with th' c True show ?thesis
      by (simp add: stmt_fits_def analyze_stmt.simps fresh_labels_def Let_def)
  next
    case (Inr cx2)
    note p2 = place_trans [OF p1 place_stmt [OF placeD(1,2) [OF p1] Inr]]
    let ?code = "[Jump ''jmp'' (acx_label cx1 + 1), Label (acx_label cx1)]"
    note p2' = place_emit [OF p2, of ?code]
    note el' = el [OF placeD(1,2) [OF p2'], unfolded fits_place(1) [OF p2']]
    show ?thesis
      using th' el' c True Inr
      by (cases "analyze_stmt (emit ?code cx2) el")
        (simp_all add: stmt_fits_def analyze_stmt.simps fresh_labels_def Let_def)
  qed
qed

lemma wdo_fits:
  assumes wf: "acx_wf cx" and ne: "chain (acx_st cx) \<noteq> []"
    and body: "\<And>cx. acx_wf cx \<Longrightarrow> chain (acx_st cx) \<noteq> [] \<Longrightarrow> succeeds (analyze_stmt cx body) \<longleftrightarrow> stmt_fits cx body"
  shows "succeeds (analyze_stmt cx (Some (STMT_WDO c body))) \<longleftrightarrow> stmt_fits cx (Some (STMT_WDO c body))"
proof -
  let ?cx = "emit [Label (acx_label cx)] (cx\<lparr>acx_label := acx_label cx + 2\<rparr>)"
  note p0 = place_emit [OF place_step(3) [OF wf ne], of "[Label (acx_label cx)]"]
  note wf0 = placeD(1,2) [OF p0]
  show ?thesis
  proof (cases "expr_type (te_cx cx) c = Some BOOLEAN_TYPE_IDX")
    case False
    then show ?thesis using typed(1) [OF wf0(1)] by (auto simp: stmt_fits_def elim!: wdoE)
  next
    case True
    then have "expr_type (te_cx ?cx) c = Some BOOLEAN_TYPE_IDX" by simp
    from typed(2) [OF wf0(1) this] obtain cty cx1 where c: "analyze_expr ?cx c True = Inr (cty, cx1)"
      "re_type cty = BOOLEAN_TYPE_IDX" by blast
    let ?code = "[Op2 ''cmp'' (Reg (r_name (re_reg cty))) (Imm 1), Jump ''jne'' (acx_label cx + 1)]"
    note p1 = place_takeback [OF place_emit [OF place_trans [OF p0 place_expr [OF wf0 c(1)]]], of ?code "re_reg cty"]
    note body' = body [OF placeD(1,2) [OF p1], unfolded fits_place(1) [OF p1]]
    show ?thesis
      using body' c True
      by (cases "analyze_stmt (reg_takeitback (emit ?code cx1) (re_reg cty)) body")
        (simp_all add: stmt_fits_def analyze_stmt.simps fresh_labels_def Let_def)
  qed
qed

lemma for_fits:
  assumes wf: "acx_wf cx" and ne: "chain (acx_st cx) \<noteq> []"
    and body: "\<And>cx. acx_wf cx \<Longrightarrow> chain (acx_st cx) \<noteq> [] \<Longrightarrow> succeeds (analyze_stmt cx body) \<longleftrightarrow> stmt_fits cx body"
  shows "succeeds (analyze_stmt cx (Some (STMT_FOR i start stop body)))
    \<longleftrightarrow> stmt_fits cx (Some (STMT_FOR i start stop body))"
proof (cases "expr_type (te_cx cx) start = Some INTEGER_TYPE_IDX \<and> expr_type (te_cx cx) stop = Some INTEGER_TYPE_IDX
      \<and> path_type (te_cx cx) [i] = Some INTEGER_TYPE_IDX")
  case False
  have "\<not> succeeds (analyze_stmt cx (Some (STMT_FOR i start stop body)))"
  proof
    assume "succeeds (analyze_stmt cx (Some (STMT_FOR i start stop body)))"
    then obtain cx' where "analyze_stmt cx (Some (STMT_FOR i start stop body)) = Inr cx'" ..
    then show False
    proof (rule forE)
      fix sty cx1 ety cx2 ity cx3
      assume a: "analyze_expr cx start True = Inr (sty, cx1)" "analyze_expr cx1 stop True = Inr (ety, cx2)"
        "re_type sty = INTEGER_TYPE_IDX" "re_type ety = INTEGER_TYPE_IDX"
        "type_of_path cx2 [i] False = Inr (ity, cx3)" "re_type ity = INTEGER_TYPE_IDX"
      note p1 = place_expr [OF wf ne a(1)]
      note p2 = place_trans [OF p1 place_expr [OF placeD(1,2) [OF p1] a(2)]]
      from typed(1) [OF wf a(1)] typed(1) [OF placeD(1) [OF p1] a(2)] typed(5) [OF placeD(1) [OF p2] a(5)]
        a(3,4,6) False show False by (simp add: placeD(3) [OF p1] placeD(3) [OF p2])
    qed
  qed
  with False show ?thesis by (auto simp: stmt_fits_def)
next
  case True
  from typed(2) [OF wf] True obtain sty cx1 where s: "analyze_expr cx start True = Inr (sty, cx1)"
    "re_type sty = INTEGER_TYPE_IDX" by blast
  note p1 = place_expr [OF wf ne s(1)]
  from typed(2) [OF placeD(1) [OF p1], unfolded placeD(3) [OF p1]] True obtain ety cx2 where
    e: "analyze_expr cx1 stop True = Inr (ety, cx2)" "re_type ety = INTEGER_TYPE_IDX" by blast
  note p2 = place_trans [OF p1 place_expr [OF placeD(1,2) [OF p1] e(1)]]
  from typed(6) [OF placeD(1) [OF p2], unfolded placeD(3) [OF p2]] True obtain ity cx3 where
    i: "type_of_path cx2 [i] False = Inr (ity, cx3)" "re_type ity = INTEGER_TYPE_IDX" by blast
  note p3 = place_trans [OF p2 same_placeI [OF placeD(1,2) [OF p2] calm.type_of_path_frame [OF i(1)]
      keeps.type_of_path_frame [OF i(1)]]]
  obtain cx4 where en: "enter cx3 = Inr cx4"
    using stab_enter_wf [OF acx_wfD(1) [OF placeD(1) [OF p3]]] by (auto simp: enter_def)
  note c4 = enter_tenv [OF placeD(1) [OF p3] en]
  have f4: "acx_toplevel cx4 = acx_toplevel cx" "acx_func_type cx4 = acx_func_type cx"
    using en placeD(5,6) [OF p3] by (auto elim!: enterE)
  let ?code = "[Op1 ''push'' (Reg (r_name (re_reg sty))), Label (acx_label cx4),
        Op2 ''cmp'' (Reg (r_name (re_reg sty))) (Reg (r_name (re_reg ety))), Jump ''je'' (acx_label cx4 + 1)]"
  let ?b = "emit ?code (cx4\<lparr>acx_label := acx_label cx4 + 2\<rparr>)"
  have ne4: "chain (acx_st cx4) \<noteq> []" by (simp add: c4(4))
  note pb = place_emit [OF place_step(3) [OF c4(1) ne4], of ?code]
  have fit: "stmt_fits ?b body = stmt_ok (te_cx cx) (acx_toplevel cx) (acx_func_type cx) (\<lambda>_. False) body"
    unfolding fits_place(1) [OF pb] by (simp add: stmt_fits_def c4(2,3) f4 placeD(3) [OF p3])
  have eq: "analyze_stmt cx (Some (STMT_FOR i start stop body)) = bindr (analyze_stmt ?b body) (\<lambda>cx.
      leave (reg_takeitback (reg_takeitback (emit [Op1 ''inc'' (Reg (r_name (re_reg sty))),
        Op2 ''mov'' (Ind ''rsp'') (Reg (r_name (re_reg sty))), Jump ''jmp'' (acx_label cx4),
        Label (acx_label cx4 + 1)] cx) (re_reg ety)) (re_reg sty)))"
    using s e i en by (simp add: analyze_stmt.simps Let_def fresh_labels_def ast_path_new_def) (simp add: emit_def)
  show ?thesis
  proof (cases "analyze_stmt ?b body")
    case (Inl x)
    with eq body [OF placeD(1,2) [OF pb]] fit True show ?thesis by (simp add: stmt_fits_def)
  next
    case (Inr cx5)
    from calm.analyze_stmt_frame(1) [OF Inr] placeD(1) [OF pb]
    have q: "acx_wf cx5" "chain (acx_st cx5) = chain (acx_st cx4)" by (auto simp: calm_def quiet_def)
    have "1 < length (chain (acx_st cx5))" using placeD(2) [OF p3] by (simp add: q(2) c4(4))
    then have "succeeds (leave (reg_takeitback (reg_takeitback (emit code cx5) r) r'))" for code r r'
      using stab_leave_wf(1) [OF acx_wfD(1) [OF q(1)]] by (simp add: leave_def)
    with eq Inr body [OF placeD(1,2) [OF pb]] fit True show ?thesis by (simp add: stmt_fits_def)
  qed
qed

lemma analyze_stmt_fits:
  "acx_wf cx \<Longrightarrow> chain (acx_st cx) \<noteq> [] \<Longrightarrow> succeeds (analyze_stmt cx s) \<longleftrightarrow> stmt_fits cx s"
  "acx_wf cx \<Longrightarrow> chain (acx_st cx) \<noteq> [] \<Longrightarrow> succeeds (analyze_stmts cx ss) \<longleftrightarrow> stmts_fit cx ss"
proof (induction s and ss arbitrary: cx and cx rule: stmt_induct)
  case null
  then show ?case by (simp add: stmt_fits_def)
next
  case (assign l e)
  then show ?case by (rule assign_fits)
next
  case (loop i start stop body)
  from loop.prems loop.IH show ?case by (rule for_fits)
next
  case (ite c th el)
  from ite.prems ite.IH show ?case by (rule ite_fits)
next
  case (proc p args)
  from typed(3,4) [OF proc.prems(1)] show ?case
    by (cases "call_type (te_cx cx) p args") (fastforce simp: stmt_fits_def analyze_stmt.simps simp del: call_type.simps elim!: procE)+
next
  case (stmts ss)
  then show ?case by (simp add: stmt_fits_def stmts_fit_def)
next
  case (wdo c body)
  from wdo.prems wdo.IH show ?case by (rule wdo_fits)
next
  case nil
  then show ?case by (simp add: stmts_fit_def)
next
  case (cons s ss)
  show ?case
  proof (cases "analyze_stmt cx s")
    case (Inl e)
    with cons.IH(1) [OF cons.prems] show ?thesis by (simp add: stmts_fit_def stmt_fits_def)
  next
    case (Inr cx1)
    note p = place_stmt [OF cons.prems Inr]
    from cons.IH(1) [OF cons.prems] cons.IH(2) [OF placeD(1,2) [OF p]] Inr fits_place(2) [OF p] show ?thesis
      by (simp add: stmts_fit_def stmt_fits_def)
  qed
qed

end
