(* ===== verification/Returns.thy ===== *)
theory Returns
  imports ProgramWf Typing
begin

text \<open>
  The rules for function bodies: a function must assign its name, and assigns local names only. The
  mark \<open>ret_assigned\<close> is exactly "the statements so far contain an assignment to the name".
\<close>

text \<open>An assignment whose left-hand side is the variable \<open>n\<close>, or an element or field of it.\<close>

definition root_is :: "string \<Rightarrow> ast_expr \<Rightarrow> bool" where
  "root_is n l = (case l of EXPR_PATH p \<Rightarrow> p \<noteq> [] \<and> hd p = n | EXPR_IDX p _ \<Rightarrow> p \<noteq> [] \<and> hd p = n | _ \<Rightarrow> False)"

fun assigns :: "string \<Rightarrow> ast_stmt option \<Rightarrow> bool"
  and assigns_any :: "string \<Rightarrow> ast_stmt option list \<Rightarrow> bool" where
  "assigns n None = False"
| "assigns n (Some (STMT_ASSIGN l e)) = root_is n l"
| "assigns n (Some (STMT_FOR i start stop body)) = assigns n body"
| "assigns n (Some (STMT_ITE c th el)) = (assigns n th \<or> assigns n el)"
| "assigns n (Some (STMT_PROC p args)) = False"
| "assigns n (Some (STMT_STMTS ss)) = assigns_any n ss"
| "assigns n (Some (STMT_WDO c body)) = assigns n body"
| "assigns_any n [] = False"
| "assigns_any n (s # ss) = (assigns n s \<or> assigns_any n ss)"

text \<open>What an expression leaves alone.\<close>

definition same_func :: "acx \<Rightarrow> acx \<Rightarrow> bool" where
  "same_func cx cx' \<longleftrightarrow> acx_toplevel cx' = acx_toplevel cx \<and> acx_func_name cx' = acx_func_name cx
     \<and> acx_ret_assigned cx' = acx_ret_assigned cx"

lemma same_func_expr: "analyze_expr cx e rv = Inr (r, cx') \<Longrightarrow> same_func cx cx'"
  using keeps_expr.analyze_frame(1) [of cx e rv r cx'] by (simp add: keeps_expr_def keeps_def same_func_def)

lemma same_func_call: "analyze_call cx p args = Inr (r, cx') \<Longrightarrow> same_func cx cx'"
  using keeps_expr.analyze_frame(2) [of cx p args r cx'] by (simp add: keeps_expr_def keeps_def same_func_def)

lemma same_func_path: "type_of_path cx p rv = Inr (r, cx') \<Longrightarrow> same_func cx cx'"
  using keeps_expr.type_of_path_frame [of cx p rv r cx'] by (simp add: keeps_expr_def keeps_def same_func_def)

lemma check_marks:
  assumes "check_assignability cx l = Inr cx'" and "\<not> acx_toplevel cx"
  shows "acx_ret_assigned cx' \<longleftrightarrow> acx_ret_assigned cx \<or> root_is (acx_func_name cx) l"
    and "acx_toplevel cx' = acx_toplevel cx" and "acx_func_name cx' = acx_func_name cx"
proof -
  have root: "check_root cx n = Inr cx' \<Longrightarrow> acx_toplevel cx' = acx_toplevel cx \<and> acx_func_name cx' = acx_func_name cx
      \<and> (acx_ret_assigned cx' \<longleftrightarrow> acx_ret_assigned cx \<or> acx_func_name cx = n)" for cx cx' n
    by (auto simp: check_root_def split: if_splits)
  show "acx_ret_assigned cx' \<longleftrightarrow> acx_ret_assigned cx \<or> root_is (acx_func_name cx) l"
    "acx_toplevel cx' = acx_toplevel cx" "acx_func_name cx' = acx_func_name cx"
    using assms
    by (cases l; force simp: check_assignability.simps path_head_def root_is_def dest!: root split: if_splits)+
qed

definition marks :: "acx \<Rightarrow> acx \<Rightarrow> bool \<Rightarrow> bool" where
  "marks cx cx' b \<longleftrightarrow> (\<not> acx_toplevel cx \<longrightarrow> \<not> acx_toplevel cx' \<and> acx_func_name cx' = acx_func_name cx
     \<and> (acx_ret_assigned cx' \<longleftrightarrow> acx_ret_assigned cx \<or> b))"

lemma marks_trans: "marks a b x \<Longrightarrow> marks b c y \<Longrightarrow> marks a c (x \<or> y)"
  by (auto simp: marks_def)

lemma marks_same: "same_func cx cx' \<Longrightarrow> marks cx cx' False"
  by (simp add: marks_def same_func_def)

lemma marks_after: "marks a b x \<Longrightarrow> same_func b c \<Longrightarrow> marks a c x"
  using marks_trans [OF _ marks_same] by fastforce

lemma marks_before: "same_func a b \<Longrightarrow> marks b c x \<Longrightarrow> marks a c x"
  using marks_trans [OF marks_same] by fastforce

lemma same_func_simps:
  "same_func cx (emit code cx') = same_func cx cx'" "same_func cx (reg_takeitback cx' r) = same_func cx cx'"
  "same_func cx (cx'\<lparr>acx_label := l\<rparr>) = same_func cx cx'" "same_func cx (cx'\<lparr>acx_st := st\<rparr>) = same_func cx cx'"
  "same_func cx cx"
  by (simp_all add: same_func_def)

lemma same_func_trans: "same_func a b \<Longrightarrow> same_func b c \<Longrightarrow> same_func a c"
  by (simp add: same_func_def)

lemma analyze_stmt_marks:
  "analyze_stmt cx s = Inr cx' \<Longrightarrow> marks cx cx' (assigns (acx_func_name cx) s)"
  "analyze_stmts cx ss = Inr cx' \<Longrightarrow> marks cx cx' (assigns_any (acx_func_name cx) ss)"
proof (induction s and ss arbitrary: cx cx' and cx cx' rule: stmt_induct)
  case (assign l e)
  from assign.prems show ?case
  proof (rule assignE)
    fix lty cx1 cx2 rty cx3
    assume a: "analyze_expr cx l False = Inr (lty, cx1)" "check_assignability cx1 l = Inr cx2"
        "analyze_expr cx2 e True = Inr (rty, cx3)"
      and c: "cx' = reg_takeitback (reg_takeitback
        (emit [Op2 ''mov'' (Ind (r_name (re_reg lty))) (Reg (r_name (re_reg rty)))] cx3) (re_reg rty)) (re_reg lty)"
    have "marks cx1 cx2 (root_is (acx_func_name cx) l)"
      using check_marks [OF a(2)] same_func_expr [OF a(1)] by (simp add: marks_def same_func_def)
    from marks_after [OF marks_before [OF same_func_expr [OF a(1)] this]] same_func_expr [OF a(3)]
    show ?thesis by (simp add: c same_func_simps)
  qed
next
  case (loop i start stop body)
  from loop.prems show ?case
  proof (rule forE)
    fix sty ety ity :: resu and cx1 cx2 cx3 cx4 cx5 :: acx
    let ?pre = "[Op1 ''push'' (Reg (r_name (re_reg sty))), Label (acx_label cx4),
        Op2 ''cmp'' (Reg (r_name (re_reg sty))) (Reg (r_name (re_reg ety))), Jump ''je'' (acx_label cx4 + 1)]"
    assume a: "analyze_expr cx start True = Inr (sty, cx1)" "analyze_expr cx1 stop True = Inr (ety, cx2)"
        "type_of_path cx2 [i] False = Inr (ity, cx3)" "enter cx3 = Inr cx4"
      and b: "analyze_stmt (emit ?pre (cx4\<lparr>acx_label := acx_label cx4 + 2\<rparr>)) body = Inr cx5"
      and c: "leave (reg_takeitback (reg_takeitback (emit [Op1 ''inc'' (Reg (r_name (re_reg sty))),
        Op2 ''mov'' (Ind ''rsp'') (Reg (r_name (re_reg sty))), Jump ''jmp'' (acx_label cx4),
        Label (acx_label cx4 + 1)] cx5) (re_reg ety)) (re_reg sty)) = Inr cx'"
    have s: "same_func cx (emit ?pre (cx4\<lparr>acx_label := acx_label cx4 + 2\<rparr>))"
      using same_func_trans [OF same_func_trans [OF same_func_expr [OF a(1)] same_func_expr [OF a(2)]] same_func_path [OF a(3)]] a(4)
      by (auto simp: same_func_simps elim!: enterE)
    have "same_func cx5 cx'" using c by (auto simp: same_func_simps elim!: leaveE)
    from marks_after [OF marks_before [OF s loop.IH [OF b]] this] s show ?thesis
      by (simp add: same_func_def)
  qed
next
  case (ite c th el)
  from ite.prems show ?case
  proof (rule iteE)
    fix cty :: resu and cx1 cx2 cx3 :: acx
    let ?cx1 = "reg_takeitback (emit [Op2 ''cmp'' (Reg (r_name (re_reg cty))) (Imm 1),
        Jump ''jne'' (acx_label cx1)] (cx1\<lparr>acx_label := acx_label cx1 + 2\<rparr>)) (re_reg cty)"
    let ?cx2 = "emit [Jump ''jmp'' (acx_label cx1 + 1), Label (acx_label cx1)] cx2"
    assume a: "analyze_expr cx c True = Inr (cty, cx1)" and b: "analyze_stmt ?cx1 th = Inr cx2"
        "analyze_stmt ?cx2 el = Inr cx3" and c: "cx' = emit [Label (acx_label cx1 + 1)] cx3"
    have s: "same_func cx ?cx1" using same_func_expr [OF a] by (simp add: same_func_simps)
    note m1 = marks_before [OF s ite.IH(1) [OF b(1)]]
    note m2 = ite.IH(2) [OF b(2)]
    show ?thesis
      using m1 m2 s by (auto simp: marks_def same_func_def c)
  qed
next
  case (proc p args)
  from proc.prems show ?case
    by (rule procE) (auto simp: same_func_simps intro!: marks_same dest: same_func_call)
next
  case (wdo c body)
  from wdo.prems show ?case
  proof (rule wdoE)
    fix cty :: resu and cx1 cx2 :: acx
    let ?cx1 = "reg_takeitback (emit [Op2 ''cmp'' (Reg (r_name (re_reg cty))) (Imm 1),
        Jump ''jne'' (acx_label cx + 1)] cx1) (re_reg cty)"
    assume a: "analyze_expr (emit [Label (acx_label cx)] (cx\<lparr>acx_label := acx_label cx + 2\<rparr>)) c True = Inr (cty, cx1)"
      and b: "analyze_stmt ?cx1 body = Inr cx2"
      and c: "cx' = emit [Jump ''jmp'' (acx_label cx), Label (acx_label cx + 1)] cx2"
    have s: "same_func cx ?cx1" using same_func_expr [OF a] by (simp add: same_func_def)
    from marks_after [OF marks_before [OF s wdo.IH [OF b]], of cx'] s show ?thesis
      by (simp add: same_func_simps c) (simp add: same_func_def)
  qed
next
  case (cons s ss)
  from cons.prems obtain cx1 where a: "analyze_stmt cx s = Inr cx1" "analyze_stmts cx1 ss = Inr cx'" by auto
  from cons.IH(1) [OF a(1)] cons.IH(2) [OF a(2)] show ?case by (auto simp: marks_def)
qed (auto simp: marks_def)

section \<open>Function bodies\<close>

lemma subprog_parts:
  assumes "analyze_subprog old (Subdecl head name locals subprogs tys body) = Inr cx'"
  obtains k args retty cx1 retslot off cx2 cx3 captured cx4 cx5 cx6 where
    "head_func head = Inr (k, args, retty)" "subprog_enter old name k = Inr cx1"
    "subprog_decls cx1 name tys args locals retty = Inr (retslot, off, cx2)"
    "analyze_subprogs cx2 subprogs = Inr cx3"
    "subprog_prologue cx3 off = Inr (captured, cx4)" "analyze_stmt cx4 body = Inr cx5"
    "subprog_epilogue cx5 retslot off captured = Inr cx6" "cx' = subprog_restore old cx6"
  using assms by auto

text \<open>The context in which the body is analysed.\<close>

lemma body_context:
  assumes wf: "acx_wf old" and e: "subprog_enter old name k = Inr cx1"
    and d: "subprog_decls cx1 name tys args locals retty = Inr (retslot, off, cx2)"
    and s: "analyze_subprogs cx2 subprogs = Inr cx3" and p: "subprog_prologue cx3 off = Inr (captured, cx4)"
  shows "acx_wf cx4" and "chain (acx_st cx4) \<noteq> []" and "acx_func_type cx4 = k" and "acx_func_name cx4 = name"
    and "acx_toplevel cx4 = acx_toplevel old" and "inside cx1 cx4"
proof -
  note e1 = subprog_enter_wf [OF wf e]
  have i2: "inside cx1 cx2" by (rule subprog_decls_inside(1) [OF e1(1) _ d]) (simp add: e1(2))
  have i3: "inside cx2 cx3"
    by (rule analyze_subprog_outside(2) [OF insideD(2) [OF i2] _ s]) (simp add: insideD(5) [OF i2] e1(2))
  note i4 = inside_trans [OF inside_trans [OF i2 i3] inside_printed [OF insideD(2) [OF i3] prologue_emits [OF p]]]
  show "acx_wf cx4" "inside cx1 cx4" using i4 insideD(2) by auto
  show "chain (acx_st cx4) \<noteq> []" by (simp add: insideD(5) [OF i4] e1(2))
  show "acx_func_type cx4 = k" "acx_func_name cx4 = name" "acx_toplevel cx4 = acx_toplevel old"
    using insideD(1) [OF i4] e1 by (simp_all add: keeps_def)
qed

text \<open>Declarations and nested subprograms do not touch the mark.\<close>

lemma add_types_same: "add_types cx ts = Inr cx' \<Longrightarrow> same_func cx cx'"
  by (induction ts arbitrary: cx) (fastforce simp: same_func_def)+

lemma add_decls_same: "add_decls cx ds off b = Inr (off', cx') \<Longrightarrow> same_func cx cx'"
  by (induction ds arbitrary: cx off) (fastforce simp: same_func_def)+

lemma subprog_decls_same: "subprog_decls cx name tys args locals retty = Inr (retslot, off, cx') \<Longrightarrow> same_func cx cx'"
  by (auto simp: subprog_decls_def same_func_simps dest!: add_types_same add_decls_same intro: same_func_trans)

lemma analyze_subprog_same: "analyze_subprog cx d = Inr cx' \<Longrightarrow> acx_ret_assigned cx' = acx_ret_assigned cx"
  by (cases d) (auto simp: subprog_restore_def simp del: analyze_subprog.simps elim!: subprog_parts)

lemma analyze_subprogs_same: "analyze_subprogs cx ds = Inr cx' \<Longrightarrow> acx_ret_assigned cx' = acx_ret_assigned cx"
  by (induction ds arbitrary: cx) (auto dest: analyze_subprog_same)

lemma body_unmarked:
  assumes e: "subprog_enter old name k = Inr cx1"
    and d: "subprog_decls cx1 name tys args locals retty = Inr (retslot, off, cx2)"
    and s: "analyze_subprogs cx2 subprogs = Inr cx3" and p: "subprog_prologue cx3 off = Inr (captured, cx4)"
  shows "\<not> acx_ret_assigned cx4"
proof -
  have "\<not> acx_ret_assigned cx1" using e by (auto simp: subprog_enter_def elim!: enterE)
  moreover have "acx_ret_assigned cx4 = acx_ret_assigned cx3"
    using prologue_emits [OF p] by (auto simp: printed_def)
  ultimately show ?thesis
    using subprog_decls_same [OF d] analyze_subprogs_same [OF s] by (simp add: same_func_def)
qed

lemma function_body_gen:
  assumes wf: "acx_wf cx" and top: "\<not> acx_toplevel cx"
    and r: "analyze_subprog cx (Subdecl (TYPE_FUNCTION SUB_FUNCTION args retty) name locals subprogs tys body) = Inr cx'"
  shows "assigns name body"
  using r
proof (rule subprog_parts)
  fix k args' retty' cx1 retslot off cx2 cx3 captured cx4 cx5 cx6
  assume h: "head_func (TYPE_FUNCTION SUB_FUNCTION args retty) = Inr (k, args', retty')"
    and a: "subprog_enter cx name k = Inr cx1" "subprog_decls cx1 name tys args' locals retty' = Inr (retslot, off, cx2)"
      "analyze_subprogs cx2 subprogs = Inr cx3" "subprog_prologue cx3 off = Inr (captured, cx4)"
    and b: "analyze_stmt cx4 body = Inr cx5" and e: "subprog_epilogue cx5 retslot off captured = Inr cx6"
  have k: "k = SUB_FUNCTION" using h by (simp add: head_func_def)
  note c = body_context [OF wf a]
  have "acx_func_type cx5 = SUB_FUNCTION" using keeps.analyze_stmt_frame(1) [OF b] c(3) k by (simp add: keeps_def)
  with e have "acx_ret_assigned cx5" by (auto elim: epilogueE)
  with analyze_stmt_marks(1) [OF b] body_unmarked [OF a] c(4,5) top show ?thesis by (simp add: marks_def)
qed

section \<open>Loops in functions\<close>

text \<open>A statement without assignments.\<close>

fun assign_free :: "ast_stmt option \<Rightarrow> bool"
  and assigns_free :: "ast_stmt option list \<Rightarrow> bool" where
  "assign_free None = True"
| "assign_free (Some (STMT_ASSIGN l e)) = False"
| "assign_free (Some (STMT_FOR i start stop body)) = assign_free body"
| "assign_free (Some (STMT_ITE c th el)) = (assign_free th \<and> assign_free el)"
| "assign_free (Some (STMT_PROC p args)) = True"
| "assign_free (Some (STMT_STMTS ss)) = assigns_free ss"
| "assign_free (Some (STMT_WDO c body)) = assign_free body"
| "assigns_free [] = True"
| "assigns_free (s # ss) = (assign_free s \<and> assigns_free ss)"

lemma no_names_no_assign:
  "stmt_ok te False SUB_FUNCTION (\<lambda>_. False) s \<Longrightarrow> assign_free s"
  "stmts_ok te False SUB_FUNCTION (\<lambda>_. False) ss \<Longrightarrow> assigns_free ss"
  by (induction s and ss rule: stmt_induct)
    (auto simp: assign_ok_def split: option.splits ast_expr.splits)

end
