(* ===== verification/Destroy.thy ===== *)
theory Destroy
  imports Ast
begin

text \<open>
  The destructors of ast.c. A block of the tree is named by the pointers that lead to it from the
  root (\<open>loc\<close>): a field of a struct, an element of a list, or a node of a list after the first,
  which is part of the list header. The tree that the parser builds shares nothing, so different
  \<open>loc\<close>s are different blocks. A destructor is the sequence of the blocks it passes to \<open>free\<close>, in
  order, relative to the block it is called on, which is \<open>[]\<close>; a null pointer frees nothing.

  \<open>block_expr\<close> and its companions follow the pointers of ast.h and say which blocks a tree has,
  without an order. The lemmas show that every destructor frees the blocks of its tree, each once.
\<close>

datatype step = Fld string | Elt nat | Node nat

type_synonym loc = "step list"

text \<open>The blocks \<open>bs\<close> of what the pointer \<open>s\<close> points to, and a block without pointers.\<close>

definition at :: "step \<Rightarrow> loc list \<Rightarrow> loc list" where
  "at s bs = map (Cons s) bs"

definition leaf :: "loc list" where
  "leaf = [[]]"

section \<open>Lists\<close>

text \<open>
  \<open>list_free\<close>, given what the destructor of the list frees for each element: the elements from
  the second on, each followed by its node, then the first element, then the header.
\<close>

fun free_nodes :: "nat \<Rightarrow> loc list list \<Rightarrow> loc list" where
  "free_nodes i [] = []"
| "free_nodes i (b # bs) = at (Elt i) b @ [[Node i]] @ free_nodes (Suc i) bs"

definition free_list :: "loc list list \<Rightarrow> loc list" where
  "free_list bs = (case bs of [] \<Rightarrow> [] | b # bs' \<Rightarrow> free_nodes 1 bs' @ at (Elt 0) b) @ [[]]"

section \<open>Destructors\<close>

definition free_path :: "ast_path \<Rightarrow> loc list" where
  "free_path p = at (Fld ''components'') (free_list (map (\<lambda>_. leaf) p)) @ [[]]"

fun free_expr :: "ast_expr \<Rightarrow> loc list" where
  "free_expr (EXPR_APP name args) =
     at (Fld ''args'') (free_list (map free_expr args)) @ at (Fld ''name'') (free_path name) @ [[]]"
| "free_expr (EXPR_BIN left op right) = at (Fld ''left'') (free_expr left) @ at (Fld ''right'') (free_expr right) @ [[]]"
| "free_expr (EXPR_DEREF e) = at (Fld ''deref'') (free_expr e) @ [[]]"
| "free_expr (EXPR_IDX p e) = at (Fld ''path'') (free_path p) @ at (Fld ''expr'') (free_expr e) @ [[]]"
| "free_expr (EXPR_LIT lit) = at (Fld ''lit'') leaf @ [[]]"
| "free_expr (EXPR_PATH p) = at (Fld ''path'') (free_path p) @ [[]]"
| "free_expr (EXPR_UN op e) = at (Fld ''expr'') (free_expr e) @ [[]]"
| "free_expr (EXPR_ADDROF e) = at (Fld ''addrof'') (free_expr e) @ [[]]"

fun free_stmt :: "ast_stmt option \<Rightarrow> loc list" where
  "free_stmt None = []"
| "free_stmt (Some (STMT_ASSIGN lvalue rvalue)) =
     at (Fld ''lvalue'') (free_expr lvalue) @ at (Fld ''rvalue'') (free_expr rvalue) @ [[]]"
| "free_stmt (Some (STMT_ITE c th el)) =
     at (Fld ''cond'') (free_expr c) @ at (Fld ''then'') (free_stmt th) @ at (Fld ''elze'') (free_stmt el) @ [[]]"
| "free_stmt (Some (STMT_STMTS ss)) = at (Fld ''stmts'') (free_list (map free_stmt ss)) @ [[]]"
| "free_stmt (Some (STMT_PROC name args)) =
     at (Fld ''name'') (free_path name) @ at (Fld ''args'') (free_list (map free_expr args)) @ [[]]"
| "free_stmt (Some (STMT_WDO c body)) = at (Fld ''cond'') (free_expr c) @ at (Fld ''body'') (free_stmt body) @ [[]]"
| "free_stmt (Some (STMT_FOR i start stop body)) =
     at (Fld ''id'') leaf @ at (Fld ''start'') (free_expr start) @ at (Fld ''end'') (free_expr stop)
     @ at (Fld ''body'') (free_stmt body) @ [[]]"

text \<open>A type without pointers (\<open>TYPE_VOID\<close> too, with a message) is only its own block.\<close>

fun free_type :: "ast_type option \<Rightarrow> loc list"
  and free_decls :: "ast_decls \<Rightarrow> loc list"
  and free_record_field :: "ast_record_field \<Rightarrow> loc list" where
  "free_type None = []"
| "free_type (Some (TYPE_ARRAY lower upper elt)) =
     at (Fld ''lower'') leaf @ at (Fld ''upper'') leaf @ at (Fld ''elt_type'') (free_type (Some elt)) @ [[]]"
| "free_type (Some (TYPE_POINTER t)) = at (Fld ''pointer'') (free_type (Some t)) @ [[]]"
| "free_type (Some (TYPE_FUNCTION k args retty)) =
     at (Fld ''retty'') (free_type retty) @ at (Fld ''args'') (free_list (map free_decls args)) @ [[]]"
| "free_type (Some (TYPE_RECORD fs)) = at (Fld ''record'') (free_list (map free_record_field fs)) @ [[]]"
| "free_type (Some (TYPE_REF n)) = at (Fld ''ref'') leaf @ [[]]"
| "free_type (Some TYPE_INTEGER) = [[]]"
| "free_type (Some TYPE_STRING) = [[]]"
| "free_type (Some TYPE_REAL) = [[]]"
| "free_type (Some TYPE_BOOLEAN) = [[]]"
| "free_type (Some TYPE_CHAR) = [[]]"
| "free_type (Some TYPE_VOID) = [[]]"
| "free_decls (Decls names t) =
     at (Fld ''type'') (free_type (Some t)) @ at (Fld ''names'') (free_list (map (\<lambda>_. leaf) names)) @ [[]]"
| "free_record_field (Field n t) = at (Fld ''name'') leaf @ at (Fld ''type'') (free_type (Some t)) @ [[]]"

definition free_type_decl :: "ast_type_decl \<Rightarrow> loc list" where
  "free_type_decl t = at (Fld ''name'') leaf @ at (Fld ''type'') (free_type (Some (td_type t))) @ [[]]"

fun free_subprogram_decl :: "ast_subdecl \<Rightarrow> loc list" where
  "free_subprogram_decl (Subdecl head name decls subprogs types body) =
     at (Fld ''head'') (free_type (Some head)) @ at (Fld ''subprogs'') (free_list (map free_subprogram_decl subprogs))
     @ at (Fld ''decls'') (free_list (map free_decls decls)) @ at (Fld ''types'') (free_list (map free_type_decl types))
     @ at (Fld ''body'') (free_stmt body) @ at (Fld ''name'') leaf @ [[]]"

definition free_program :: "ast_program \<Rightarrow> loc list" where
  "free_program p =
     at (Fld ''name'') leaf @ at (Fld ''args'') (free_list (map (\<lambda>_. leaf) (p_args p)))
     @ at (Fld ''decls'') (free_list (map free_decls (p_decls p)))
     @ at (Fld ''types'') (free_list (map free_type_decl (p_types p)))
     @ at (Fld ''subprogs'') (free_list (map free_subprogram_decl (p_subprogs p)))
     @ at (Fld ''body'') (free_stmt (p_body p)) @ [[]]"

section \<open>The blocks of a tree\<close>

fun in_list :: "('a \<Rightarrow> loc \<Rightarrow> bool) \<Rightarrow> 'a list \<Rightarrow> loc \<Rightarrow> bool" where
  "in_list v xs [] = True"
| "in_list v xs (Node i # r) = (0 < i \<and> i < length xs \<and> r = [])"
| "in_list v xs (Elt i # r) = (i < length xs \<and> v (xs ! i) r)"
| "in_list v xs (Fld f # r) = False"

lemma in_list_cong [fundef_cong]:
  assumes "xs = ys" "r = s" and "\<And>i q. s = Elt i # q \<Longrightarrow> i < length ys \<Longrightarrow> v (ys ! i) q = w (ys ! i) q"
  shows "in_list v xs r = in_list w ys s"
  using assms by (cases "(w, ys, s)" rule: in_list.cases) auto

definition block_leaf :: "'a \<Rightarrow> loc \<Rightarrow> bool" where
  "block_leaf x r \<longleftrightarrow> r = []"

fun block_path :: "ast_path \<Rightarrow> loc \<Rightarrow> bool" where
  "block_path p [] = True"
| "block_path p (Fld f # r) = (f = ''components'' \<and> in_list block_leaf p r)"
| "block_path p (_ # r) = False"

fun block_expr :: "ast_expr \<Rightarrow> loc \<Rightarrow> bool" where
  "block_expr e [] = True"
| "block_expr e (Fld f # r) = (case e of
       EXPR_APP name args \<Rightarrow> f = ''name'' \<and> block_path name r \<or> f = ''args'' \<and> in_list block_expr args r
     | EXPR_BIN left op right \<Rightarrow> f = ''left'' \<and> block_expr left r \<or> f = ''right'' \<and> block_expr right r
     | EXPR_DEREF e \<Rightarrow> f = ''deref'' \<and> block_expr e r
     | EXPR_IDX p e \<Rightarrow> f = ''path'' \<and> block_path p r \<or> f = ''expr'' \<and> block_expr e r
     | EXPR_LIT lit \<Rightarrow> f = ''lit'' \<and> r = []
     | EXPR_PATH p \<Rightarrow> f = ''path'' \<and> block_path p r
     | EXPR_UN op e \<Rightarrow> f = ''expr'' \<and> block_expr e r
     | EXPR_ADDROF e \<Rightarrow> f = ''addrof'' \<and> block_expr e r)"
| "block_expr e (_ # r) = False"

fun block_stmt :: "ast_stmt option \<Rightarrow> loc \<Rightarrow> bool" where
  "block_stmt None r = False"
| "block_stmt (Some s) [] = True"
| "block_stmt (Some s) (Fld f # r) = (case s of
       STMT_ASSIGN l e \<Rightarrow> f = ''lvalue'' \<and> block_expr l r \<or> f = ''rvalue'' \<and> block_expr e r
     | STMT_ITE c th el \<Rightarrow> f = ''cond'' \<and> block_expr c r \<or> f = ''then'' \<and> block_stmt th r \<or> f = ''elze'' \<and> block_stmt el r
     | STMT_STMTS ss \<Rightarrow> f = ''stmts'' \<and> in_list block_stmt ss r
     | STMT_PROC name args \<Rightarrow> f = ''name'' \<and> block_path name r \<or> f = ''args'' \<and> in_list block_expr args r
     | STMT_WDO c body \<Rightarrow> f = ''cond'' \<and> block_expr c r \<or> f = ''body'' \<and> block_stmt body r
     | STMT_FOR i start stop body \<Rightarrow> f = ''id'' \<and> r = [] \<or> f = ''start'' \<and> block_expr start r
         \<or> f = ''end'' \<and> block_expr stop r \<or> f = ''body'' \<and> block_stmt body r)"
| "block_stmt (Some s) (_ # r) = False"

fun block_type :: "ast_type option \<Rightarrow> loc \<Rightarrow> bool"
  and block_decls :: "ast_decls \<Rightarrow> loc \<Rightarrow> bool"
  and block_field :: "ast_record_field \<Rightarrow> loc \<Rightarrow> bool" where
  "block_type None r = False"
| "block_type (Some t) [] = True"
| "block_type (Some t) (Fld f # r) = (case t of
       TYPE_ARRAY lower upper elt \<Rightarrow> f = ''lower'' \<and> r = [] \<or> f = ''upper'' \<and> r = [] \<or> f = ''elt_type'' \<and> block_type (Some elt) r
     | TYPE_POINTER t \<Rightarrow> f = ''pointer'' \<and> block_type (Some t) r
     | TYPE_FUNCTION k args retty \<Rightarrow> f = ''retty'' \<and> block_type retty r \<or> f = ''args'' \<and> in_list block_decls args r
     | TYPE_RECORD fs \<Rightarrow> f = ''record'' \<and> in_list block_field fs r
     | TYPE_REF n \<Rightarrow> f = ''ref'' \<and> r = []
     | _ \<Rightarrow> False)"
| "block_type (Some t) (_ # r) = False"
| "block_decls d [] = True"
| "block_decls d (Fld f # r) = (f = ''type'' \<and> block_type (Some (d_type d)) r \<or> f = ''names'' \<and> in_list block_leaf (d_names d) r)"
| "block_decls d (_ # r) = False"
| "block_field d [] = True"
| "block_field d (Fld f # r) = (f = ''name'' \<and> r = [] \<or> f = ''type'' \<and> block_type (Some (rf_type d)) r)"
| "block_field d (_ # r) = False"

fun block_type_decl :: "ast_type_decl \<Rightarrow> loc \<Rightarrow> bool" where
  "block_type_decl t [] = True"
| "block_type_decl t (Fld f # r) = (f = ''name'' \<and> r = [] \<or> f = ''type'' \<and> block_type (Some (td_type t)) r)"
| "block_type_decl t (_ # r) = False"

fun block_subprogram :: "ast_subdecl \<Rightarrow> loc \<Rightarrow> bool" where
  "block_subprogram d [] = True"
| "block_subprogram d (Fld f # r) =
     (f = ''name'' \<and> r = [] \<or> f = ''head'' \<and> block_type (Some (sd_head d)) r
      \<or> f = ''decls'' \<and> in_list block_decls (sd_decls d) r \<or> f = ''types'' \<and> in_list block_type_decl (sd_types d) r
      \<or> f = ''subprogs'' \<and> in_list block_subprogram (sd_subprogs d) r \<or> f = ''body'' \<and> block_stmt (sd_body d) r)"
| "block_subprogram d (_ # r) = False"

fun block_program :: "ast_program \<Rightarrow> loc \<Rightarrow> bool" where
  "block_program p [] = True"
| "block_program p (Fld f # r) =
     (f = ''name'' \<and> r = [] \<or> f = ''args'' \<and> in_list block_leaf (p_args p) r
      \<or> f = ''decls'' \<and> in_list block_decls (p_decls p) r \<or> f = ''types'' \<and> in_list block_type_decl (p_types p) r
      \<or> f = ''subprogs'' \<and> in_list block_subprogram (p_subprogs p) r \<or> f = ''body'' \<and> block_stmt (p_body p) r)"
| "block_program p (_ # r) = False"

section \<open>Every block is freed once\<close>

definition frees :: "loc list \<Rightarrow> (loc \<Rightarrow> bool) \<Rightarrow> bool" where
  "frees bs v \<longleftrightarrow> distinct bs \<and> (\<forall>r. r \<in> set bs \<longleftrightarrow> v r)"

lemma at_simps [simp]:
  "s # r \<in> set (at t bs) \<longleftrightarrow> s = t \<and> r \<in> set bs"
  "[] \<notin> set (at t bs)"
  "distinct (at s bs) = distinct bs"
  "at s [] = []"
  "s \<noteq> t \<Longrightarrow> set (at s bs) \<inter> set (at t cs) = {}"
  by (auto simp: at_def distinct_map inj_on_def)

lemma at_apart [dest]: "x \<in> set (at s bs) \<Longrightarrow> x \<in> set (at t cs) \<Longrightarrow> s = t"
  by (auto simp: at_def)

lemma leaf_simps [simp]: "r \<in> set leaf \<longleftrightarrow> r = []" "distinct leaf"
  by (simp_all add: leaf_def)

lemma frees_leaf: "frees leaf (block_leaf x)"
  by (simp add: frees_def block_leaf_def)

lemma loc_cases:
  obtains "r = ([] :: loc)" | f q where "r = Fld f # q" | i q where "r = Elt i # q" | i q where "r = Node i # q"
proof (cases r)
  case (Cons s q)
  then show thesis using that by (cases s) auto
qed (rule that)

lemma free_nodes_mem:
  "s # r \<in> set (free_nodes i bs)
    \<longleftrightarrow> (\<exists>j < length bs. s = Node (i + j) \<and> r = [] \<or> s = Elt (i + j) \<and> r \<in> set (bs ! j))"
proof (induction bs arbitrary: i)
  case (Cons b bs)
  show ?case by (auto simp: Cons.IH less_Suc_eq_0_disj)
qed simp

lemma free_nodes_Nil [simp]: "[] \<notin> set (free_nodes i bs)"
  by (induction i bs rule: free_nodes.induct) simp_all

lemma free_nodes_distinct: "distinct (free_nodes i bs) \<longleftrightarrow> (\<forall>b \<in> set bs. distinct b)"
proof (induction i bs rule: free_nodes.induct)
  case (2 i b bs)
  have "set (at (Elt i) b) \<inter> set (free_nodes (Suc i) bs) = {}"
    by (auto simp: at_def free_nodes_mem)
  with 2 show ?case by (auto simp: free_nodes_mem)
qed simp

lemma frees_list:
  assumes "\<And>x. x \<in> set xs \<Longrightarrow> frees (f x) (v x)"
  shows "frees (free_list (map f xs)) (in_list v xs)"
proof (cases xs)
  case Nil
  have "r \<in> set [[]] \<longleftrightarrow> in_list v [] r" for r
    by (cases r rule: loc_cases) simp_all
  with Nil show ?thesis by (simp add: frees_def free_list_def)
next
  case (Cons x ys)
  have d: "distinct (f y)" and m: "q \<in> set (f y) \<longleftrightarrow> v y q" if "y \<in> set xs" for y q
    using assms [OF that] by (simp_all add: frees_def)
  have "set (free_nodes 1 (map f ys)) \<inter> set (at (Elt 0) (f x)) = {}"
    by (auto simp: at_def free_nodes_mem)
  moreover have "distinct (free_nodes 1 (map f ys))"
    using d Cons by (auto simp: free_nodes_distinct)
  ultimately have "distinct (free_list (map f xs))"
    using d [of x] Cons by (simp add: free_list_def)
  moreover have "r \<in> set (free_list (map f xs)) \<longleftrightarrow> in_list v xs r" for r
  proof (cases r rule: loc_cases)
    case (3 i q)
    then show ?thesis
      using m [of "xs ! i"] Cons
      by (cases i) (auto simp: free_list_def free_nodes_mem)
  next
    case (4 i q)
    then show ?thesis
      using Cons by (cases i) (auto simp: free_list_def free_nodes_mem)
  qed (use Cons in \<open>auto simp: free_list_def free_nodes_mem\<close>)
  ultimately show ?thesis by (simp add: frees_def)
qed

lemma frees_leaves: "frees (free_list (map (\<lambda>_. leaf) xs)) (in_list block_leaf xs)"
  by (rule frees_list) (rule frees_leaf)

lemma frees_path: "frees (free_path p) (block_path p)"
proof -
  note l = frees_leaves [of p]
  have "r \<in> set (free_path p) \<longleftrightarrow> block_path p r" for r
    using l by (cases r rule: loc_cases) (auto simp: free_path_def frees_def)
  with l show ?thesis by (auto simp: free_path_def frees_def)
qed

lemma freesI:
  assumes "distinct bs" "[] \<in> set bs \<longleftrightarrow> v []" "\<And>f q. Fld f # q \<in> set bs \<longleftrightarrow> v (Fld f # q)"
    and "\<And>i q. Elt i # q \<in> set bs \<longleftrightarrow> v (Elt i # q)" "\<And>i q. Node i # q \<in> set bs \<longleftrightarrow> v (Node i # q)"
  shows "frees bs v"
proof -
  have "r \<in> set bs \<longleftrightarrow> v r" for r
    using assms(2-5) by (cases r rule: loc_cases) simp_all
  with assms(1) show ?thesis by (simp add: frees_def)
qed

lemma frees_mem: "frees bs v \<Longrightarrow> r \<in> set bs \<longleftrightarrow> v r"
  and frees_distinct: "frees bs v \<Longrightarrow> distinct bs"
  by (simp_all add: frees_def)

lemmas frees_simps = frees_mem [OF frees_path] frees_distinct [OF frees_path] block_leaf_def

lemma free_expr_frees: "frees (free_expr e) (block_expr e)"
proof (induction e rule: free_expr.induct)
  case (1 name args)
  have a: "frees (free_list (map free_expr args)) (in_list block_expr args)"
    by (rule frees_list) (rule 1)
  show ?case by (rule freesI) (auto simp: frees_mem [OF a] frees_distinct [OF a] frees_simps)
qed (rule freesI; auto simp: frees_def frees_simps)+

lemmas free_expr_simps = frees_mem [OF free_expr_frees] frees_distinct [OF free_expr_frees]
  frees_mem [OF frees_list [OF free_expr_frees]] frees_distinct [OF frees_list [OF free_expr_frees]]

lemma free_stmt_frees: "frees (free_stmt s) (block_stmt s)"
proof (induction s rule: free_stmt.induct)
  case (4 ss)
  have a: "frees (free_list (map free_stmt ss)) (in_list block_stmt ss)"
    by (rule frees_list) (rule 4)
  show ?case by (rule freesI) (auto simp: frees_mem [OF a] frees_distinct [OF a])
qed (rule freesI; auto simp: frees_def frees_simps free_expr_simps)+

lemma free_type_frees:
  "frees (free_type ty) (block_type ty)" "frees (free_decls d) (block_decls d)" "frees (free_record_field f) (block_field f)"
proof (induction ty and d and f rule: free_type_free_decls_free_record_field.induct)
  case (4 k args retty)
  have a: "frees (free_list (map free_decls args)) (in_list block_decls args)"
    by (rule frees_list) (rule 4)
  from 4(1) show ?case by - (rule freesI; auto simp: frees_mem [OF a] frees_distinct [OF a] frees_def)
next
  case (5 fs)
  have a: "frees (free_list (map free_record_field fs)) (in_list block_field fs)"
    by (rule frees_list) (rule 5)
  show ?case by (rule freesI) (auto simp: frees_mem [OF a] frees_distinct [OF a])
next
  case (13 names t)
  note a = frees_leaves [of names]
  from 13 show ?case by - (rule freesI; auto simp: frees_mem [OF a] frees_distinct [OF a] frees_def)
qed (rule freesI; auto simp: frees_def)+

lemma free_type_decl_frees: "frees (free_type_decl t) (block_type_decl t)"
  by (rule freesI) (auto simp: free_type_decl_def frees_mem [OF free_type_frees(1)] frees_distinct [OF free_type_frees(1)])

lemmas free_decl_simps = frees_mem [OF free_type_frees(1)] frees_distinct [OF free_type_frees(1)]
  frees_mem [OF frees_list [OF free_type_frees(2)]] frees_distinct [OF frees_list [OF free_type_frees(2)]]
  frees_mem [OF frees_list [OF free_type_decl_frees]] frees_distinct [OF frees_list [OF free_type_decl_frees]]
  frees_mem [OF frees_leaves] frees_distinct [OF frees_leaves]
  frees_mem [OF free_stmt_frees] frees_distinct [OF free_stmt_frees]

lemma free_subprogram_frees: "frees (free_subprogram_decl d) (block_subprogram d)"
proof (induction d rule: free_subprogram_decl.induct)
  case (1 head name decls subprogs types body)
  have a: "frees (free_list (map free_subprogram_decl subprogs)) (in_list block_subprogram subprogs)"
    by (rule frees_list) (rule 1)
  show ?case
    by (rule freesI) (auto simp: frees_mem [OF a] frees_distinct [OF a] free_decl_simps Int_Un_distrib)
qed

lemma free_program_frees: "frees (free_program p) (block_program p)"
  by (rule freesI)
    (simp_all add: free_program_def free_decl_simps Int_Un_distrib frees_mem [OF frees_list [OF free_subprogram_frees]]
      frees_distinct [OF frees_list [OF free_subprogram_frees]])

section \<open>Blocks that are freed elsewhere\<close>

text \<open>
  The analysis of a FOR wraps the string of the induction variable in a path and frees the path,
  string included (analysis.c, \<open>free_path(ipath)\<close>). \<open>for_ids_*\<close> are these strings, in the order the
  analysis frees them. The name of a type declaration becomes the name of the entry \<open>stab_add_type\<close>
  makes, and \<open>stab_free\<close> frees it with the entry: \<open>type_names_*\<close>.
\<close>

fun elts :: "nat \<Rightarrow> loc list list \<Rightarrow> loc list" where
  "elts i [] = []"
| "elts i (b # bs) = at (Elt i) b @ elts (Suc i) bs"

fun for_ids_stmt :: "ast_stmt option \<Rightarrow> loc list" where
  "for_ids_stmt None = []"
| "for_ids_stmt (Some (STMT_ASSIGN lvalue rvalue)) = []"
| "for_ids_stmt (Some (STMT_FOR i start stop body)) = at (Fld ''id'') leaf @ at (Fld ''body'') (for_ids_stmt body)"
| "for_ids_stmt (Some (STMT_ITE c th el)) = at (Fld ''then'') (for_ids_stmt th) @ at (Fld ''elze'') (for_ids_stmt el)"
| "for_ids_stmt (Some (STMT_PROC name args)) = []"
| "for_ids_stmt (Some (STMT_STMTS ss)) = at (Fld ''stmts'') (elts 0 (map for_ids_stmt ss))"
| "for_ids_stmt (Some (STMT_WDO c body)) = at (Fld ''body'') (for_ids_stmt body)"

fun for_ids_subprog :: "ast_subdecl \<Rightarrow> loc list" where
  "for_ids_subprog (Subdecl head name decls subprogs types body) =
     at (Fld ''subprogs'') (elts 0 (map for_ids_subprog subprogs)) @ at (Fld ''body'') (for_ids_stmt body)"

definition for_ids :: "ast_program \<Rightarrow> loc list" where
  "for_ids p = at (Fld ''subprogs'') (elts 0 (map for_ids_subprog (p_subprogs p))) @ at (Fld ''body'') (for_ids_stmt (p_body p))"

fun type_names_subprog :: "ast_subdecl \<Rightarrow> loc list" where
  "type_names_subprog (Subdecl head name decls subprogs types body) =
     at (Fld ''types'') (elts 0 (map (\<lambda>_. at (Fld ''name'') leaf) types))
     @ at (Fld ''subprogs'') (elts 0 (map type_names_subprog subprogs))"

definition type_names :: "ast_program \<Rightarrow> loc list" where
  "type_names p =
     at (Fld ''types'') (elts 0 (map (\<lambda>_. at (Fld ''name'') leaf) (p_types p)))
     @ at (Fld ''subprogs'') (elts 0 (map type_names_subprog (p_subprogs p)))"

text \<open>The blocks of the tree that are freed when an accepted program has been compiled.\<close>

definition released :: "ast_program \<Rightarrow> loc list" where
  "released p = for_ids p @ free_program p @ type_names p"

lemma elts_mem: "s # r \<in> set (elts i bs) \<longleftrightarrow> (\<exists>j < length bs. s = Elt (i + j) \<and> r \<in> set (bs ! j))"
  by (induction bs arbitrary: i) (auto simp: less_Suc_eq_0_disj)

lemma elts_Nil [simp]: "[] \<notin> set (elts i bs)"
  by (induction i bs rule: elts.induct) simp_all

lemma elts_in_list:
  assumes "r \<in> set (elts 0 (map f xs))" and "\<And>x q. x \<in> set xs \<Longrightarrow> q \<in> set (f x) \<Longrightarrow> v x q"
  shows "in_list v xs r"
proof (cases r)
  case Nil
  with assms(1) show ?thesis by simp
next
  case (Cons s q)
  with assms show ?thesis by (auto simp: elts_mem)
qed

lemma at_memE [elim]:
  assumes "r \<in> set (at s bs)"
  obtains q where "r = s # q" "q \<in> set bs"
  using assms by (auto simp: at_def)

lemma for_ids_stmt_block: "r \<in> set (for_ids_stmt s) \<Longrightarrow> block_stmt s r"
proof (induction s arbitrary: r rule: for_ids_stmt.induct)
  case (6 ss)
  then show ?case by (auto elim!: at_memE elts_in_list)
qed (auto elim!: at_memE)

lemma for_ids_subprog_block: "r \<in> set (for_ids_subprog d) \<Longrightarrow> block_subprogram d r"
proof (induction d arbitrary: r rule: for_ids_subprog.induct)
  case (1 head name decls subprogs types body)
  then show ?case by (auto elim!: at_memE elts_in_list dest: for_ids_stmt_block)
qed

lemma for_ids_block: "r \<in> set (for_ids p) \<Longrightarrow> r \<in> set (free_program p)"
  unfolding frees_mem [OF free_program_frees] for_ids_def
  by (auto elim!: at_memE elts_in_list dest: for_ids_stmt_block for_ids_subprog_block)

lemma type_names_subprog_block: "r \<in> set (type_names_subprog d) \<Longrightarrow> block_subprogram d r"
proof (induction d arbitrary: r rule: type_names_subprog.induct)
  case (1 head name decls subprogs types body)
  then show ?case by (auto elim!: at_memE elts_in_list)
qed

lemma type_names_block: "r \<in> set (type_names p) \<Longrightarrow> r \<in> set (free_program p)"
  unfolding frees_mem [OF free_program_frees] type_names_def
  by (auto elim!: at_memE elts_in_list dest: type_names_subprog_block)

section \<open>Properties\<close>

text \<open>C23. \<open>free_program\<close> frees every block of the tree exactly once: it passes to \<open>free\<close> those
  blocks that the pointers of the tree lead to, and none of them twice.\<close>

theorem free_program_once:
  "distinct (free_program p) \<and> (r \<in> set (free_program p) \<longleftrightarrow> block_program p r)"
  using free_program_frees [of p] by (simp add: frees_def)

lemma released_distinct:
  "distinct (released p) \<longleftrightarrow> for_ids p = [] \<and> type_names p = []"
proof -
  have "for_ids p = []" if "set (for_ids p) \<inter> set (free_program p) = {}"
    using that for_ids_block [of _ p] by (cases "for_ids p") auto
  moreover have "type_names p = []" if "set (free_program p) \<inter> set (type_names p) = {}"
    using that type_names_block [of _ p] by (cases "type_names p") auto
  ultimately show ?thesis
    using frees_distinct [OF free_program_frees, of p] by (auto simp: released_def Int_Un_distrib)
qed


end
