(* ===== verification/Driver.thy ===== *)
theory Driver
  imports Analysis Destroy
begin

text \<open>
  The phases of the compiler (driver.c) and its command line (main.c). The lexer and the parser are
  generated by flex and bison from lexer.l and parser.y: \<open>scan\<close> gives the tokens of a text before its
  end (the model of lexer.l is in Scanner), \<open>parse\<close> what \<open>yyparse\<close> returns and the program it has built. The input file (\<open>open\<close>, \<open>lseek\<close>, \<open>mmap\<close>) is a parameter as well.
\<close>

section \<open>Options\<close>

definition DUMP_TOKENS :: int where "DUMP_TOKENS = push_bit 0 1"
definition DUMP_AST :: int where "DUMP_AST = push_bit 1 1"
definition NO_PARSE :: int where "NO_PARSE = push_bit 2 1"
definition NO_ANALYSIS :: int where "NO_ANALYSIS = push_bit 3 1"
definition NO_CODEGEN :: int where "NO_CODEGEN = push_bit 4 1"
definition DUMP_IR :: int where "DUMP_IR = push_bit 5 1"

lemmas option_defs = DUMP_TOKENS_def DUMP_AST_def NO_PARSE_def NO_ANALYSIS_def NO_CODEGEN_def DUMP_IR_def

definition has_option :: "int \<Rightarrow> int \<Rightarrow> bool" where
  "has_option options opt \<longleftrightarrow> and options opt \<noteq> 0"

section \<open>The phases\<close>

text \<open>The loop over the tokens prints the end of the input too.\<close>

fun dump_tokens :: "(token \<Rightarrow> int) \<Rightarrow> token list \<Rightarrow> io list" where
  "dump_tokens tc [] = print_token tc TOK_EOF"
| "dump_tokens tc (t # ts) = print_token tc t @ (if t \<noteq> TOK_EOF then dump_tokens tc ts else [])"

text \<open>
  \<open>compile_input\<close>: what is printed before the analysis, and the analysis if it is reached (its
  output goes to standard output, after the rest). At the end the tree and the symbol table are freed;
  with what the analysis has freed before, a block must not be freed twice (\<open>released\<close> in Destroy).
\<close>

definition compile_input ::
  "(token \<Rightarrow> int) \<Rightarrow> (string \<Rightarrow> token list) \<Rightarrow> (string \<Rightarrow> int \<times> ast_program option) \<Rightarrow>
   string \<Rightarrow> int \<Rightarrow> (io list \<times> acx option) result" where
  "compile_input tc scan parse src options =
     (let tokens = (if has_option options DUMP_TOKENS
            then dump_tokens tc (scan src) @ puts ''-- done dumping tokens --'' else []) in
      if has_option options NO_PARSE then Inr (tokens, None) else
      case parse src of (status, program) \<Rightarrow>
      if status \<noteq> 0 then Inr (tokens, None) else
      case program of
        None \<Rightarrow> if has_option options DUMP_AST \<or> \<not> has_option options NO_ANALYSIS
                then Inl (Undefined ''null pointer'') else Inr (tokens, None)
      | Some p \<Rightarrow>
          let tree = (if has_option options DUMP_AST
                then print_program tc p 0 @ puts ''-- done dumping ast --'' else []) in
          if has_option options NO_ANALYSIS then Inr (tokens @ tree, None)
          else bindr (analyze p) (\<lambda>cx.
            if distinct (released p) then Inr (tokens @ tree, Some cx) else Inl (Undefined ''double free'')))"

section \<open>The command line\<close>

text \<open>The loop over the flag characters; \<open>debug\<close> is the parser's \<open>yydebug\<close>. A failure is \<open>exit(1)\<close>.\<close>

fun read_flags :: "string \<Rightarrow> int \<Rightarrow> bool \<Rightarrow> (int \<times> bool) result" where
  "read_flags [] options debug = Inr (options, debug)"
| "read_flags (c # cs) options debug =
     (if c = CHR ''l'' then read_flags cs (or options DUMP_TOKENS) debug
      else if c = CHR ''p'' then read_flags cs (or options DUMP_AST) debug
      else if c = CHR ''i'' then read_flags cs (or options DUMP_IR) debug
      else if c = CHR ''n'' then read_flags cs (or options NO_PARSE) debug
      else if c = CHR ''N'' then read_flags cs (or options NO_ANALYSIS) debug
      else if c = CHR ''C'' then read_flags cs (or options NO_CODEGEN) debug
      else if c = CHR ''d'' then read_flags cs options True
      else Inl (Span_Err (''unknown flag: '' @ [c])))"

text \<open>
  The arguments of \<open>main\<close>, the program's own name first. \<open>argv[1] + 1\<close> steps over the first
  character without a look at it; for an empty argument it is behind the end of the string. The file
  name is always the last argument. The result is the file's contents, the options and \<open>yydebug\<close>,
  or the status 1 of an early return.
\<close>

definition main_args ::
  "(string \<Rightarrow> string option) \<Rightarrow> string list \<Rightarrow> (int + string \<times> int \<times> bool) result" where
  "main_args file argv =
     (if length argv < 2 then Inr (Inl 1) else
      case file (last argv) of
        None \<Rightarrow> Inr (Inl 1)
      | Some text \<Rightarrow>
          bindr (if length argv = 3 then
              (if argv ! 1 = [] then Inl (Undefined ''read behind the string'')
               else read_flags (tl (argv ! 1)) 0 False)
            else Inr (0, False)) (\<lambda>(options, debug).
          Inr (Inr (text, options, debug))))"

text \<open>\<open>main\<close>: the exit status, with what \<open>compile_input\<close> has done.\<close>

definition main ::
  "(token \<Rightarrow> int) \<Rightarrow> (string \<Rightarrow> token list) \<Rightarrow> (string \<Rightarrow> int \<times> ast_program option) \<Rightarrow>
   (string \<Rightarrow> string option) \<Rightarrow> string list \<Rightarrow> (int \<times> (io list \<times> acx option) option) result" where
  "main tc scan parse file argv =
     bindr (main_args file argv) (\<lambda>r. case r of
         Inl status \<Rightarrow> Inr (status, None)
       | Inr (text, options, debug) \<Rightarrow>
           bindr (compile_input tc scan parse text options) (\<lambda>o'. Inr (0, Some o')))"

text \<open>\<open>span_err\<close> (util.c): the message and the end of its line on standard error, and \<open>exit(1)\<close>. The other failures
  end the process in another way, or leave what it does open.\<close>

definition span_err :: "failure \<Rightarrow> (io list \<times> int) option" where
  "span_err e = (case e of Span_Err message \<Rightarrow> Some ([Stderr (message @ nl)], 1) | _ \<Rightarrow> None)"

end
