(* ===== verification/Demo.thy ===== *)
theory Demo
  imports Returns Driver Scoping
begin

text \<open>
  A program \<open>demo_prog\<close> with a function \<open>f\<close> and the contexts the compiler reaches on it, for the witnesses.
  \<open>demo_cx\<close> is the context after the global declarations of \<open>demo_prog\<close>, \<open>demo_call_cx\<close> the one
  in which \<open>f\<close> has been declared too, \<open>demo_body_cx\<close> the one in which the body of \<open>f\<close> is analysed.
\<close>

definition compiled :: "ast_program \<Rightarrow> string result" where
  "compiled p = bindr (analyze p) (\<lambda>cx. Inr (output_text (acx_ofd cx)))"

section \<open>Programs\<close>

definition path :: "string \<Rightarrow> ast_expr" where
  "path n = EXPR_PATH (ast_path_new n)"

text \<open>\<open>function f(n: integer): integer; var k: integer; begin f := n + x end\<close>\<close>

definition demo_head :: ast_type where
  "demo_head = TYPE_FUNCTION SUB_FUNCTION [ast_decls_new [''n''] TYPE_INTEGER] (Some TYPE_INTEGER)"

definition demo_body :: "ast_stmt option" where
  "demo_body = Some (STMT_STMTS [Some (STMT_ASSIGN (path ''f'') (EXPR_BIN (path ''n'') (Ch CHR ''+'') (path ''x'')))])"

definition demo_func :: ast_subdecl where
  "demo_func = Subdecl demo_head ''f'' [ast_decls_new [''k''] TYPE_INTEGER] [] [] demo_body"

definition demo_prog :: ast_program where
  "demo_prog = ast_program_new ''demo'' []
     [ast_decls_new [''x'', ''y''] TYPE_INTEGER, ast_decls_new [''b''] TYPE_BOOLEAN,
      ast_decls_new [''a''] (TYPE_ARRAY ''1'' ''10'' TYPE_INTEGER)] []
     [demo_func]
     (Some (STMT_STMTS [Some (STMT_ASSIGN (path ''y'') (EXPR_APP (ast_path_new ''f'') [path ''x'']))]))"

section \<open>Contexts\<close>

definition demo_stab :: stab where
  "demo_stab = get stab_new no_stab"

definition demo_cx :: acx where
  "demo_cx = snd (get (analyze_globals (initial_acx demo_stab) demo_prog) (0, initial_acx no_stab))"

definition with_func :: "string \<Rightarrow> ast_type \<Rightarrow> acx \<Rightarrow> acx" where
  "with_func n sig cx = cx\<lparr>acx_st := get (stab_add_func (acx_st cx) n sig) no_stab\<rparr>"

definition demo_call_cx :: acx where
  "demo_call_cx = with_func ''f'' demo_head demo_cx"

definition demo_entry :: acx where
  "demo_entry = get (subprog_enter demo_call_cx ''f'' SUB_FUNCTION) (initial_acx no_stab)"

definition demo_decls :: "(int \<times> int \<times> acx) result" where
  "demo_decls = subprog_decls demo_entry ''f'' [] [ast_decls_new [''n''] TYPE_INTEGER]
     [ast_decls_new [''k''] TYPE_INTEGER] (Some TYPE_INTEGER)"

definition demo_body_cx :: acx where
  "demo_body_cx = snd (snd (get demo_decls (0, 0, initial_acx no_stab)))"

lemmas demo_defs = demo_stab_def demo_cx_def demo_call_cx_def demo_entry_def demo_decls_def demo_body_cx_def

text \<open>Each step on the way succeeds.\<close>

lemma demo_globals_ok: "is_ok (analyze_globals (initial_acx demo_stab) demo_prog)"
  by code_simp

lemma demo_add_func_ok: "is_ok (stab_add_func (acx_st demo_cx) ''f'' demo_head)"
  by code_simp

lemma demo_enter_ok: "is_ok (subprog_enter demo_call_cx ''f'' SUB_FUNCTION)"
  by code_simp

lemma demo_decls_ok: "is_ok demo_decls"
  by code_simp

lemma demo_stab: "stab_new = Inr demo_stab"
  using stab_new_wf unfolding demo_stab_def by (metis get_Inr)

lemma demo_globals:
  obtains off where "analyze_globals (initial_acx demo_stab) demo_prog = Inr (off, demo_cx)"
  using demo_globals_ok by (rule is_okE) (auto simp: demo_cx_def)

lemma demo_wf: "acx_wf demo_cx" "chain (acx_st demo_cx) = [0]" "\<not> acx_toplevel demo_cx"
proof -
  obtain off where "analyze_globals (initial_acx demo_stab) demo_prog = Inr (off, demo_cx)"
    by (rule demo_globals)
  note g = globals_wf [OF demo_stab this]
  from g(1,2,4) show "acx_wf demo_cx" "chain (acx_st demo_cx) = [0]" "\<not> acx_toplevel demo_cx" by auto
qed

lemma demo_call_stab: "stab_add_func (acx_st demo_cx) ''f'' demo_head = Inr (acx_st demo_call_cx)"
  using demo_add_func_ok by (rule is_okE) (auto simp: demo_call_cx_def with_func_def)

lemma demo_call_wf: "acx_wf demo_call_cx" "chain (acx_st demo_call_cx) = [0]" "\<not> acx_toplevel demo_call_cx"
proof -
  have "ext_wf (acx_st demo_cx) (acx_st demo_call_cx)"
    using stab_add_func_ext_wf [OF acx_wfD(1) [OF demo_wf(1)] _ demo_call_stab] demo_wf(2) by simp
  from inside_ext [OF demo_wf(1) this] have "inside demo_cx demo_call_cx" by (simp add: demo_call_cx_def with_func_def)
  from insideD [OF this] show "acx_wf demo_call_cx" "chain (acx_st demo_call_cx) = [0]"
    by (simp_all add: demo_wf)
  show "\<not> acx_toplevel demo_call_cx" using demo_wf(3) by (simp add: demo_call_cx_def with_func_def)
qed

lemma demo_entry: "subprog_enter demo_call_cx ''f'' SUB_FUNCTION = Inr demo_entry"
  using demo_enter_ok by (rule is_okE) (auto simp: demo_entry_def)

lemma demo_body_decls:
  obtains retslot off where "subprog_decls demo_entry ''f'' [] [ast_decls_new [''n''] TYPE_INTEGER]
     [ast_decls_new [''k''] TYPE_INTEGER] (Some TYPE_INTEGER) = Inr (retslot, off, demo_body_cx)"
proof -
  from demo_decls_ok obtain x where "demo_decls = Inr x" by (rule is_okE)
  moreover obtain a b c where "x = (a, b, c)" by (cases x)
  ultimately show thesis using that by (auto simp: demo_decls_def demo_body_cx_def)
qed

lemma demo_body_wf: "acx_wf demo_body_cx" "chain (acx_st demo_body_cx) \<noteq> []" "\<not> acx_toplevel demo_body_cx"
proof -
  note e = subprog_enter_wf [OF demo_call_wf(1) demo_entry]
  have ne: "chain (acx_st demo_entry) \<noteq> []" using e(2) by simp
  obtain retslot off where d: "subprog_decls demo_entry ''f'' [] [ast_decls_new [''n''] TYPE_INTEGER]
     [ast_decls_new [''k''] TYPE_INTEGER] (Some TYPE_INTEGER) = Inr (retslot, off, demo_body_cx)"
    by (rule demo_body_decls)
  note i = insideD [OF subprog_decls_inside(1) [OF e(1) ne d]]
  from i(2,5) ne show "acx_wf demo_body_cx" "chain (acx_st demo_body_cx) \<noteq> []" by simp_all
  show "\<not> acx_toplevel demo_body_cx"
    using subprog_decls_same [OF d] e(9) demo_call_wf(3) by (simp add: same_func_def)
qed

end
