(* ===== verification/Labels.thy ===== *)
theory Labels
  imports AcxWf
begin

text \<open>
  Control flow of the code of a statement: the labels it defines are the numbers the label counter
  went through, each defined once, and every jump goes to one of them.
\<close>

fun labels_of :: "asm list \<Rightarrow> int list" where
  "labels_of [] = []"
| "labels_of (Label l # is) = l # labels_of is"
| "labels_of (i # is) = labels_of is"

fun jumps_of :: "asm list \<Rightarrow> int list" where
  "jumps_of [] = []"
| "jumps_of (Jump m l # is) = l # jumps_of is"
| "jumps_of (i # is) = jumps_of is"

lemma labels_of_append [simp]: "labels_of (xs @ ys) = labels_of xs @ labels_of ys"
  by (induction xs rule: labels_of.induct) simp_all

lemma jumps_of_append [simp]: "jumps_of (xs @ ys) = jumps_of xs @ jumps_of ys"
  by (induction xs rule: jumps_of.induct) simp_all

lemma plain_labels: "list_all plain code \<Longrightarrow> labels_of code = []"
  by (induction code rule: labels_of.induct) simp_all

lemma plain_jumps: "list_all plain code \<Longrightarrow> jumps_of code = []"
  by (induction code rule: jumps_of.induct) simp_all

text \<open>The labels and jumps between two contexts.\<close>

definition flow :: "acx \<Rightarrow> acx \<Rightarrow> int list \<Rightarrow> int list \<Rightarrow> bool" where
  "flow cx cx' ls js \<longleftrightarrow> (\<exists>code. acx_ofd cx' = acx_ofd cx @ code \<and> labels_of code = ls \<and> jumps_of code = js)"

lemma flow_refl: "flow cx cx [] []"
  by (simp add: flow_def)

lemma flow_trans: "flow a b l1 j1 \<Longrightarrow> flow b c l2 j2 \<Longrightarrow> flow a c (l1 @ l2) (j1 @ j2)"
  by (force simp: flow_def)

lemma flow_emit: "flow cx (emit code cx) (labels_of code) (jumps_of code)"
  by (simp add: flow_def)

lemma flow_same: "acx_ofd cx' = acx_ofd cx \<Longrightarrow> flow cx cx' [] []"
  by (simp add: flow_def)

definition quiet_flow :: "acx \<Rightarrow> acx \<Rightarrow> bool" where
  "quiet_flow cx cx' \<longleftrightarrow> flow cx cx' [] [] \<and> acx_label cx' = acx_label cx"

lemma quiet_flow_emit: "list_all plain code \<Longrightarrow> quiet_flow cx (emit code cx)"
  using flow_emit [of cx code] by (simp add: quiet_flow_def plain_labels plain_jumps)

lemma quiet_flow_trans: "quiet_flow a b \<Longrightarrow> quiet_flow b c \<Longrightarrow> quiet_flow a c"
  using flow_trans [of a b "[]" "[]" c "[]" "[]"] by (simp add: quiet_flow_def)

lemma quiet_flow_same: "acx_ofd cx' = acx_ofd cx \<Longrightarrow> acx_label cx' = acx_label cx \<Longrightarrow> quiet_flow cx cx'"
  by (simp add: quiet_flow_def flow_same)

lemma quiet_flow_gimme: "reg_gimme cx = (r, cx') \<Longrightarrow> quiet_flow cx cx'"
  by (auto simp: reg_gimme_def Let_def quiet_flow_def flow_def split: option.splits)

lemma quiet_flow_takeback: "quiet_flow cx (reg_takeitback cx r)"
  by (auto simp: reg_takeitback_def Let_def quiet_flow_def flow_def)

lemma quiet_flow_load: "load_var cx r n i = Inr cx' \<Longrightarrow> quiet_flow cx cx'"
  by (erule load_varE) (auto simp: quiet_flow_def flow_def)

interpretation quiet_flow: expr_frame quiet_flow
proof
  show "quiet_flow a b \<Longrightarrow> quiet_flow b c \<Longrightarrow> quiet_flow a c" for a b c by (rule quiet_flow_trans)
  show "reg_gimme cx = (r, cx') \<Longrightarrow> quiet_flow cx cx'" for cx r cx' by (rule quiet_flow_gimme)
  show "load_var cx r n i = Inr cx' \<Longrightarrow> quiet_flow cx cx'" for cx r n i cx' by (rule quiet_flow_load)
qed (auto intro: quiet_flow_emit quiet_flow_same quiet_flow_takeback)

text \<open>Labels from \<open>l\<close> up to \<open>l'\<close>, each once, and jumps to them only.\<close>

definition closed_flow :: "int \<Rightarrow> int \<Rightarrow> int list \<Rightarrow> int list \<Rightarrow> bool" where
  "closed_flow l l' ls js \<longleftrightarrow> distinct ls \<and> set ls = {l..<l'} \<and> set js \<subseteq> set ls \<and> l \<le> l'"

definition flows :: "acx \<Rightarrow> acx \<Rightarrow> bool" where
  "flows cx cx' \<longleftrightarrow> (\<exists>ls js. flow cx cx' ls js \<and> closed_flow (acx_label cx) (acx_label cx') ls js)"

lemma flows_quiet: "quiet_flow cx cx' \<Longrightarrow> flows cx cx'"
  unfolding flows_def quiet_flow_def closed_flow_def by (intro exI [of _ "[]"]) simp

lemma closed_flow_append:
  "closed_flow a b l1 j1 \<Longrightarrow> closed_flow b c l2 j2 \<Longrightarrow> closed_flow a c (l1 @ l2) (j1 @ j2)"
  by (auto simp: closed_flow_def)

lemma flows_trans: "flows a b \<Longrightarrow> flows b c \<Longrightarrow> flows a c"
  unfolding flows_def by (meson closed_flow_append flow_trans)

lemma flows_quiet_after: "flows a b \<Longrightarrow> quiet_flow b c \<Longrightarrow> flows a c"
  by (rule flows_trans [OF _ flows_quiet])

lemma check_assignability_quiet: "check_assignability cx l = Inr cx' \<Longrightarrow> quiet_flow cx cx'"
proof -
  have root: "check_root cx n = Inr cx' \<Longrightarrow> quiet_flow cx cx'" for cx n cx'
    by (auto simp: check_root_def intro!: quiet_flow_same split: if_splits)
  show "check_assignability cx l = Inr cx' \<Longrightarrow> quiet_flow cx cx'"
    by (cases l) (auto simp: check_assignability.simps path_head_def quiet_flow.refl split: if_splits
        dest!: root intro: quiet_flow_trans)
qed

text \<open>Two labels taken from the counter, around what is printed in between.\<close>

lemma closed_for:
  "closed_flow (l + 2) l' ls js \<Longrightarrow> closed_flow l l' (l # ls @ [l + 1]) ((l + 1) # js @ [l])"
  by (auto simp: closed_flow_def)

lemma closed_ite:
  "closed_flow (l + 2) m l1 j1 \<Longrightarrow> closed_flow m l' l2 j2 \<Longrightarrow>
   closed_flow l l' (l1 @ l # l2 @ [l + 1]) (l # j1 @ (l + 1) # j2)"
  by (auto simp: closed_flow_def)

lemma analyze_stmt_flows:
  "analyze_stmt cx s = Inr cx' \<Longrightarrow> flows cx cx'"
  "analyze_stmts cx ss = Inr cx' \<Longrightarrow> flows cx cx'"
proof (induction s and ss arbitrary: cx cx' and cx cx' rule: stmt_induct)
  case null
  then show ?case by (auto intro: flows_quiet quiet_flow.refl)
next
  case (assign l e)
  from assign.prems show ?case
  proof (rule assignE)
    fix lty cx1 cx2 rty cx3
    assume a: "analyze_expr cx l False = Inr (lty, cx1)" "check_assignability cx1 l = Inr cx2"
        "analyze_expr cx2 e True = Inr (rty, cx3)"
      and c: "cx' = reg_takeitback (reg_takeitback
        (emit [Op2 ''mov'' (Ind (r_name (re_reg lty))) (Reg (r_name (re_reg rty)))] cx3) (re_reg rty)) (re_reg lty)"
    have "quiet_flow cx cx3"
      by (rule quiet_flow_trans [OF quiet_flow_trans [OF quiet_flow.analyze_frame(1) [OF a(1)]
            check_assignability_quiet [OF a(2)]] quiet_flow.analyze_frame(1) [OF a(3)]])
    then show ?thesis
      unfolding c by (intro flows_quiet quiet_flow.takeback_after quiet_flow.emits_after plain_codes)
  qed
next
  case (loop i start stop body)
  from loop.prems show ?case
  proof (rule forE)
    fix sty ety ity :: resu and cx1 cx2 cx3 cx4 cx5 :: acx
    let ?l = "acx_label cx4" and ?s = "r_name (re_reg sty)" and ?e = "r_name (re_reg ety)"
    let ?pre = "[Op1 ''push'' (Reg ?s), Label ?l, Op2 ''cmp'' (Reg ?s) (Reg ?e), Jump ''je'' (?l + 1)]"
    let ?post = "[Op1 ''inc'' (Reg ?s), Op2 ''mov'' (Ind ''rsp'') (Reg ?s), Jump ''jmp'' ?l, Label (?l + 1)]"
    assume a: "analyze_expr cx start True = Inr (sty, cx1)" "analyze_expr cx1 stop True = Inr (ety, cx2)"
        "type_of_path cx2 [i] False = Inr (ity, cx3)" "enter cx3 = Inr cx4"
      and b: "analyze_stmt (emit ?pre (cx4\<lparr>acx_label := ?l + 2\<rparr>)) body = Inr cx5"
      and c: "leave (reg_takeitback (reg_takeitback (emit ?post cx5) (re_reg ety)) (re_reg sty)) = Inr cx'"
    have q4: "quiet_flow cx cx4"
      using quiet_flow_trans [OF quiet_flow_trans [OF quiet_flow.analyze_frame(1) [OF a(1)]
          quiet_flow.analyze_frame(1) [OF a(2)]] quiet_flow.type_of_path_frame [OF a(3)]] a(4)
      by (auto elim!: enterE intro: quiet_flow_trans [OF _ quiet_flow_same])
    from loop.IH [OF b] obtain ls js where
      f: "flow (emit ?pre (cx4\<lparr>acx_label := ?l + 2\<rparr>)) cx5 ls js" "closed_flow (?l + 2) (acx_label cx5) ls js"
      by (auto simp: flows_def)
    have "flow cx4 (emit ?pre (cx4\<lparr>acx_label := ?l + 2\<rparr>)) [?l] [?l + 1]" by (simp add: flow_def)
    from flow_trans [OF flow_trans [OF this f(1)] flow_emit [of _ ?post]]
    have "flow cx4 (emit ?post cx5) (?l # ls @ [?l + 1]) ((?l + 1) # js @ [?l])" by simp
    with closed_for [OF f(2)] have "flows cx4 (emit ?post cx5)" by (auto simp: flows_def)
    then have "flows cx4 (reg_takeitback (reg_takeitback (emit ?post cx5) (re_reg ety)) (re_reg sty))"
      by (intro flows_quiet_after [OF _ quiet_flow.takeback])
    then have "flows cx4 cx'" using c by (auto elim!: leaveE intro: flows_quiet_after [OF _ quiet_flow_same])
    then show ?thesis by (rule flows_trans [OF flows_quiet [OF q4]])
  qed
next
  case (ite c th el)
  from ite.prems show ?case
  proof (rule iteE)
    fix cty :: resu and cx1 cx2 cx3 :: acx
    let ?l = "acx_label cx1" and ?r = "r_name (re_reg cty)"
    let ?pre = "[Op2 ''cmp'' (Reg ?r) (Imm 1), Jump ''jne'' ?l]" and ?mid = "[Jump ''jmp'' (?l + 1), Label ?l]"
    let ?cx1 = "reg_takeitback (emit ?pre (cx1\<lparr>acx_label := ?l + 2\<rparr>)) (re_reg cty)"
    assume a: "analyze_expr cx c True = Inr (cty, cx1)"
      and b: "analyze_stmt ?cx1 th = Inr cx2" "analyze_stmt (emit ?mid cx2) el = Inr cx3"
      and c: "cx' = emit [Label (?l + 1)] cx3"
    have "flow cx1 (emit ?pre (cx1\<lparr>acx_label := ?l + 2\<rparr>)) [] [?l]" by (simp add: flow_def)
    from flow_trans [OF this quiet_flow.takeback [of _ "re_reg cty", unfolded quiet_flow_def, THEN conjunct1]]
    have f0: "flow cx1 ?cx1 [] [?l]" by simp
    from ite.IH(1) [OF b(1)] obtain l1 j1 where
      f1: "flow ?cx1 cx2 l1 j1" "closed_flow (?l + 2) (acx_label cx2) l1 j1" by (auto simp: flows_def)
    from ite.IH(2) [OF b(2)] obtain l2 j2 where
      f2: "flow (emit ?mid cx2) cx3 l2 j2" "closed_flow (acx_label cx2) (acx_label cx3) l2 j2"
      by (auto simp: flows_def)
    from flow_trans [OF flow_trans [OF flow_trans [OF flow_trans [OF f0 f1(1)] flow_emit] f2(1)] flow_emit [of _ "[Label (?l + 1)]"]]
    have "flow cx1 cx' (l1 @ ?l # l2 @ [?l + 1]) (?l # j1 @ (?l + 1) # j2)" by (simp add: c)
    with closed_ite [OF f1(2) f2(2)] have "flows cx1 cx'" by (auto simp: flows_def c)
    then show ?thesis by (rule flows_trans [OF flows_quiet [OF quiet_flow.analyze_frame(1) [OF a]]])
  qed
next
  case (proc p args)
  from proc.prems show ?case
    by (rule procE) (auto intro: flows_quiet quiet_flow.takeback_after quiet_flow.analyze_frame)
next
  case (stmts ss)
  then show ?case by simp
next
  case (wdo c body)
  from wdo.prems show ?case
  proof (rule wdoE)
    fix cty :: resu and cx1 cx2 :: acx
    let ?l = "acx_label cx" and ?r = "r_name (re_reg cty)"
    let ?cx0 = "emit [Label ?l] (cx\<lparr>acx_label := ?l + 2\<rparr>)"
    let ?pre = "[Op2 ''cmp'' (Reg ?r) (Imm 1), Jump ''jne'' (?l + 1)]"
    let ?post = "[Jump ''jmp'' ?l, Label (?l + 1)]"
    let ?cx1 = "reg_takeitback (emit ?pre cx1) (re_reg cty)"
    assume a: "analyze_expr ?cx0 c True = Inr (cty, cx1)" and b: "analyze_stmt ?cx1 body = Inr cx2"
      and c: "cx' = emit ?post cx2"
    have lab: "acx_label cx1 = ?l + 2" and q1: "flow ?cx0 cx1 [] []"
      using quiet_flow.analyze_frame(1) [OF a] by (simp_all add: quiet_flow_def)
    have "flow cx ?cx0 [?l] []" by (simp add: flow_def)
    from flow_trans [OF flow_trans [OF flow_trans [OF this q1] flow_emit [of _ ?pre]]
        quiet_flow.takeback [of _ "re_reg cty", unfolded quiet_flow_def, THEN conjunct1]]
    have f0: "flow cx ?cx1 [?l] [?l + 1]" by simp
    from wdo.IH [OF b] obtain ls js where f1: "flow ?cx1 cx2 ls js" "closed_flow (?l + 2) (acx_label cx2) ls js"
      by (auto simp: flows_def lab)
    from flow_trans [OF flow_trans [OF f0 f1(1)] flow_emit [of _ ?post]]
    have "flow cx cx' (?l # ls @ [?l + 1]) ((?l + 1) # js @ [?l])" by (simp add: c)
    with closed_for [OF f1(2)] show ?thesis by (auto simp: flows_def c)
  qed
next
  case nil
  then show ?case by (auto intro: flows_quiet quiet_flow.refl)
next
  case (cons s ss)
  from cons.prems show ?case by (auto dest!: cons.IH intro: flows_trans)
qed

end
