(* ===== verification/Checking.thy ===== *)
theory Checking
  imports Demo Labels
begin

text \<open>
  The properties of the checks of analysis.c: what type an expression gets, which statements and
  subprograms are accepted and which are not.
\<close>

section \<open>The contexts of the witnesses\<close>

lemma demo_path_ok:
  "ty_of (analyze_expr demo_body_cx (EXPR_BIN (path ''n'') (Ch CHR ''+'') (path ''x'')) True) = Some 0"
  "ty_of (analyze_expr demo_body_cx (path ''b'') True) = Some 3"
  "ty_of (analyze_expr demo_body_cx (EXPR_UN T_NOT (path ''b'')) True) = None"
  "is_ok (analyze_stmt demo_body_cx demo_body)"
  "is_ok (analyze_subprog demo_call_cx demo_func)"
  by code_simp+

section \<open>Expressions and statements\<close>

text \<open>C4. The analysis of an expression agrees with the type system: it succeeds exactly when
  \<open>expr_type\<close> gives the expression a type, and the result then has that type, whatever registers are
  in use, whatever has been captured or emitted before, and whether a value or an address is asked for.\<close>

theorem expression_types:
  assumes "acx_wf cx"
  shows "ty_of (analyze_expr cx e rv) = expr_type (tenv_of (acx_st cx)) e"
  using typing(1) [OF assms] .

theorem expression_types_witness:
  "expr_type (tenv_of (acx_st demo_body_cx)) (EXPR_BIN (path ''n'') (Ch CHR ''+'') (path ''x'')) = Some INTEGER_TYPE_IDX"
  using expression_types [OF demo_body_wf(1)] demo_path_ok(1) by (metis INTEGER_TYPE_IDX_def)

text \<open>C5. A statement is accepted exactly when it satisfies the static rules \<open>stmt_ok\<close>: integer
  bounds and an integer variable in a FOR, boolean conditions, equal types in an assignment, and in
  a function (outside the main program) an assigned variable of the innermost scope.\<close>

theorem statement_accepted:
  assumes "acx_wf cx" and "chain (acx_st cx) \<noteq> []"
  shows "(\<exists>cx'. analyze_stmt cx s = Inr cx')
    \<longleftrightarrow> stmt_ok (tenv_of (acx_st cx)) (acx_toplevel cx) (acx_func_type cx) (local_names (acx_st cx)) s"
  using analyze_stmt_fits(1) [OF assms] by (simp add: stmt_fits_def)

theorem statement_accepted_witness:
  "stmt_ok (tenv_of (acx_st demo_body_cx)) (acx_toplevel demo_body_cx) (acx_func_type demo_body_cx)
     (local_names (acx_st demo_body_cx)) demo_body"
  using statement_accepted [OF demo_body_wf(1,2)] demo_path_ok(4) by (meson is_okE)

text \<open>NOT is rejected for every operand: the test that should let numbers through to the signs is
  true of every type. The signs are rejected for every operand that is not boolean.\<close>

theorem unary_operators:
  "ty_of (analyze_expr cx (EXPR_UN T_NOT e) rv) = None
    \<and> (ty_of (analyze_expr cx e True) \<noteq> Some BOOLEAN_TYPE_IDX \<longrightarrow> ty_of (analyze_expr cx (EXPR_UN op e) rv) = None)"
proof
  show "ty_of (analyze_expr cx (EXPR_UN T_NOT e) rv) = None"
    by (cases "analyze_expr cx (EXPR_UN T_NOT e) rv") (auto elim!: analyze_unE simp del: analyze_expr.simps)
  show "ty_of (analyze_expr cx e True) \<noteq> Some BOOLEAN_TYPE_IDX \<longrightarrow> ty_of (analyze_expr cx (EXPR_UN op e) rv) = None"
    by (cases "analyze_expr cx (EXPR_UN op e) rv") (auto elim!: analyze_unE simp: ty_of_def simp del: analyze_expr.simps)
qed

theorem unary_operators_witness:
  "ty_of (analyze_expr demo_body_cx (EXPR_UN T_NOT (path ''b'')) True) = None
    \<and> ty_of (analyze_expr demo_body_cx (EXPR_UN (Ch CHR ''-'') (EXPR_LIT ''1'')) True) = None"
proof -
  have "ty_of (analyze_expr demo_body_cx (EXPR_LIT ''1'') True) \<noteq> Some BOOLEAN_TYPE_IDX"
    by (simp add: typing(1) [OF demo_body_wf(1)] idx_defs del: analyze_expr.simps)
  with unary_operators show ?thesis by blast
qed

section \<open>Subprograms\<close>

text \<open>C32. A function whose body never assigns to the function's name is rejected: the name counts as
  assigned only by an assignment whose left-hand side starts with it.\<close>

theorem function_assigns_result:
  assumes "acx_wf cx" and "\<not> acx_toplevel cx" and "\<not> assigns name body"
  shows "\<not> is_ok (analyze_subprog cx (Subdecl (TYPE_FUNCTION SUB_FUNCTION args retty) name locals subprogs tys body))"
proof
  assume "is_ok (analyze_subprog cx (Subdecl (TYPE_FUNCTION SUB_FUNCTION args retty) name locals subprogs tys body))"
  then obtain cx' where
    "analyze_subprog cx (Subdecl (TYPE_FUNCTION SUB_FUNCTION args retty) name locals subprogs tys body) = Inr cx'"
    by (rule is_okE)
  from function_body_gen [OF assms(1,2) this] assms(3) show False by blast
qed

theorem function_assigns_result_witness:
  "\<not> is_ok (analyze_subprog demo_call_cx (Subdecl demo_head ''f'' [] [] []
     (Some (STMT_ASSIGN (path ''n'') (EXPR_LIT ''1'')))))"
  unfolding demo_head_def
  by (rule function_assigns_result [OF demo_call_wf(1,3)])
    (simp add: root_is_def path_def ast_path_new_def)

text \<open>C33. In a function nothing can be assigned inside a FOR: the loop opens a scope of its own, in
  which no variable of the function is local any more.\<close>

theorem no_assignment_in_for:
  assumes "acx_wf cx" and "chain (acx_st cx) \<noteq> []" and "\<not> acx_toplevel cx" and "acx_func_type cx = SUB_FUNCTION"
    and "analyze_stmt cx (Some (STMT_FOR i start stop body)) = Inr cx'"
  shows "assign_free body"
proof -
  have "stmt_fits cx (Some (STMT_FOR i start stop body))"
    using analyze_stmt_fits(1) [OF assms(1,2)] assms(5) by blast
  then have "stmt_ok (te_cx cx) False SUB_FUNCTION (\<lambda>_. False) body"
    using assms(3,4) by (simp add: stmt_fits_def)
  then show ?thesis by (rule no_names_no_assign(1))
qed

definition demo_for :: "ast_stmt option" where
  "demo_for = Some (STMT_FOR ''k'' (EXPR_LIT ''1'') (EXPR_LIT ''3'') (Some (STMT_STMTS [])))"

lemma demo_for_ok: "is_ok (analyze_stmt demo_body_cx demo_for)" "acx_func_type demo_body_cx = SUB_FUNCTION"
  by code_simp+

theorem no_assignment_in_for_witness:
  "assign_free (Some (STMT_STMTS [])) \<and> is_ok (analyze_stmt demo_body_cx demo_for)"
  using demo_for_ok(1)
proof (rule is_okE)
  fix cx' assume "analyze_stmt demo_body_cx demo_for = Inr cx'"
  from no_assignment_in_for [OF demo_body_wf demo_for_ok(2) this [unfolded demo_for_def]] demo_for_ok(1)
  show ?thesis by blast
qed

text \<open>A call with the wrong number of arguments is rejected, whatever the arguments are, with a
  message that names both numbers.\<close>

theorem wrong_arity_rejected:
  assumes wf: "acx_wf cx" and f: "stab_resolve_func (acx_st cx) f = Inr i" "STAB_TYPE (acx_st cx) i = Inr t"
    and t: "st_ty t = R_FUNCTION k (Some ids) ret ra" "st_magic t = 0" and n: "length args \<noteq> length ids"
  shows "analyze_call cx [f] args
    = Inl (Span_Err (''wanted '' @ dec (int (length ids)) @ '', given '' @ dec (int (length args))))"
proof -
  note i = STAB_TYPE_Inr(1) [OF acx_wfD(1) [OF wf] f(2)]
  then have "CHKRES ''subprogram'' f i = Inr i" by (simp add: CHKRES_def id_ok_def)
  moreover have "func_args t = Inr ids" using t by (simp add: func_args_def)
  moreover have "acx_st (save_registers cx) = acx_st cx" by (simp add: save_registers_def)
  moreover obtain ds where "stab_print_type (acx_st cx) i 0 = Inr ds"
    using print_type_ok [OF acx_wfD(1) [OF wf] f(2)] by blast
  ultimately show ?thesis using f t n by (simp add: Let_def)
qed

lemma demo_f:
  "\<exists>i t k ids ret ra. stab_resolve_func (acx_st demo_call_cx) ''f'' = Inr i \<and> STAB_TYPE (acx_st demo_call_cx) i = Inr t
    \<and> st_ty t = R_FUNCTION k (Some ids) ret ra \<and> st_magic t = 0 \<and> length ids = 1"
proof -
  define chk where "chk st = bindr (stab_resolve_func st ''f'') (\<lambda>i. bindr (STAB_TYPE st i) (\<lambda>t. case st_ty t of
      R_FUNCTION k (Some ids) ret ra \<Rightarrow> if st_magic t = 0 \<and> length ids = 1 then Inr () else Inl Abort
    | _ \<Rightarrow> Inl Abort))" for st
  have "chk (acx_st demo_call_cx) = Inr ()" unfolding chk_def by code_simp
  then show ?thesis unfolding chk_def
    by (auto split: stab_resolved_type.splits option.splits if_splits)
qed

theorem wrong_arity_rejected_witness:
  "analyze_call demo_call_cx [''f''] [] = Inl (Span_Err ''wanted 1, given 0'')"
proof -
  from demo_f obtain i t k ids ret ra where f: "stab_resolve_func (acx_st demo_call_cx) ''f'' = Inr i"
    "STAB_TYPE (acx_st demo_call_cx) i = Inr t" "st_ty t = R_FUNCTION k (Some ids) ret ra" "st_magic t = 0"
    "length ids = 1" by blast
  then have "length ([] :: ast_expr list) \<noteq> length ids" by simp
  from wrong_arity_rejected [OF demo_call_wf(1) f(1-4) this] f(5) show ?thesis
    by (simp add: dec_def dec_nat.simps)
qed

end
