(* ===== verification/Machine.thy ===== *)
theory Machine
  imports Typing
begin

text \<open>
  What the printed code does: the instructions of integer arithmetic on a machine with 64-bit
  registers, a memory of 64-bit cells and the text written so far, and the theorem that the code of an arithmetic expression
  computes its value (\<open>compile_arith\<close>). The reading of the instructions is the processor's: \<open>mov\<close>,
  \<open>lea\<close>, \<open>add\<close>, \<open>sub\<close>, \<open>imul\<close>, \<open>and\<close>, \<open>or\<close>, \<open>not\<close>, \<open>push\<close> and \<open>pop\<close>; any other has no meaning here.
\<close>

record mach =
  regs :: "string \<Rightarrow> 64 word"
  mem :: "64 word \<Rightarrow> 64 word"
  written :: string

definition set_reg :: "string \<Rightarrow> 64 word \<Rightarrow> mach \<Rightarrow> mach" where
  "set_reg r v m = m\<lparr>regs := (regs m)(r := v)\<rparr>"

definition set_mem :: "64 word \<Rightarrow> 64 word \<Rightarrow> mach \<Rightarrow> mach" where
  "set_mem a v m = m\<lparr>mem := (mem m)(a := v)\<rparr>"

fun operand :: "mach \<Rightarrow> opnd \<Rightarrow> 64 word option" where
  "operand m (Reg r) = Some (regs m r)"
| "operand m (Imm i) = Some (word_of_int i)"
| "operand m (Lit s) = (if s \<noteq> [] \<and> list_all is_digit s then Some (word_of_int (digits_value s)) else None)"
| "operand m (Ind r) = Some (mem m (regs m r))"
| "operand m (RbpOff i) = Some (mem m (regs m ''rbp'' + word_of_int i))"
| "operand m _ = None"

definition arith_op :: "string \<Rightarrow> (64 word \<Rightarrow> 64 word \<Rightarrow> 64 word) option" where
  "arith_op op = (if op = ''add'' then Some (+) else if op = ''sub'' then Some (-)
     else if op = ''imul'' then Some (*) else if op = ''and'' then Some and
     else if op = ''or'' then Some or else None)"

fun exec1 :: "asm \<Rightarrow> mach \<Rightarrow> mach option" where
  "exec1 (Op2 op (Reg d) s) m =
     (if op = ''mov'' then map_option (\<lambda>v. set_reg d v m) (operand m s)
      else if op = ''lea'' then
        (case s of RbpOff i \<Rightarrow> Some (set_reg d (regs m ''rbp'' + word_of_int i) m) | _ \<Rightarrow> None)
      else case (arith_op op, operand m s) of
        (Some f, Some v) \<Rightarrow> Some (set_reg d (f (regs m d) v) m) | _ \<Rightarrow> None)"
| "exec1 (Op2 op (Ind d) (Reg s)) m =
     (if op = ''mov'' then Some (set_mem (regs m d) (regs m s) m) else None)"
| "exec1 (Op1 op (Reg r)) m =
     (if op = ''not'' then Some (set_reg r (not (regs m r)) m)
      else if op = ''push'' then
        Some (set_mem (regs m ''rsp'' - 8) (regs m r) (set_reg ''rsp'' (regs m ''rsp'' - 8) m))
      else if op = ''pop'' then
        Some (set_reg ''rsp'' (regs m ''rsp'' + 8) (set_reg r (mem m (regs m ''rsp'')) m))
      else None)"
| "exec1 (Verbatim s) m = (if s = nl then Some m else None)"
| "exec1 _ m = None"

fun exec :: "asm list \<Rightarrow> mach \<Rightarrow> mach option" where
  "exec [] m = Some m"
| "exec (i # is) m = Option.bind (exec1 i m) (exec is)"

lemma exec_append: "exec (xs @ ys) m = Option.bind (exec xs m) (exec ys)"
  by (induction xs arbitrary: m) (auto split: Option.bind_splits)

section \<open>The registers an expression takes\<close>

definition free_regs :: "acx \<Rightarrow> nat" where
  "free_regs cx = length (filter Not (rs_used (acx_rs cx)))"

lemma first_unused_None: "first_unused bs k = None \<longleftrightarrow> filter Not bs = []"
  by (induction bs k rule: first_unused.induct) auto

lemma first_unused_Some: "first_unused bs k = Some i \<Longrightarrow> k \<le> i \<and> i - k < length bs \<and> \<not> bs ! (i - k)"
proof (induction bs k rule: first_unused.induct)
  case (2 b bs k)
  show ?case
  proof (cases b)
    case True
    with "2.prems" have "first_unused bs (Suc k) = Some i" by simp
    from "2.IH" [OF _ this] True have "Suc k \<le> i \<and> i - Suc k < length bs \<and> \<not> bs ! (i - Suc k)" by simp
    moreover from this have "i - k = Suc (i - Suc k)" by linarith
    ultimately show ?thesis by simp
  qed (use "2.prems" in simp)
qed simp

lemma REGS_distinct: "distinct REGS" "length REGS = NUM_REGS" "''rbp'' \<notin> set REGS" "''rsp'' \<notin> set REGS"
  by (simp_all add: REGS_def NUM_REGS_def)

lemma REGS_inj: "i < NUM_REGS \<Longrightarrow> j < NUM_REGS \<Longrightarrow> REGS ! i = REGS ! j \<longleftrightarrow> i = j"
  using REGS_distinct by (simp add: nth_eq_iff_index_eq)

lemma REGS_not_rbp: "i < NUM_REGS \<Longrightarrow> REGS ! i \<noteq> ''rbp'' \<and> REGS ! i \<noteq> ''rsp''"
  using REGS_distinct by (metis nth_mem)

lemma free_regs_update:
  assumes "i < length (rs_used (acx_rs cx))" and "\<not> rs_used (acx_rs cx) ! i"
  shows "length (filter Not ((rs_used (acx_rs cx))[i := True])) = free_regs cx - 1" and "0 < free_regs cx"
proof -
  let ?u = "rs_used (acx_rs cx)"
  have u: "?u = take i ?u @ ?u ! i # drop (Suc i) ?u" using assms(1) by (rule id_take_nth_drop)
  have "filter Not ?u = filter Not (take i ?u) @ False # filter Not (drop (Suc i) ?u)"
    using assms(2) by (subst u) simp
  moreover have "filter Not (?u[i := True]) = filter Not (take i ?u) @ filter Not (drop (Suc i) ?u)"
    using assms(1) by (simp add: upd_conv_take_nth_drop)
  ultimately show "length (filter Not (?u[i := True])) = free_regs cx - 1" "0 < free_regs cx"
    by (simp_all add: free_regs_def)
qed

text \<open>A register taken while one is free: it was unused, and nothing is printed.\<close>

lemma gimme_free:
  assumes "length (rs_used (acx_rs cx)) = NUM_REGS" and "0 < free_regs cx"
  shows "\<exists>i. i < NUM_REGS \<and> \<not> rs_used (acx_rs cx) ! i \<and>
    reg_gimme cx = (\<lparr>r_name = REGS ! i, r_which = i, r_need_restore = False\<rparr>,
      cx\<lparr>acx_rs := (acx_rs cx)\<lparr>rs_used := (rs_used (acx_rs cx))[i := True]\<rparr>\<rparr>)"
proof -
  have "first_unused (rs_used (acx_rs cx)) 0 \<noteq> None"
    using assms(2) by (simp add: first_unused_None free_regs_def)
  then obtain i where i: "first_unused (rs_used (acx_rs cx)) 0 = Some i" by blast
  from first_unused_Some [OF i] assms(1) show ?thesis
    by (auto simp: reg_gimme_def Let_def i)
qed

section \<open>Arithmetic expressions\<close>

text \<open>Numbers, local variables and the operators that need no other register.\<close>

definition arith_fun :: "token \<Rightarrow> (64 word \<Rightarrow> 64 word \<Rightarrow> 64 word) option" where
  "arith_fun op = (if op = Ch CHR ''+'' then Some (+) else if op = Ch CHR ''-'' then Some (-)
     else if op = Ch CHR ''*'' then Some (*) else if op = T_AND then Some and
     else if op = T_OR then Some or else None)"

fun arith :: "ast_expr \<Rightarrow> bool" where
  "arith (EXPR_LIT s) = (s \<noteq> [] \<and> list_all is_digit s)"
| "arith (EXPR_PATH p) = (length p = 1)"
| "arith (EXPR_BIN l op r) = (arith l \<and> arith r \<and> arith_fun op \<noteq> None)"
| "arith _ = False"

fun vars_of :: "ast_expr \<Rightarrow> string set" where
  "vars_of (EXPR_PATH p) = set p"
| "vars_of (EXPR_BIN l op r) = vars_of l \<union> vars_of r"
| "vars_of _ = {}"

fun eval :: "(string \<Rightarrow> 64 word) \<Rightarrow> ast_expr \<Rightarrow> 64 word" where
  "eval env (EXPR_LIT s) = word_of_int (digits_value s)"
| "eval env (EXPR_PATH p) = env (hd p)"
| "eval env (EXPR_BIN l op r) = the (arith_fun op) (eval env l) (eval env r)"
| "eval env _ = 0"

text \<open>How many registers the code needs: the left operand's stays taken while the right one is computed.\<close>

fun regs_needed :: "ast_expr \<Rightarrow> nat" where
  "regs_needed (EXPR_BIN l op r) = max (regs_needed l) (Suc (regs_needed r))"
| "regs_needed _ = 1"

text \<open>The variables of the frame hold the values of \<open>env\<close>.\<close>

definition var_off :: "stab \<Rightarrow> string \<Rightarrow> int" where
  "var_off st x = (case env_of sc_vars st x of None \<Rightarrow> 0 | Some i \<Rightarrow> sv_stack_base_offset (var_nth st i))"

definition frame_holds :: "stab \<Rightarrow> mach \<Rightarrow> (string \<Rightarrow> 64 word) \<Rightarrow> string set \<Rightarrow> bool" where
  "frame_holds st m env xs \<longleftrightarrow> (\<forall>x \<in> xs. mem m (regs m ''rbp'' + word_of_int (var_off st x)) = env x)"

text \<open>
  The code of an expression: it leaves the value in a register that was free, changes no other
  register in use, and no memory.
\<close>

definition same_store :: "mach \<Rightarrow> mach \<Rightarrow> bool" where
  "same_store m m' \<longleftrightarrow> mem m' = mem m \<and> written m' = written m \<and> regs m' ''rbp'' = regs m ''rbp''
     \<and> regs m' ''rsp'' = regs m ''rsp''"

lemma same_store_refl: "same_store m m"
  by (simp add: same_store_def)

lemma same_store_trans: "same_store a b \<Longrightarrow> same_store b c \<Longrightarrow> same_store a c"
  by (simp add: same_store_def)

lemma same_store_set_reg: "r \<noteq> ''rbp'' \<and> r \<noteq> ''rsp'' \<Longrightarrow> same_store m (set_reg r v m)"
  by (auto simp: same_store_def set_reg_def)

lemma frame_holds_same: "same_store m m' \<Longrightarrow> frame_holds st m env xs \<Longrightarrow> frame_holds st m' env xs"
  by (simp add: frame_holds_def same_store_def)

definition computes :: "acx \<Rightarrow> acx \<Rightarrow> nat \<Rightarrow> string set \<Rightarrow> ((string \<Rightarrow> 64 word) \<Rightarrow> 64 word) \<Rightarrow> bool" where
  "computes cx cx' i xs val \<longleftrightarrow> (\<exists>code. acx_ofd cx' = acx_ofd cx @ code \<and>
     (\<forall>m env. frame_holds (acx_st cx) m env xs \<longrightarrow> (\<exists>m'. exec code m = Some m' \<and>
        regs m' (REGS ! i) = val env \<and> same_store m m' \<and>
        (\<forall>j < NUM_REGS. rs_used (acx_rs cx) ! j \<longrightarrow> regs m' (REGS ! j) = regs m (REGS ! j)))))"

lemma computes_lit:
  assumes wf: "length (rs_used (acx_rs cx)) = NUM_REGS" "0 < free_regs cx" "s \<noteq> []" "list_all is_digit s"
    and r: "analyze_expr cx (EXPR_LIT s) rv = Inr (res, cx')"
  shows "\<exists>i < NUM_REGS. \<not> rs_used (acx_rs cx) ! i \<and> re_reg res = \<lparr>r_name = REGS ! i, r_which = i, r_need_restore = False\<rparr>
    \<and> acx_st cx' = acx_st cx \<and> acx_rs cx' = (acx_rs cx)\<lparr>rs_used := (rs_used (acx_rs cx))[i := True]\<rparr>
    \<and> computes cx cx' i {} (\<lambda>env. word_of_int (digits_value s))"
proof -
  from gimme_free [OF wf(1,2)] obtain i where i: "i < NUM_REGS" "\<not> rs_used (acx_rs cx) ! i"
    and g: "reg_gimme cx = (\<lparr>r_name = REGS ! i, r_which = i, r_need_restore = False\<rparr>,
      cx\<lparr>acx_rs := (acx_rs cx)\<lparr>rs_used := (rs_used (acx_rs cx))[i := True]\<rparr>\<rparr>)" by blast
  have "computes cx cx' i {} (\<lambda>env. word_of_int (digits_value s))"
    using r g i wf(3,4) REGS_inj [OF _ i(1)] REGS_not_rbp [OF i(1)]
    by (auto elim!: analyze_litE simp: computes_def set_reg_def same_store_def)
  with r g i show ?thesis by (intro exI [of _ i]) (auto elim!: analyze_litE)
qed

lemma computes_var:
  assumes wf: "acx_wf cx" "0 < free_regs cx" and x: "local_names (acx_st cx) x" "chain (acx_st cx) \<noteq> []"
    and r: "analyze_expr cx (EXPR_PATH [x]) True = Inr (res, cx')"
  shows "\<exists>i < NUM_REGS. \<not> rs_used (acx_rs cx) ! i \<and> re_reg res = \<lparr>r_name = REGS ! i, r_which = i, r_need_restore = False\<rparr>
    \<and> acx_st cx' = acx_st cx \<and> acx_rs cx' = (acx_rs cx)\<lparr>rs_used := (rs_used (acx_rs cx))[i := True]\<rparr>
    \<and> computes cx cx' i {x} (\<lambda>env. env x)"
proof -
  note st = acx_wfD(1) [OF wf(1)]
  from gimme_free [OF acx_wfD(3) [OF wf(1)] wf(2)] obtain i where i: "i < NUM_REGS" "\<not> rs_used (acx_rs cx) ! i"
    and g: "reg_gimme cx = (\<lparr>r_name = REGS ! i, r_which = i, r_need_restore = False\<rparr>,
      cx\<lparr>acx_rs := (acx_rs cx)\<lparr>rs_used := (rs_used (acx_rs cx))[i := True]\<rparr>\<rparr>)" by blast
  let ?r = "\<lparr>r_name = REGS ! i, r_which = i, r_need_restore = False\<rparr>"
  let ?cx1 = "cx\<lparr>acx_rs := (acx_rs cx)\<lparr>rs_used := (rs_used (acx_rs cx))[i := True]\<rparr>\<rparr>"
  from r have "type_of_path cx [x] True = Inr (res, cx')" by (simp add: analyze_expr.simps)
  then obtain k cx2 v where p: "stab_resolve_var (acx_st cx) x = Inr k" "k \<noteq> -1" "load_var ?cx1 ?r x k = Inr cx2"
      "re_reg res = ?r" "cx' = emit [Op2 ''mov'' (Reg (REGS ! i)) (Ind (REGS ! i))] cx2"
    using g by (auto elim!: type_of_pathE)
  have e: "env_of sc_vars (acx_st cx) x = Some k"
    using p(1,2) resolve_env(1) [OF st, of x] by (cases "env_of sc_vars (acx_st cx) x") auto
  have "stab_has_local_var (acx_st cx) x = Inr True"
    using x has_local_map [OF st x(2), of sc_vars x] by (simp add: stab_has_local_var_def local_names_def)
  then have l: "cx2 = emit [Op2 ''lea'' (Reg (REGS ! i)) (RbpOff (var_off (acx_st cx) x))] ?cx1"
    using p(3) STAB_VAR_ok [OF st env_of_ok(1) [OF st e]] by (auto simp: var_off_def e elim!: load_varE)
  have "computes cx cx' i {x} (\<lambda>env. env x)"
    using i REGS_inj [OF _ i(1)] REGS_not_rbp [OF i(1)]
    by (auto simp: computes_def p(5) l set_reg_def frame_holds_def same_store_def)
  with p l i show ?thesis by (intro exI [of _ i]) auto
qed

lemma bin_code_arith:
  assumes "arith_fun op = Some f"
  shows "\<exists>name. bin_code op l r = Inr [Op2 name (Reg l) (Reg r)] \<and> arith_op name = Some f
    \<and> name \<noteq> ''mov'' \<and> name \<noteq> ''lea''"
proof -
  from assms have "op \<in> {Ch CHR ''+'', Ch CHR ''-'', Ch CHR ''*'', T_AND, T_OR}"
    by (auto simp: arith_fun_def split: if_splits)
  with assms show ?thesis by (elim insertE emptyE) (simp_all add: bin_code_def arith_fun_def arith_op_def)
qed

lemma list_update_release: "j < length xs \<Longrightarrow> \<not> xs ! j \<Longrightarrow> xs[j := True, j := False] = xs"
  by (simp add: list_eq_iff_nth_eq nth_list_update)

text \<open>Two operands one after the other, and the operator on their registers.\<close>

lemma computes_bin:
  assumes l: "computes cx cx1 i xs f" and r: "computes cx1 cx2 j ys g"
    and st: "acx_st cx1 = acx_st cx"
    and rs1: "rs_used (acx_rs cx1) = (rs_used (acx_rs cx))[i := True]" "length (rs_used (acx_rs cx)) = NUM_REGS"
    and ij: "i < NUM_REGS" "j < NUM_REGS" "\<not> rs_used (acx_rs cx) ! i"
    and op: "arith_op name = Some h" "name \<noteq> ''mov''" "name \<noteq> ''lea''"
    and cx': "acx_ofd cx' = acx_ofd cx2 @ [Op2 name (Reg (REGS ! i)) (Reg (REGS ! j))]"
  shows "computes cx cx' i (xs \<union> ys) (\<lambda>env. h (f env) (g env))"
proof -
  from l obtain cl where cl: "acx_ofd cx1 = acx_ofd cx @ cl" and
    xl: "\<And>m env. frame_holds (acx_st cx) m env xs \<Longrightarrow> \<exists>m'. exec cl m = Some m' \<and>
        regs m' (REGS ! i) = f env \<and> same_store m m' \<and>
        (\<forall>j < NUM_REGS. rs_used (acx_rs cx) ! j \<longrightarrow> regs m' (REGS ! j) = regs m (REGS ! j))"
    unfolding computes_def by blast
  from r obtain cr where cr: "acx_ofd cx2 = acx_ofd cx1 @ cr" and
    xr: "\<And>m env. frame_holds (acx_st cx1) m env ys \<Longrightarrow> \<exists>m'. exec cr m = Some m' \<and>
        regs m' (REGS ! j) = g env \<and> same_store m m' \<and>
        (\<forall>j < NUM_REGS. rs_used (acx_rs cx1) ! j \<longrightarrow> regs m' (REGS ! j) = regs m (REGS ! j))"
    unfolding computes_def by blast
  let ?op = "[Op2 name (Reg (REGS ! i)) (Reg (REGS ! j))]"
  have "\<exists>m'. exec (cl @ cr @ ?op) m = Some m' \<and> regs m' (REGS ! i) = h (f env) (g env) \<and> same_store m m' \<and>
      (\<forall>j < NUM_REGS. rs_used (acx_rs cx) ! j \<longrightarrow> regs m' (REGS ! j) = regs m (REGS ! j))"
    if fr: "frame_holds (acx_st cx) m env (xs \<union> ys)" for m env
  proof -
    from fr have "frame_holds (acx_st cx) m env xs" by (simp add: frame_holds_def)
    from xl [OF this] obtain m1 where m1: "exec cl m = Some m1" "regs m1 (REGS ! i) = f env" "same_store m m1"
        "\<forall>j < NUM_REGS. rs_used (acx_rs cx) ! j \<longrightarrow> regs m1 (REGS ! j) = regs m (REGS ! j)" by blast
    from fr have "frame_holds (acx_st cx1) m env ys" by (simp add: frame_holds_def st)
    then have "frame_holds (acx_st cx1) m1 env ys" by (rule frame_holds_same [OF m1(3)])
    from xr [OF this] obtain m2 where m2: "exec cr m1 = Some m2" "regs m2 (REGS ! j) = g env" "same_store m1 m2"
        "\<And>j. j < NUM_REGS \<Longrightarrow> rs_used (acx_rs cx1) ! j \<Longrightarrow> regs m2 (REGS ! j) = regs m1 (REGS ! j)" by blast
    have i2: "regs m2 (REGS ! i) = f env" using m2(4) [OF ij(1)] m1(2) by (simp add: rs1 ij(1))
    have keep: "regs m2 (REGS ! k) = regs m (REGS ! k)" if "k < NUM_REGS" "rs_used (acx_rs cx) ! k" for k
      using m1(4) m2(4) [OF that(1)] that ij(3) by (cases "k = i") (auto simp: rs1)
    let ?m = "set_reg (REGS ! i) (h (f env) (g env)) m2"
    have "exec (cl @ cr @ ?op) m = Some ?m" using m1(1) m2(1,2) op i2 by (simp add: exec_append)
    moreover have "regs ?m (REGS ! k) = regs m (REGS ! k)" if "k < NUM_REGS" "rs_used (acx_rs cx) ! k" for k
      using keep [OF that] that ij(1,3) REGS_inj [OF that(1) ij(1)] by (auto simp: set_reg_def)
    moreover have "same_store m ?m"
      using m1(3) m2(3) REGS_not_rbp [OF ij(1)] by (blast intro: same_store_trans same_store_set_reg)
    ultimately show ?thesis by (intro exI [of _ ?m]) (simp add: set_reg_def)
  qed
  then show ?thesis unfolding computes_def using cl cr cx' by (intro exI [of _ "cl @ cr @ ?op"]) simp
qed

lemma compile_arith_gen:
  "arith e \<Longrightarrow> regs_needed e \<le> free_regs cx \<Longrightarrow> acx_wf cx \<Longrightarrow> chain (acx_st cx) \<noteq> [] \<Longrightarrow>
   \<forall>x \<in> vars_of e. local_names (acx_st cx) x \<Longrightarrow> analyze_expr cx e True = Inr (res, cx') \<Longrightarrow>
   \<exists>i < NUM_REGS. \<not> rs_used (acx_rs cx) ! i \<and> re_reg res = \<lparr>r_name = REGS ! i, r_which = i, r_need_restore = False\<rparr>
    \<and> acx_st cx' = acx_st cx \<and> acx_rs cx' = (acx_rs cx)\<lparr>rs_used := (rs_used (acx_rs cx))[i := True]\<rparr>
    \<and> computes cx cx' i (vars_of e) (\<lambda>env. eval env e)"
proof (induction e arbitrary: cx res cx')
  case (EXPR_LIT s)
  then show ?case using computes_lit [OF acx_wfD(3)] by simp
next
  case (EXPR_PATH p)
  then obtain x where "p = [x]" by (auto simp: length_Suc_conv)
  with EXPR_PATH.prems computes_var [of cx x res cx'] show ?case by simp
next
  case (EXPR_BIN l op r)
  from EXPR_BIN.prems(1) obtain h where h: "arith_fun op = Some h" and a: "arith l" "arith r" by auto
  from EXPR_BIN.prems(6) obtain lty cx1 rty cx2 code where
    l: "analyze_expr cx l True = Inr (lty, cx1)" and r: "analyze_expr cx1 r True = Inr (rty, cx2)"
    and c: "bin_code op (r_name (re_reg lty)) (r_name (re_reg rty)) = Inr code"
    and res: "re_reg res = re_reg lty" and cx': "cx' = reg_takeitback (emit code cx2) (re_reg rty)"
    by (rule analyze_binE) auto
  let ?u = "rs_used (acx_rs cx)"
  note len = acx_wfD(3) [OF EXPR_BIN.prems(3)]
  from EXPR_BIN.IH(1) [OF a(1) _ EXPR_BIN.prems(3,4) _ l] EXPR_BIN.prems(2,5) obtain i where
    i: "i < NUM_REGS" "\<not> ?u ! i" "re_reg lty = \<lparr>r_name = REGS ! i, r_which = i, r_need_restore = False\<rparr>"
      "acx_st cx1 = acx_st cx" "acx_rs cx1 = (acx_rs cx)\<lparr>rs_used := ?u[i := True]\<rparr>"
      "computes cx cx1 i (vars_of l) (\<lambda>env. eval env l)" by auto
  note wf1 = after_expr(1) [OF EXPR_BIN.prems(3) l]
  have "free_regs cx1 = free_regs cx - 1" "0 < free_regs cx"
    using free_regs_update [of i cx] i(1,2) len by (simp_all add: free_regs_def i(5))
  then have "regs_needed r \<le> free_regs cx1" using EXPR_BIN.prems(2) by (simp, linarith)
  from EXPR_BIN.IH(2) [OF a(2) this wf1 _ _ r] EXPR_BIN.prems(4,5) obtain j where
    j: "j < NUM_REGS" "\<not> rs_used (acx_rs cx1) ! j"
      "re_reg rty = \<lparr>r_name = REGS ! j, r_which = j, r_need_restore = False\<rparr>"
      "acx_st cx2 = acx_st cx1" "acx_rs cx2 = (acx_rs cx1)\<lparr>rs_used := (rs_used (acx_rs cx1))[j := True]\<rparr>"
      "computes cx1 cx2 j (vars_of r) (\<lambda>env. eval env r)" by (auto simp: i(4))
  obtain name where n: "code = [Op2 name (Reg (REGS ! i)) (Reg (REGS ! j))]" "arith_op name = Some h"
      "name \<noteq> ''mov''" "name \<noteq> ''lea''"
    using bin_code_arith [OF h, of "REGS ! i" "REGS ! j"] c by (auto simp: i(3) j(3))
  have "rs_used (acx_rs cx') = ?u[i := True]"
    using j(1,2) len list_update_release [of j "?u[i := True]"] by (simp add: cx' reg_takeitback_def Let_def j(3,5) i(5))
  then have rs: "acx_rs cx' = (acx_rs cx)\<lparr>rs_used := ?u[i := True]\<rparr>"
    by (simp add: cx' reg_takeitback_def Let_def j(3,5) i(5))
  have "computes cx cx' i (vars_of l \<union> vars_of r) (\<lambda>env. h (eval env l) (eval env r))"
    by (rule computes_bin [OF i(6) j(6) i(4) _ len i(1) j(1) i(2) n(2-4)])
      (simp_all add: i(5) cx' n(1) reg_takeitback_def Let_def j(3))
  with i rs show ?case
    by (intro exI [of _ i]) (simp add: res h cx' j(4))
qed simp_all

section \<open>Assignments\<close>

text \<open>The address of a local variable, in a register that was free.\<close>

lemma address_of_var:
  assumes wf: "acx_wf cx" "0 < free_regs cx" and x: "local_names (acx_st cx) x" "chain (acx_st cx) \<noteq> []"
    and r: "analyze_expr cx (EXPR_PATH [x]) False = Inr (res, cx')"
  shows "\<exists>i < NUM_REGS. \<not> rs_used (acx_rs cx) ! i \<and> re_reg res = \<lparr>r_name = REGS ! i, r_which = i, r_need_restore = False\<rparr>
    \<and> acx_st cx' = acx_st cx \<and> acx_rs cx' = (acx_rs cx)\<lparr>rs_used := (rs_used (acx_rs cx))[i := True]\<rparr>
    \<and> acx_ofd cx' = acx_ofd cx @ [Op2 ''lea'' (Reg (REGS ! i)) (RbpOff (var_off (acx_st cx) x))]"
proof -
  note st = acx_wfD(1) [OF wf(1)]
  from gimme_free [OF acx_wfD(3) [OF wf(1)] wf(2)] obtain i where i: "i < NUM_REGS" "\<not> rs_used (acx_rs cx) ! i"
    and g: "reg_gimme cx = (\<lparr>r_name = REGS ! i, r_which = i, r_need_restore = False\<rparr>,
      cx\<lparr>acx_rs := (acx_rs cx)\<lparr>rs_used := (rs_used (acx_rs cx))[i := True]\<rparr>\<rparr>)" by blast
  let ?r = "\<lparr>r_name = REGS ! i, r_which = i, r_need_restore = False\<rparr>"
  let ?cx1 = "cx\<lparr>acx_rs := (acx_rs cx)\<lparr>rs_used := (rs_used (acx_rs cx))[i := True]\<rparr>\<rparr>"
  from r have "type_of_path cx [x] False = Inr (res, cx')" by (simp add: analyze_expr.simps)
  then obtain k where p: "stab_resolve_var (acx_st cx) x = Inr k" "k \<noteq> -1" "load_var ?cx1 ?r x k = Inr cx'"
      "re_reg res = ?r"
    using g by (auto elim!: type_of_pathE)
  have e: "env_of sc_vars (acx_st cx) x = Some k"
    using p(1,2) resolve_env(1) [OF st, of x] by (cases "env_of sc_vars (acx_st cx) x") auto
  have "stab_has_local_var (acx_st cx) x = Inr True"
    using x has_local_map [OF st x(2), of sc_vars x] by (simp add: stab_has_local_var_def local_names_def)
  then have "cx' = emit [Op2 ''lea'' (Reg (REGS ! i)) (RbpOff (var_off (acx_st cx) x))] ?cx1"
    using p(3) STAB_VAR_ok [OF st env_of_ok(1) [OF st e]] by (auto simp: var_off_def e elim!: load_varE)
  with p(4) i show ?thesis by (intro exI [of _ i]) simp
qed

lemma check_assignability_fields:
  assumes "check_assignability cx (EXPR_PATH [x]) = Inr cx'"
  shows "acx_st cx' = acx_st cx" "acx_rs cx' = acx_rs cx" "acx_ofd cx' = acx_ofd cx"
  using assms by (auto simp: check_assignability.simps path_head_def check_root_def split: if_splits)

lemma compile_assign:
  assumes e: "arith e" "Suc (regs_needed e) \<le> free_regs cx" "\<forall>y \<in> vars_of e. local_names (acx_st cx) y"
    and wf: "acx_wf cx" "chain (acx_st cx) \<noteq> []" and x: "local_names (acx_st cx) x"
    and r: "analyze_stmt cx (Some (STMT_ASSIGN (EXPR_PATH [x]) e)) = Inr cx'"
  shows "acx_st cx' = acx_st cx \<and> acx_rs cx' = acx_rs cx \<and> (\<exists>code. acx_ofd cx' = acx_ofd cx @ code \<and>
    (\<forall>m env. frame_holds (acx_st cx) m env (vars_of e) \<longrightarrow> (\<exists>m'. exec code m = Some m' \<and>
       mem m' = (mem m)(regs m ''rbp'' + word_of_int (var_off (acx_st cx) x) := eval env e) \<and>
       regs m' ''rbp'' = regs m ''rbp'' \<and> regs m' ''rsp'' = regs m ''rsp'' \<and> written m' = written m \<and>
       (\<forall>j < NUM_REGS. rs_used (acx_rs cx) ! j \<longrightarrow> regs m' (REGS ! j) = regs m (REGS ! j)))))"
proof -
  from r obtain lty cx1 cx2 rty cx3 where
    l: "analyze_expr cx (EXPR_PATH [x]) False = Inr (lty, cx1)" and
    c: "check_assignability cx1 (EXPR_PATH [x]) = Inr cx2" and v: "analyze_expr cx2 e True = Inr (rty, cx3)" and
    cx': "cx' = reg_takeitback (reg_takeitback
        (emit [Op2 ''mov'' (Ind (r_name (re_reg lty))) (Reg (r_name (re_reg rty)))] cx3) (re_reg rty)) (re_reg lty)"
    by (rule assignE)
  let ?u = "rs_used (acx_rs cx)" and ?off = "var_off (acx_st cx) x"
  note len = acx_wfD(3) [OF wf(1)]
  have "0 < free_regs cx" using e(2) by simp
  from address_of_var [OF wf(1) this x wf(2) l] obtain i where
    i: "i < NUM_REGS" "\<not> ?u ! i" "re_reg lty = \<lparr>r_name = REGS ! i, r_which = i, r_need_restore = False\<rparr>"
      "acx_st cx1 = acx_st cx" "acx_rs cx1 = (acx_rs cx)\<lparr>rs_used := ?u[i := True]\<rparr>"
      "acx_ofd cx1 = acx_ofd cx @ [Op2 ''lea'' (Reg (REGS ! i)) (RbpOff ?off)]" by blast
  note s2 = check_assignability_fields [OF c]
  note p1 = place_expr [OF wf l]
  note p2 = place_trans [OF p1 place_check [OF placeD(1,2) [OF p1] c]]
  have rs2: "acx_rs cx2 = (acx_rs cx)\<lparr>rs_used := ?u[i := True]\<rparr>" by (simp add: s2 i)
  have "free_regs cx2 = free_regs cx - 1" "0 < free_regs cx"
    using free_regs_update [of i cx] i(1,2) len by (simp_all add: free_regs_def rs2)
  then have need: "regs_needed e \<le> free_regs cx2" using e(2) by linarith
  from compile_arith_gen [OF e(1) need placeD(1,2) [OF p2] _ v] e(3) obtain j where
    j: "j < NUM_REGS" "\<not> rs_used (acx_rs cx2) ! j"
      "re_reg rty = \<lparr>r_name = REGS ! j, r_which = j, r_need_restore = False\<rparr>"
      "acx_st cx3 = acx_st cx2" "acx_rs cx3 = (acx_rs cx2)\<lparr>rs_used := (rs_used (acx_rs cx2))[j := True]\<rparr>"
      "computes cx2 cx3 j (vars_of e) (\<lambda>env. eval env e)" by (auto simp: s2 i(4))
  from j(6) obtain ce where ce: "acx_ofd cx3 = acx_ofd cx2 @ ce" and
    xe: "\<And>m env. frame_holds (acx_st cx) m env (vars_of e) \<Longrightarrow> \<exists>m'. exec ce m = Some m' \<and>
        regs m' (REGS ! j) = eval env e \<and> same_store m m' \<and>
        (\<forall>k < NUM_REGS. rs_used (acx_rs cx2) ! k \<longrightarrow> regs m' (REGS ! k) = regs m (REGS ! k))"
    unfolding computes_def s2(1) i(4) by blast
  let ?code = "Op2 ''lea'' (Reg (REGS ! i)) (RbpOff ?off) # ce @ [Op2 ''mov'' (Ind (REGS ! i)) (Reg (REGS ! j))]"
  have rs: "acx_rs cx' = acx_rs cx" and st: "acx_st cx' = acx_st cx" and code: "acx_ofd cx' = acx_ofd cx @ ?code"
    using list_update_release [of j "?u[i := True]"] list_update_release [of i ?u] i(1,2) j(1,2) len
    by (simp_all add: cx' reg_takeitback_def Let_def i j s2 rs2 ce)
  have "\<exists>m'. exec ?code m = Some m' \<and>
       mem m' = (mem m)(regs m ''rbp'' + word_of_int ?off := eval env e) \<and>
       regs m' ''rbp'' = regs m ''rbp'' \<and> regs m' ''rsp'' = regs m ''rsp'' \<and> written m' = written m \<and>
       (\<forall>k < NUM_REGS. ?u ! k \<longrightarrow> regs m' (REGS ! k) = regs m (REGS ! k))"
    if fr: "frame_holds (acx_st cx) m env (vars_of e)" for m env
  proof -
    let ?m1 = "set_reg (REGS ! i) (regs m ''rbp'' + word_of_int ?off) m"
    have m1: "same_store m ?m1" using same_store_set_reg [OF REGS_not_rbp [OF i(1)]] .
    have "frame_holds (acx_st cx) ?m1 env (vars_of e)" by (rule frame_holds_same [OF m1 fr])
    from xe [OF this] obtain m2 where m2: "exec ce ?m1 = Some m2" "regs m2 (REGS ! j) = eval env e"
        "same_store ?m1 m2"
        "\<And>k. k < NUM_REGS \<Longrightarrow> rs_used (acx_rs cx2) ! k \<Longrightarrow> regs m2 (REGS ! k) = regs ?m1 (REGS ! k)"
      by blast
    note s2 = same_store_trans [OF m1 m2(3)]
    have "regs m2 (REGS ! i) = regs m ''rbp'' + word_of_int ?off"
      using m2(4) [OF i(1)] len i(1) by (simp add: rs2 set_reg_def)
    moreover have "regs m2 (REGS ! k) = regs m (REGS ! k)" if k: "k < NUM_REGS" "?u ! k" for k
    proof -
      have "k \<noteq> i" using k(2) i(2) by auto
      then show ?thesis using m2(4) [OF k(1)] k REGS_inj [OF k(1) i(1)] by (simp add: rs2 set_reg_def)
    qed
    ultimately show ?thesis
      using m2(1,2) s2 by (intro exI [of _ "set_mem (regs m ''rbp'' + word_of_int ?off) (eval env e) m2"])
        (simp add: exec_append set_mem_def same_store_def)
  qed
  with rs st code show ?thesis by blast
qed

end
