(* ===== verification/Generation.thy ===== *)
theory Generation
  imports Checking Machine TypeTable
begin

text \<open>
  The properties of the code the analysis prints: registers, arithmetic, assignments, labels and
  display slots.
\<close>

section \<open>Registers\<close>

text \<open>C35. While a register is free, \<open>reg_gimme\<close> hands out one that is not in use, marks it used and
  emits nothing, and giving it back restores the allocator; the other registers are not touched.\<close>

theorem register_round_trip:
  assumes "length (rs_used (acx_rs cx)) = NUM_REGS" and "0 < free_regs cx" and "reg_gimme cx = (r, cx1)"
  shows "r_which r < NUM_REGS \<and> \<not> rs_used (acx_rs cx) ! r_which r \<and> r_name r = REGS ! r_which r
    \<and> rs_used (acx_rs cx1) = (rs_used (acx_rs cx))[r_which r := True] \<and> acx_ofd cx1 = acx_ofd cx
    \<and> reg_takeitback cx1 r = cx"
proof -
  from gimme_free [OF assms(1,2)] assms(3) obtain i where
    i: "i < NUM_REGS" "\<not> rs_used (acx_rs cx) ! i" "r = \<lparr>r_name = REGS ! i, r_which = i, r_need_restore = False\<rparr>"
      "cx1 = cx\<lparr>acx_rs := (acx_rs cx)\<lparr>rs_used := (rs_used (acx_rs cx))[i := True]\<rparr>\<rparr>" by auto
  have "(rs_used (acx_rs cx))[i := True, i := False] = rs_used (acx_rs cx)"
    using list_update_release i(1,2) assms(1) by simp
  then show ?thesis using i by (simp add: reg_takeitback_def Let_def)
qed

theorem register_round_trip_witness:
  "\<exists>r cx1. reg_gimme (initial_acx demo_stab) = (r, cx1) \<and> reg_takeitback cx1 r = initial_acx demo_stab"
proof -
  obtain r cx1 where r: "reg_gimme (initial_acx demo_stab) = (r, cx1)" by (cases "reg_gimme (initial_acx demo_stab)")
  have "length (rs_used (acx_rs (initial_acx demo_stab))) = NUM_REGS" "0 < free_regs (initial_acx demo_stab)"
    by (simp_all add: initial_acx_def reg_init_def NUM_REGS_def free_regs_def)
  from register_round_trip [OF this r] r show ?thesis by blast
qed

text \<open>When every register is in use, \<open>reg_gimme\<close> spills \<open>rcx\<close>, whatever the round robin says: the
  name of the register does not belong to the index it is given, unless that is 1, and two spills in
  a row hand out the same register twice.\<close>

theorem spill_always_rcx:
  assumes "free_regs cx = 0" and "reg_gimme cx = (r, cx1)" and "reg_gimme cx1 = (r', cx2)"
  shows "r_name r = ''rcx'' \<and> r_name r' = ''rcx'' \<and> r_need_restore r
    \<and> r_which r = nat (rs_overflow (acx_rs cx) mod 14)
    \<and> acx_ofd cx2 = acx_ofd cx @ [Op1 ''push'' (Reg ''rcx''), Op1 ''push'' (Reg ''rcx'')]
    \<and> (r_which r \<noteq> 1 \<longrightarrow> REGS ! r_which r \<noteq> r_name r)"
proof -
  have none: "first_unused (rs_used (acx_rs cx)) 0 = None"
    using assms(1) by (simp add: first_unused_None free_regs_def)
  have r: "r = \<lparr>r_name = ''rcx'', r_which = nat (rs_overflow (acx_rs cx) mod 14), r_need_restore = True\<rparr>"
    "cx1 = emit [Op1 ''push'' (Reg ''rcx'')] (cx\<lparr>acx_rs := (acx_rs cx)\<lparr>rs_overflow := rs_overflow (acx_rs cx) + 1\<rparr>\<rparr>)"
    using assms(2) none by (simp_all add: reg_gimme_def Let_def REGS_def NUM_REGS_def)
  have r': "r_name r' = ''rcx''" "acx_ofd cx2 = acx_ofd cx1 @ [Op1 ''push'' (Reg ''rcx'')]"
    using assms(3) none by (auto simp: r reg_gimme_def Let_def REGS_def NUM_REGS_def)
  have which: "r_which r < NUM_REGS" by (simp add: r NUM_REGS_def nat_less_iff)
  have "REGS ! r_which r \<noteq> ''rcx''" if "r_which r \<noteq> 1"
    using REGS_inj [OF which, of 1] that by (simp add: REGS_def NUM_REGS_def)
  with r r' show ?thesis by simp
qed

definition all_used :: acx where
  "all_used = (initial_acx demo_stab)\<lparr>acx_rs := \<lparr>rs_overflow = 6, rs_used = replicate NUM_REGS True\<rparr>\<rparr>"

theorem spill_always_rcx_witness:
  "\<exists>r cx1. reg_gimme all_used = (r, cx1) \<and> r_name r = ''rcx'' \<and> REGS ! r_which r \<noteq> ''rcx''"
proof -
  have "free_regs all_used = 0" by (simp add: all_used_def free_regs_def)
  moreover obtain r cx1 where r: "reg_gimme all_used = (r, cx1)" by (cases "reg_gimme all_used")
  moreover obtain r' cx2 where "reg_gimme cx1 = (r', cx2)" by (cases "reg_gimme cx1")
  ultimately have s: "r_name r = ''rcx'' \<and> r_which r = nat (rs_overflow (acx_rs all_used) mod 14)
      \<and> (r_which r \<noteq> 1 \<longrightarrow> REGS ! r_which r \<noteq> r_name r)"
    using spill_always_rcx by blast
  then have "r_which r = 6" by (simp add: all_used_def)
  then have "r_which r \<noteq> 1" by simp
  with s have "r_name r = ''rcx''" "REGS ! r_which r \<noteq> r_name r" by blast+
  then have "REGS ! r_which r \<noteq> ''rcx''" by (simp only: simp_thms)
  with r \<open>r_name r = ''rcx''\<close> show ?thesis by blast
qed

section \<open>Arithmetic\<close>

text \<open>C3. Compiler correctness for integer arithmetic. An expression of literals, local variables and
  the operators +, -, *, AND, OR that is well typed and needs no more registers than are free is
  accepted, and the code printed for it, run on a machine whose frame holds the values of the
  variables, ends with the value of the expression (modulo \<open>2^64\<close>) in the result register, with the
  memory, the frame and stack pointers and all registers that were in use unchanged.\<close>

theorem compile_arith:
  assumes e: "arith e" "regs_needed e \<le> free_regs cx" "\<forall>x \<in> vars_of e. local_names (acx_st cx) x"
    and wf: "acx_wf cx" "chain (acx_st cx) \<noteq> []" and ty: "expr_type (tenv_of (acx_st cx)) e \<noteq> None"
  shows "\<exists>res cx' i code. analyze_expr cx e True = Inr (res, cx') \<and> acx_ofd cx' = acx_ofd cx @ code
    \<and> i < NUM_REGS \<and> r_name (re_reg res) = REGS ! i \<and> \<not> rs_used (acx_rs cx) ! i
    \<and> (\<forall>m env. frame_holds (acx_st cx) m env (vars_of e) \<longrightarrow> (\<exists>m'. exec code m = Some m'
         \<and> regs m' (REGS ! i) = eval env e \<and> same_store m m'
         \<and> (\<forall>j < NUM_REGS. rs_used (acx_rs cx) ! j \<longrightarrow> regs m' (REGS ! j) = regs m (REGS ! j))))"
proof -
  from ty obtain t where "expr_type (te_cx cx) e = Some t" by blast
  from typed(2) [OF wf(1) this, of True] obtain res cx' where r: "analyze_expr cx e True = Inr (res, cx')" by blast
  from compile_arith_gen [OF e(1,2) wf e(3) r] obtain i where i: "i < NUM_REGS" "\<not> rs_used (acx_rs cx) ! i"
    "re_reg res = \<lparr>r_name = REGS ! i, r_which = i, r_need_restore = False\<rparr>"
    "computes cx cx' i (vars_of e) (\<lambda>env. eval env e)" by blast
  from i(4) obtain code where "acx_ofd cx' = acx_ofd cx @ code"
    "\<And>m env. frame_holds (acx_st cx) m env (vars_of e) \<Longrightarrow> \<exists>m'. exec code m = Some m'
         \<and> regs m' (REGS ! i) = eval env e \<and> same_store m m'
         \<and> (\<forall>j < NUM_REGS. rs_used (acx_rs cx) ! j \<longrightarrow> regs m' (REGS ! j) = regs m (REGS ! j))"
    unfolding computes_def by blast
  with r i(1-3) show ?thesis by (intro exI [of _ res] exI [of _ cx'] exI [of _ i] exI [of _ code]) simp
qed

text \<open>\<open>n * 2 + k\<close> in the body of the function \<open>f\<close>.\<close>

definition demo_arith :: ast_expr where
  "demo_arith = EXPR_BIN (EXPR_BIN (path ''n'') (Ch CHR ''*'') (EXPR_LIT ''2'')) (Ch CHR ''+'') (path ''k'')"

lemma demo_arith_local:
  "stab_has_local_var (acx_st demo_body_cx) ''n'' = Inr True" "stab_has_local_var (acx_st demo_body_cx) ''k'' = Inr True"
  by code_simp+

lemma demo_arith_expr: "ty_of (analyze_expr demo_body_cx demo_arith True) = Some 0"
  by code_simp

lemma demo_free: "free_regs demo_body_cx = 14"
  by code_simp

lemma demo_locals: "local_names (acx_st demo_body_cx) ''n''" "local_names (acx_st demo_body_cx) ''k''"
  using demo_arith_local has_local_map [OF acx_wfD(1) [OF demo_body_wf(1)] demo_body_wf(2)]
  by (simp_all add: stab_has_local_var_def local_names_def)

lemma demo_arith_facts:
  "arith demo_arith" "regs_needed demo_arith = 2" "vars_of demo_arith = {''n'', ''k''}"
  by (auto simp: demo_arith_def path_def ast_path_new_def arith_fun_def is_digit_def)

theorem compile_arith_witness:
  "\<exists>code i. \<forall>m env. frame_holds (acx_st demo_body_cx) m env {''n'', ''k''} \<longrightarrow>
     (\<exists>m'. exec code m = Some m' \<and> regs m' (REGS ! i) = env ''n'' * 2 + env ''k'')"
proof -
  have "expr_type (tenv_of (acx_st demo_body_cx)) demo_arith \<noteq> None"
    using demo_arith_expr by (simp add: typing(1) [OF demo_body_wf(1)])
  note c = compile_arith [OF demo_arith_facts(1) _ _ demo_body_wf(1,2) this]
  have "regs_needed demo_arith \<le> free_regs demo_body_cx" "\<forall>x \<in> vars_of demo_arith. local_names (acx_st demo_body_cx) x"
    using demo_locals by (simp_all add: demo_arith_facts demo_free)
  from c [OF this, unfolded demo_arith_facts(3)]
  obtain i code where "\<forall>m env. frame_holds (acx_st demo_body_cx) m env {''n'', ''k''} \<longrightarrow>
      (\<exists>m'. exec code m = Some m' \<and> regs m' (REGS ! i) = eval env demo_arith)" by blast
  moreover have "eval env demo_arith = env ''n'' * 2 + env ''k''" for env
    by (simp add: demo_arith_def path_def ast_path_new_def arith_fun_def digits_value_def is_digit_def)
  ultimately show ?thesis by (simp only:) blast
qed

section \<open>Labels\<close>

text \<open>C8. Control flow is closed: the code of a statement defines every label it jumps to, defines no
  label twice, and uses exactly the label numbers it has drawn from the counter, so that the labels of
  two statements of one subprogram never clash.\<close>

theorem labels_closed:
  assumes "analyze_stmt cx s = Inr cx'"
  shows "\<exists>code. acx_ofd cx' = acx_ofd cx @ code \<and> distinct (labels_of code)
    \<and> set (labels_of code) = {acx_label cx ..< acx_label cx'} \<and> set (jumps_of code) \<subseteq> set (labels_of code)"
  using analyze_stmt_flows(1) [OF assms] unfolding flows_def flow_def closed_flow_def by blast

theorem labels_closed_witness:
  "\<exists>cx' code. analyze_stmt demo_body_cx demo_for = Inr cx' \<and> acx_ofd cx' = acx_ofd demo_body_cx @ code
    \<and> distinct (labels_of code)"
  using demo_for_ok(1)
proof (rule is_okE)
  fix cx' assume r: "analyze_stmt demo_body_cx demo_for = Inr cx'"
  from labels_closed [OF r] r show ?thesis by blast
qed

section \<open>Captured variables\<close>

text \<open>C9. Statements keep the analysis context well-formed: the symbol table stays well-formed with
  the same open scopes, types and variables, any two captured variables have different slots of the
  display, and all slots are below the counter. A FOR statement leaves the scope it enters.\<close>

theorem statement_keeps_context:
  assumes "acx_wf cx" and "analyze_stmt cx s = Inr cx'"
  shows "acx_wf cx' \<and> chain (acx_st cx') = chain (acx_st cx) \<and> types (acx_st cx') = types (acx_st cx)
    \<and> (\<forall>n. stab_resolve_var (acx_st cx') n = stab_resolve_var (acx_st cx) n)
    \<and> (\<forall>i j v w. i \<noteq> j \<longrightarrow> STAB_VAR (acx_st cx') i = Inr v \<longrightarrow> STAB_VAR (acx_st cx') j = Inr w \<longrightarrow>
         sv_captured v \<longrightarrow> sv_captured w \<longrightarrow> sv_disp_offset v \<noteq> sv_disp_offset w
         \<and> sv_disp_offset v < acx_disp_offset cx')"
proof -
  have c: "acx_wf cx'" "quiet (acx_st cx) (acx_st cx')"
    using calm.analyze_stmt_frame(1) [OF assms(2)] assms(1) by (simp_all add: calm_def)
  note st = acx_wfD(1) [OF assms(1)] acx_wfD(1) [OF c(1)]
  note q = quiet_simps [OF c(2)]
  have "sv_disp_offset v \<noteq> sv_disp_offset w \<and> sv_disp_offset v < acx_disp_offset cx'"
    if "i \<noteq> j" "STAB_VAR (acx_st cx') i = Inr v" "STAB_VAR (acx_st cx') j = Inr w" "sv_captured v" "sv_captured w"
    for i j v w
  proof -
    note i = STAB_VAR_Inr [OF st(2) that(2)] and j = STAB_VAR_Inr [OF st(2) that(3)]
    let ?vs = "pv_list (vars (acx_st cx'))"
    from i j have b: "nat i < pv_length (vars (acx_st cx'))" "nat j < pv_length (vars (acx_st cx'))"
      "v = ?vs ! nat i" "w = ?vs ! nat j" by (simp_all add: id_ok_def var_nth_def nat_less_iff)
    have "nat i \<noteq> nat j" using that(1) i(1) j(1) by (simp add: id_ok_def eq_nat_nat_iff)
    then have "nat j < nat i \<or> nat i < nat j" by linarith
    moreover have d: "display_ok cx'" by (rule acx_wfD(2) [OF c(1)])
    moreover have "v \<in> set ?vs" using b by simp
    ultimately show ?thesis using b that(4,5) unfolding display_ok_def by metis
  qed
  then show ?thesis
    using c(1) q(1,2) resolve_env(1) [OF st(1)] resolve_env(1) [OF st(2)] quiet_env [OF st(1) c(2)]
    by (simp only: simp_thms) blast
qed

theorem statement_keeps_context_witness:
  "\<exists>cx'. analyze_stmt demo_body_cx demo_for = Inr cx' \<and> acx_wf cx' \<and> chain (acx_st cx') = chain (acx_st demo_body_cx)"
  using demo_for_ok(1)
proof (rule is_okE)
  fix cx' assume r: "analyze_stmt demo_body_cx demo_for = Inr cx'"
  from statement_keeps_context [OF demo_body_wf(1) r] r show ?thesis by blast
qed

end
