(* ===== verification/Calls.thy ===== *)
theory Calls
  imports Generation
begin

text \<open>
  Calls of subprograms, on the machine of theory Machine. What the called subprogram does is a
  parameter \<open>callee\<close>: it is run at the \<open>call\<close> and comes back behind it. \<open>returns\<close> is what a
  subprogram of this compiler does for its caller: it keeps the stack and frame pointers, stores its
  result in the cell the frame pointer points to, and leaves the cells above that cell alone.
\<close>

fun run :: "(string \<Rightarrow> mach \<Rightarrow> mach option) \<Rightarrow> asm list \<Rightarrow> mach \<Rightarrow> mach option" where
  "run callee [] m = Some m"
| "run callee (Call f # is) m = Option.bind (callee f m) (run callee is)"
| "run callee (i # is) m = Option.bind (exec1 i m) (run callee is)"

definition returns :: "(string \<Rightarrow> mach \<Rightarrow> mach option) \<Rightarrow> string \<Rightarrow> 64 word \<Rightarrow> bool" where
  "returns callee f v \<longleftrightarrow> (\<forall>m. \<exists>m'. callee f m = Some m' \<and> regs m' ''rsp'' = regs m ''rsp''
     \<and> regs m' ''rbp'' = regs m ''rbp'' \<and> mem m' (regs m ''rbp'') = v
     \<and> (\<forall>k \<in> {1, 2}. mem m' (regs m ''rbp'' + 8 * k) = mem m (regs m ''rbp'' + 8 * k)))"

text \<open>A subprogram that only stores its result.\<close>

definition store_result :: "64 word \<Rightarrow> string \<Rightarrow> mach \<Rightarrow> mach option" where
  "store_result v f m = Some (set_mem (regs m ''rbp'') v m)"

lemma returns_store_result: "returns (store_result v) f v"
  by (auto simp: returns_def store_result_def set_mem_def)

text \<open>The first two registers are handed out when none is in use.\<close>

definition idle :: "acx \<Rightarrow> bool" where
  "idle cx \<longleftrightarrow> rs_used (acx_rs cx) = replicate NUM_REGS False"

lemma idle_gimme:
  assumes "idle cx"
  shows "reg_gimme cx = (\<lparr>r_name = ''rbx'', r_which = 0, r_need_restore = False\<rparr>,
    cx\<lparr>acx_rs := (acx_rs cx)\<lparr>rs_used := True # replicate 13 False\<rparr>\<rparr>)"
  using assms by (simp add: idle_def reg_gimme_def Let_def NUM_REGS_def REGS_def numeral_eq_Suc)

lemma second_gimme:
  assumes "rs_used (acx_rs cx) = True # replicate 13 False"
  shows "reg_gimme cx = (\<lparr>r_name = ''rcx'', r_which = 1, r_need_restore = False\<rparr>,
    cx\<lparr>acx_rs := (acx_rs cx)\<lparr>rs_used := True # True # replicate 12 False\<rparr>\<rparr>)"
  using assms by (simp add: reg_gimme_def Let_def REGS_def numeral_eq_Suc)

lemma idle_save: "idle cx \<Longrightarrow> save_registers cx = cx"
  by (simp add: idle_def save_registers_def NUM_REGS_def)

text \<open>A call without arguments keeps the frame: with no register in use, the code printed for it
  returns the result of the subprogram in the result register, and the stack and frame pointers are
  those from before the call.\<close>

theorem call_without_arguments:
  assumes idle: "idle cx" and r: "analyze_call cx [f] [] = Inr (res, cx')" and "re_reg res \<noteq> re_reg void_resu"
  shows "\<exists>code. acx_ofd cx' = acx_ofd cx @ code
    \<and> (\<forall>callee v m. returns callee (f @ ''@'') v \<longrightarrow> (\<exists>m'. run callee code m = Some m'
         \<and> regs m' (r_name (re_reg res)) = v \<and> regs m' ''rsp'' = regs m ''rsp'' \<and> regs m' ''rbp'' = regs m ''rbp''))"
  using r
proof (cases rule: analyze_callE)
  case (magic pty pt)
  with assms(3) show ?thesis by simp
next
  case (call pty pt ids cx1 rg cx2)
  have cx1: "cx1 = cx" using call(8,7) idle_save [OF idle] by simp
  note g = idle_gimme [OF idle]
  let ?code = "call_code 0 f ''rbx''"
  have "[i\<leftarrow>rev [0..<6]. (True # replicate 13 False) ! i \<and> i \<noteq> 0] = []" by (simp add: numeral_eq_Suc)
  then have code: "acx_ofd cx' = acx_ofd cx @ ?code" "r_name (re_reg res) = ''rbx''"
    using call(9-11) g by (auto simp: cx1 restore_registers_except_def)
  have "\<exists>m'. run callee ?code m = Some m' \<and> regs m' ''rbx'' = v \<and> regs m' ''rsp'' = regs m ''rsp''
      \<and> regs m' ''rbp'' = regs m ''rbp''" if ret: "returns callee (f @ ''@'') v" for callee v m
  proof -
    let ?sp = "regs m ''rsp''"
    let ?m1 = "set_mem (?sp - 8) (regs m ''rbp'') (set_reg ''rsp'' (?sp - 8) m)"
    let ?m2 = "set_reg ''rbp'' (?sp - 16) (set_reg ''rsp'' (?sp - 16) ?m1)"
    from ret obtain m3 where m3: "callee (f @ ''@'') ?m2 = Some m3" "regs m3 ''rsp'' = ?sp - 16"
      "mem m3 (?sp - 16) = v" "mem m3 (?sp - 16 + 8) = mem ?m2 (?sp - 16 + 8)"
      unfolding returns_def by (force simp: set_reg_def set_mem_def dest: spec [of _ ?m2])
    then have "mem m3 (?sp - 8) = regs m ''rbp''" by (simp add: set_reg_def set_mem_def)
    with m3 show ?thesis
      by (simp add: call_code_def arith_op_def set_reg_def set_mem_def)
  qed
  with code show ?thesis by (intro exI [of _ ?code]) simp
qed

text \<open>A function without parameters, for the witness.\<close>

definition demo_const_head :: ast_type where
  "demo_const_head = TYPE_FUNCTION SUB_FUNCTION [] (Some TYPE_INTEGER)"

definition demo_const_cx :: acx where
  "demo_const_cx = with_func ''g'' demo_const_head demo_cx"

lemma demo_idle: "idle demo_cx" "idle demo_const_cx" "idle demo_call_cx"
  unfolding idle_def by code_simp+

lemma demo_const_call: "is_ok (analyze_call demo_const_cx [''g''] [])"
  and demo_const_reg: "map_option (\<lambda>(r, cx). r_name (re_reg r)) (ok_of (analyze_call demo_const_cx [''g''] [])) = Some ''rbx''"
  by code_simp+

theorem call_without_arguments_witness:
  "\<exists>res cx' code. analyze_call demo_const_cx [''g''] [] = Inr (res, cx') \<and> acx_ofd cx' = acx_ofd demo_const_cx @ code
    \<and> (\<forall>m. \<exists>m'. run (store_result 7) code m = Some m' \<and> regs m' (r_name (re_reg res)) = 7 \<and> regs m' ''rbp'' = regs m ''rbp'')"
proof -
  obtain res cx' where r: "analyze_call demo_const_cx [''g''] [] = Inr (res, cx')"
    using demo_const_call by (metis is_okE surj_pair)
  have "r_name (re_reg res) = ''rbx''" using demo_const_reg r by simp
  then have "re_reg res \<noteq> re_reg void_resu" by (auto simp: void_resu_def)
  from call_without_arguments [OF demo_idle(2) r this] obtain code where
    "acx_ofd cx' = acx_ofd demo_const_cx @ code"
    "\<And>m. \<exists>m'. run (store_result 7) code m = Some m' \<and> regs m' (r_name (re_reg res)) = 7 \<and> regs m' ''rbp'' = regs m ''rbp''"
    using returns_store_result by blast
  with r show ?thesis by blast
qed


lemma demo_call_one: "is_ok (analyze_call demo_call_cx [''f''] [EXPR_LIT ''5''])"
  and demo_call_reg: "map_option (\<lambda>(r, cx). r_name (re_reg r)) (ok_of (analyze_call demo_call_cx [''f''] [EXPR_LIT ''5'']))
    = Some ''rcx''"
  by code_simp+


end
