(* ===== verification/Containers.thy ===== *)
theory Containers
  imports DList PtrVec HashTable
begin

text \<open>
  What the three containers of util.c promise their callers, stated over the models of theories
  DList, PtrVec and HashTable and proved from the facts of their interfaces.
\<close>

section \<open>Lists\<close>

text \<open>C13. A list built by any sequence of \<open>list_add\<close> calls iterates forwards (\<open>LFOREACH\<close>) in the
  order of insertion and backwards (\<open>LFOREACHREV\<close>) in the opposite order; \<open>list_free\<close> ends and hands
  every element to the destructor exactly once, the first element last.\<close>

theorem list_build_iterate_free:
  "\<exists>l h1 h2. dl.add_all (list_empty h) (map Some xs) = Inr (l, h1)
     \<and> lforeach h1 l = Inr (map Some xs)
     \<and> lforeachrev h1 l = Some (Inr (rev xs))
     \<and> list_free h1 l = Some (Inr (drop 1 xs @ take 1 xs, h2))"
proof -
  obtain l0 h0 where e: "list_empty h = (l0, h0)" by (cases "list_empty h")
  have "dl_rep (list_empty h) []" using list_empty_rep [OF e] by (simp add: dl_rep_def e)
  from dl.add_all_rep [OF this, of "map Some xs"] obtain l h1 where
    a: "dl.add_all (list_empty h) (map Some xs) = Inr (l, h1)" and rep: "list_rep h1 l (map Some xs)"
    by (auto simp: dl_rep_def)
  from list_free_rep [OF rep] obtain h2 where
    "list_free h1 l = Some (Inr (drop 1 xs @ take 1 xs, h2))"
    by (auto simp: drop_map take_map)
  with a lforeach_rep [OF rep] lforeachrev_rep [OF rep] show ?thesis by auto
qed

text \<open>\<open>list_pop\<close> on a list of at least two elements returns the last element and leaves the
  others, in order; on a list of at most one element it stores through a null pointer.\<close>

theorem list_pop_spec:
  assumes "list_rep h l xs"
  shows "(2 \<le> length xs \<longrightarrow> (\<exists>l' h'. list_pop h l = Inr (last xs, l', h') \<and> lforeach h' l' = Inr (butlast xs)))
    \<and> (length xs \<le> 1 \<longrightarrow> list_pop h l = Inl (Undefined ''null pointer''))"
proof (cases "length xs \<le> 1")
  case True
  with list_pop_short [OF assms] show ?thesis by simp
next
  case False
  then have "xs \<noteq> []" "butlast xs \<noteq> []" by (cases xs; simp)+
  moreover from this have "list_rep h l (butlast xs @ [last xs])" using assms by simp
  ultimately obtain l' h' where "list_pop h l = Inr (last xs, l', h')" "list_rep h' l' (butlast xs)"
    using list_pop_rep by blast
  with False lforeach_rep show ?thesis by auto
qed

definition two_list :: "dlist \<times> nat heap" where
  "two_list = (case dl.add_all (list_empty \<lparr>hp_next = 0, hp_cells = Map.empty\<rparr>) [Some 3, Some 4] of
     Inl _ \<Rightarrow> (\<lparr>l_inner = 0, l_last = None, l_length = 0\<rparr>, \<lparr>hp_next = 0, hp_cells = Map.empty\<rparr>) | Inr s \<Rightarrow> s)"

lemma two_list_rep: "list_rep (snd two_list) (fst two_list) [Some 3, Some 4]"
proof -
  obtain l0 h0 where e: "list_empty \<lparr>hp_next = 0, hp_cells = Map.empty :: nat \<Rightarrow> nat node option\<rparr> = (l0, h0)"
    by (cases "list_empty \<lparr>hp_next = 0, hp_cells = Map.empty :: nat \<Rightarrow> nat node option\<rparr>")
  have "dl_rep (l0, h0) []" using list_empty_rep [OF e] by (simp add: dl_rep_def)
  from dl.add_all_rep [OF this, of "[Some 3, Some 4]"] show ?thesis
    by (auto simp: two_list_def e dl_rep_def)
qed

theorem list_pop_spec_witness:
  "\<exists>l' h'. list_pop (snd two_list) (fst two_list) = Inr (Some 4, l', h') \<and> lforeach h' l' = Inr [Some 3]"
  using list_pop_spec [OF two_list_rep] by simp

section \<open>Vectors\<close>

text \<open>C30. Elements pushed onto a vector of positive capacity are read back at the indices
  \<open>ptrvec_push\<close> returned, whatever was pushed later and however often the vector has grown, and the
  next push writes inside the allocation.\<close>

theorem ptrvec_push_read:
  assumes "0 < cap"
  shows "\<exists>v v'. ptrvec_wcap calloc0 cap = Inr v \<and> ptrvec_push_all v xs = Inr v'
    \<and> (\<forall>i < length xs. pv_read v' i = Inr (Some (xs ! i)))
    \<and> (\<forall>x. \<exists>w. ptrvec_push v' x = Inr (length xs, w)) \<and> pv_length v' < pv_capacity v'
    \<and> ptrvec_free v' = map Some xs"
proof -
  from ptrvec_wcap_inv [OF assms, of calloc0] obtain v :: "'a ptrvec" where
    v: "ptrvec_wcap calloc0 cap = Inr v" "pv_inv v" "pv_list v = []" by blast
  from ptrvec_push_all_inv [OF v(2), of xs] v(3) obtain v' where
    v': "ptrvec_push_all v xs = Inr v'" "pv_inv v'" "pv_list v' = xs" by auto
  have len: "pv_length v' = length xs" using v'(3) by (metis length_pv_list)
  have "\<exists>w. ptrvec_push v' x = Inr (length xs, w)" for x
    using pv.push [OF v'(2), of x] v'(3) by auto
  with v v' len pv_read_inv [OF v'(2)] pv_inv_cap [OF v'(2)] ptrvec_free_inv [OF v'(2)] show ?thesis by auto
qed

theorem ptrvec_push_read_witness:
  "\<exists>v v'. ptrvec_wcap False 1 = Inr v \<and> ptrvec_push_all v [7, 8, 9 :: nat] = Inr v' \<and> pv_read v' 2 = Inr (Some 9)
    \<and> ptrvec_free v' = [Some 7, Some 8, Some 9]"
  using ptrvec_push_read [of 1 False "[7, 8, 9 :: nat]"] by auto

text \<open>A vector made with capacity 0 cannot be used: doubling leaves the capacity 0, so every
  push writes behind the allocation.\<close>

lemma ptrvec_empty_capacity:
  assumes "ptrvec_wcap calloc0 0 = Inr v"
  shows "ptrvec_push v x = Inl (Undefined ''write outside the vector'')"
  using assms by (auto simp: ptrvec_wcap_def ptrvec_push_def ptrvec_reserve_def pv_write_def split: if_splits)

text \<open>\<open>ptrvec_pop\<close> does not return the element pushed last: it reads the cell behind it, which
  was never written.\<close>

lemma ptrvec_pop_misses:
  assumes "pv_inv v" and "ptrvec_push v x = Inr (i, v')"
  shows "\<exists>w. ptrvec_pop v' = Inr (None, w) \<and> pv_length w = pv_length v
    \<and> ptrvec_last v' = Inr (Some x)"
proof -
  from ptrvec_push_inv [OF assms(1), of x] assms(2) have
    v': "pv_inv v'" "pv_list v' = pv_list v @ [x]" by auto
  have len: "pv_length v' = Suc (pv_length v)" using arg_cong [OF v'(2), of length] by simp
  have "pv_data v' (pv_length v') = None" using pv_inv_data [OF v'(1)] by blast
  then show ?thesis
    using pv_inv_cap [OF v'(1)] ptrvec_last_inv [OF v'(1)] v'(2) len
    by (simp add: ptrvec_pop_def pv_read_def Let_def)
qed

section \<open>Hash tables\<close>

text \<open>\<open>hashpjw\<close> keeps its four top bits clear, so no shift of the next round loses a bit of the
  hash, and the bucket of every string is inside the array of buckets.\<close>

theorem hashpjw_index_bound:
  assumes "0 < ht_num_buckets t" and "ht_hash t = hashpjw"
  shows "uint (hashpjw s) < 2 ^ 60 \<and> ht_index t s < ht_num_buckets t"
proof -
  have "uint (hashpjw s) < 2 ^ 60"
    using hashpjw_bound [of s] by (simp add: word_less_def)
  moreover have "uint (hashpjw s) mod int (ht_num_buckets t) < int (ht_num_buckets t)"
    using assms(1) by (intro pos_mod_bound) simp
  ultimately show ?thesis by (simp add: ht_index_def assms(2) nat_less_iff assms(1))
qed

theorem hashpjw_index_bound_witness:
  "ht_index (hash_new 16 hashpjw (=) :: (string, int) hash_table) ''foo'' < 16"
  using hashpjw_index_bound [of "hash_new 16 hashpjw (=) :: (string, int) hash_table" "''foo''"]
  by (simp add: hash_new_def)

text \<open>The table after a sequence of insertions, in order.\<close>

fun hash_insert_all :: "('k, 'v) hash_table \<Rightarrow> ('k \<times> 'v) list \<Rightarrow> ('k, 'v) hash_table result" where
  "hash_insert_all t [] = Inr t"
| "hash_insert_all t ((k, v) # kvs) = bindr (hash_insert t k v) (\<lambda>t. hash_insert_all t kvs)"

lemma hash_insert_all_map:
  "ht_inv t \<Longrightarrow> \<exists>t'. hash_insert_all t kvs = Inr t' \<and> ht_inv t' \<and> ht_map t' = ht_map t ++ map_of (rev kvs)"
proof (induction kvs arbitrary: t)
  case Nil
  then show ?case by simp
next
  case (Cons kv kvs)
  obtain k v where kv: "kv = (k, v)" by (cases kv)
  from ht.insert [OF Cons.prems, of k v] obtain t1 where
    t1: "hash_insert t k v = Inr t1" "ht_inv t1" "ht_map t1 = (ht_map t)(k \<mapsto> v)" by blast
  have m: "(ht_map t)(k \<mapsto> v) ++ map_of (rev kvs) = ht_map t ++ map_of (rev (kv # kvs))"
    by (simp add: kv map_add_def fun_eq_iff split: option.splits)
  from Cons.IH [OF t1(2)] show ?case by (simp only: kv hash_insert_all.simps t1 bindr_simps m [unfolded kv])
qed



lemma ht_map_bucket: "ht_inv t \<Longrightarrow> (k, v) \<in> set (ht_buckets t i) \<longleftrightarrow> ht_map t k = Some v \<and> ht_index t k = i"
proof
  assume inv: "ht_inv t" and e: "(k, v) \<in> set (ht_buckets t i)"
  then have "k \<in> fst ` set (ht_buckets t i)" by force
  with inv have i: "ht_index t k = i" unfolding ht_inv_def by blast
  moreover have "distinct (map fst (ht_buckets t i))" using inv unfolding ht_inv_def by blast
  ultimately show "ht_map t k = Some v \<and> ht_index t k = i"
    using e by (simp add: ht_map_def)
next
  assume "ht_inv t" and "ht_map t k = Some v \<and> ht_index t k = i"
  then show "(k, v) \<in> set (ht_buckets t i)" by (auto simp: ht_map_def dest: map_of_SomeD)
qed

lemma ht_index_less: "ht_inv t \<Longrightarrow> ht_index t k < ht_num_buckets t"
  by (simp add: ht_inv_def ht_index_def nat_less_iff)

lemma distinct_buckets:
  assumes "ht_inv t" and "distinct js"
  shows "distinct (map fst (concat (map (ht_buckets t) js)))"
  using assms(2)
proof (induction js)
  case Nil
  then show ?case by simp
next
  case (Cons i js)
  have own: "ht_index t k = j" if "k \<in> fst ` set (ht_buckets t j)" for k j
    using ht_map_bucket [OF assms(1)] that by fastforce
  have "set (map fst (ht_buckets t i)) \<inter> set (map fst (concat (map (ht_buckets t) js))) = {}"
  proof -
    have "i \<in> set js" if "k \<in> fst ` set (ht_buckets t i)" "k \<in> fst ` set (concat (map (ht_buckets t) js))" for k
    proof -
      from that(2) obtain j where j: "j \<in> set js" "k \<in> fst ` set (ht_buckets t j)" by auto
      from own [OF that(1)] own [OF j(2)] j(1) show ?thesis by simp
    qed
    with Cons.prems show ?thesis by auto
  qed
  moreover have "distinct (map fst (ht_buckets t i))" using assms(1) unfolding ht_inv_def by blast
  ultimately show ?case using Cons by (simp only: list.map concat.simps map_append distinct_append) simp
qed

text \<open>\<open>hash_free\<close> hands every key and value of the table to the destructors, each once.\<close>

lemma hash_free_once:
  assumes "ht_inv t"
  shows "distinct (map fst (hash_free t)) \<and> set (hash_free t) = {(k, v). ht_map t k = Some v}"
  using ht_map_bucket [OF assms] ht_index_less [OF assms] distinct_buckets [OF assms distinct_upt]
  by (auto simp: hash_free_def)

text \<open>A table of two buckets, one key in each.\<close>

definition two_buckets :: "(nat, nat) hash_table" where
  "two_buckets = (case hash_insert_all (hash_new 2 of_nat (=)) [(0, 5), (1, 6)] of
     Inl _ \<Rightarrow> hash_new 1 of_nat (=) | Inr t \<Rightarrow> t)"

lemma two_buckets: "ht_inv two_buckets" "ht_map two_buckets = [0 \<mapsto> 5, 1 \<mapsto> 6]" "ht_num_buckets two_buckets = 2"
    "ht_index two_buckets 0 = 0" "ht_index two_buckets 1 = 1"
proof -
  from hash_insert_all_map [OF hash_new_inv [of 2 of_nat], of "[(0, 5), (1 :: nat, 6 :: nat)]"]
  have "\<exists>t. hash_insert_all (hash_new 2 of_nat (=)) [(0 :: nat, 5 :: nat), (1, 6)] = Inr t \<and> ht_inv t
    \<and> ht_map t = [0 \<mapsto> 5, 1 \<mapsto> 6]"
    by (simp add: hash_new_map)
  then show "ht_inv two_buckets" "ht_map two_buckets = [0 \<mapsto> 5, 1 \<mapsto> 6]"
    by (auto simp: two_buckets_def)
  show "ht_num_buckets two_buckets = 2" "ht_index two_buckets 0 = 0" "ht_index two_buckets 1 = 1"
    by (simp_all add: two_buckets_def hash_insert_def hash_new_def ht_index_def)
qed

text \<open>C40. The macro \<open>HFOREACH\<close> does not visit the table once: it visits the first bucket twice when
  there are several, and an entry of the last bucket is never visited.\<close>

theorem hforeach_misses_last_bucket:
  assumes "ht_inv t" and "2 \<le> ht_num_buckets t"
  shows "hforeach t = ht_buckets t 0 @ ht_buckets t 0 @ concat (map (ht_buckets t) [1..<ht_num_buckets t - 1])
    \<and> ((k, v) \<in> set (hforeach t) \<longleftrightarrow> ht_map t k = Some v \<and> ht_index t k \<noteq> ht_num_buckets t - 1)"
proof -
  let ?n = "ht_num_buckets t"
  have "0 < ?n - 1" using assms(2) by simp
  then have "hfe_order ?n = 0 # 0 # [1..<?n - 1]"
    using hfe_order_eq [of ?n] by (simp add: upt_conv_Cons)
  then have e: "hforeach t = ht_buckets t 0 @ ht_buckets t 0 @ concat (map (ht_buckets t) [1..<?n - 1])"
    by (simp add: hforeach_def)
  have "(k, v) \<in> set (hforeach t) \<longleftrightarrow> (\<exists>i < ?n - 1. (k, v) \<in> set (ht_buckets t i))"
  proof
    assume "(k, v) \<in> set (hforeach t)"
    then consider "(k, v) \<in> set (ht_buckets t 0)"
      | i where "i < ?n - 1" "(k, v) \<in> set (ht_buckets t i)" by (auto simp: e)
    then show "\<exists>i < ?n - 1. (k, v) \<in> set (ht_buckets t i)"
      using \<open>0 < ?n - 1\<close> by cases blast+
  next
    assume "\<exists>i < ?n - 1. (k, v) \<in> set (ht_buckets t i)"
    then obtain i where "i < ?n - 1" "(k, v) \<in> set (ht_buckets t i)" by blast
    then have "i = 0 \<or> i \<in> set [1..<?n - 1]" by auto
    with \<open>(k, v) \<in> set (ht_buckets t i)\<close> show "(k, v) \<in> set (hforeach t)"
      unfolding e set_append set_concat set_map by blast
  qed
  also have "\<dots> \<longleftrightarrow> ht_map t k = Some v \<and> ht_index t k < ?n - 1"
    unfolding ht_map_bucket [OF assms(1)] by blast
  also have "ht_index t k < ?n - 1 \<longleftrightarrow> ht_index t k \<noteq> ?n - 1"
    using ht_index_less [OF assms(1), of k] by linarith
  finally show ?thesis using e by (intro conjI)
qed

theorem hforeach_misses_last_bucket_witness:
  "(1, 6) \<notin> set (hforeach two_buckets) \<and> (0, 5) \<in> set (hforeach two_buckets)"
proof
  have "2 \<le> ht_num_buckets two_buckets" by (simp add: two_buckets)
  note m = conjunct2 [OF hforeach_misses_last_bucket [OF two_buckets(1) this]]
  show "(1, 6) \<notin> set (hforeach two_buckets)" by (simp only: m two_buckets) simp
  show "(0, 5) \<in> set (hforeach two_buckets)" by (simp only: m two_buckets) simp
qed

end
