(* ===== verification/Programs.thy ===== *)
theory Programs
  imports Calls Containers
begin

text \<open>
  Properties of whole runs: what an analysed subprogram or program leaves behind, the printed trees, the
  phases and the command line.
\<close>

section \<open>Subprograms and programs\<close>



text \<open>C7. An accepted program ends in a well-formed context with only the global scope open, and the
  output starts with the header of the assembly file.\<close>

theorem program_ends_well_formed:
  assumes "analyze prog = Inr cx"
  shows "acx_wf cx \<and> chain (acx_st cx) = [0] \<and> (\<exists>rest. output_text (acx_ofd cx) = output_header @ rest)"
  using analyze_inside [OF assms] by (auto simp: output_text_def)

lemma demo_prog_ok: "is_ok (analyze demo_prog)"
  by code_simp

theorem program_ends_well_formed_witness: "\<exists>cx. analyze demo_prog = Inr cx \<and> acx_wf cx"
  using demo_prog_ok
proof (rule is_okE)
  fix cx assume "analyze demo_prog = Inr cx"
  from program_ends_well_formed [OF this] this show ?thesis by blast
qed

section \<open>Printed trees\<close>

text \<open>The dump of an expression at indentation \<open>i\<close> consists of complete lines, each empty or
  starting with at least \<open>i\<close> blanks, as long as names have no newline and no unary operator occurs
  (after a unary operator the printer writes a line of its own without indentation).\<close>

lemma printed_expression_indented:
  assumes "clean_expr e"
  shows "indented i (Some 0) (stdout_of (print_expr tc e i))"
  using print_expr_indented_gen(1) [OF assms] .

text \<open>The dump of a statement at indentation \<open>i\<close> consists of complete lines, each empty or
  starting with at least \<open>i\<close> blanks, under the same conditions on the names and operators in it.\<close>

theorem printed_statement_indented:
  assumes "clean_stmt s"
  shows "indented i (Some 0) (stdout_of (print_stmt tc s i))"
  using print_stmt_indented_gen(1) [OF assms] .

theorem printed_statement_indented_witness: "indented 2 (Some 0) (stdout_of (print_stmt (\<lambda>_. 258) demo_body 2))"
  by (rule printed_statement_indented) (simp add: demo_body_def path_def ast_path_new_def clean_def)

section \<open>Phases and flags\<close>

text \<open>When the analysis is reached, and what is printed before.\<close>

lemma compile_reaches:
  "compile_input tc scan parse src options = Inr (shown, Some cx)
    \<longleftrightarrow> \<not> has_option options NO_PARSE \<and> \<not> has_option options NO_ANALYSIS
      \<and> (\<exists>p. parse src = (0, Some p) \<and> analyze p = Inr cx \<and> distinct (released p)
           \<and> shown = (if has_option options DUMP_TOKENS then dump_tokens tc (scan src) @ puts ''-- done dumping tokens --'' else [])
               @ (if has_option options DUMP_AST then print_program tc p 0 @ puts ''-- done dumping ast --'' else []))"
  unfolding compile_input_def Let_def
  by (auto split: prod.splits option.splits if_splits)

text \<open>An option is a bit of the option word.\<close>

lemma has_option_bit:
  "has_option x DUMP_TOKENS = bit x 0" "has_option x DUMP_AST = bit x 1" "has_option x NO_PARSE = bit x 2"
  "has_option x NO_ANALYSIS = bit x 3" "has_option x NO_CODEGEN = bit x 4" "has_option x DUMP_IR = bit x 5"
  by (simp_all only: has_option_def option_defs bit_iff_and_push_bit_not_eq_0)

lemma bit_flag: "bit (push_bit k 1 :: int) n = (n = k)"
  by (simp only: bit_push_bit_iff bit_1_iff possible_bit_int) auto

lemma bit_option:
  "bit DUMP_TOKENS n = (n = 0)" "bit DUMP_AST n = (n = 1)" "bit NO_PARSE n = (n = 2)"
  "bit NO_ANALYSIS n = (n = 3)" "bit NO_CODEGEN n = (n = 4)" "bit DUMP_IR n = (n = 5)"
  by (simp_all only: option_defs bit_flag)

lemma codegen_bits:
  "has_option (or x NO_CODEGEN) DUMP_TOKENS = has_option x DUMP_TOKENS" "has_option (or x NO_CODEGEN) DUMP_AST = has_option x DUMP_AST"
  "has_option (or x NO_CODEGEN) NO_PARSE = has_option x NO_PARSE" "has_option (or x NO_CODEGEN) NO_ANALYSIS = has_option x NO_ANALYSIS"
  "has_option (or x DUMP_IR) DUMP_TOKENS = has_option x DUMP_TOKENS" "has_option (or x DUMP_IR) DUMP_AST = has_option x DUMP_AST"
  "has_option (or x DUMP_IR) NO_PARSE = has_option x NO_PARSE" "has_option (or x DUMP_IR) NO_ANALYSIS = has_option x NO_ANALYSIS"
  by (simp_all add: has_option_bit bit_or_iff bit_option)

text \<open>The flags for code generation have no effect: with or without \<open>NO_CODEGEN\<close> and \<open>DUMP_IR\<close>
  the compiler does the same, since the analysis prints the code.\<close>

lemma codegen_flags_ignored:
  "compile_input tc scan parse src (or options NO_CODEGEN) = compile_input tc scan parse src options
    \<and> compile_input tc scan parse src (or options DUMP_IR) = compile_input tc scan parse src options"
  by (simp only: compile_input_def codegen_bits simp_thms)

lemma read_flags_bits:
  "set cs \<subseteq> set ''lpinNCd'' \<Longrightarrow> \<exists>x. read_flags cs y debug = Inr (x, debug \<or> CHR ''d'' \<in> set cs)
     \<and> (\<forall>n. bit x n \<longleftrightarrow> bit y n \<or> (n = 0 \<and> CHR ''l'' \<in> set cs) \<or> (n = 1 \<and> CHR ''p'' \<in> set cs)
          \<or> (n = 2 \<and> CHR ''n'' \<in> set cs) \<or> (n = 3 \<and> CHR ''N'' \<in> set cs) \<or> (n = 4 \<and> CHR ''C'' \<in> set cs)
          \<or> (n = 5 \<and> CHR ''i'' \<in> set cs))"
proof (induction cs arbitrary: y debug)
  case Nil
  then show ?case by simp
next
  case (Cons c cs)
  then have "c \<in> set ''lpinNCd''" "set cs \<subseteq> set ''lpinNCd''" by simp_all
  note IH = Cons.IH [OF this(2)]
  from \<open>c \<in> _\<close> consider "c = CHR ''l''" | "c = CHR ''p''" | "c = CHR ''i''" | "c = CHR ''n''" | "c = CHR ''N''"
    | "c = CHR ''C''" | "c = CHR ''d''" by auto
  then show ?case
  proof cases
    case 1
    with IH [of "or y DUMP_TOKENS" debug] show ?thesis by (auto simp: bit_or_iff bit_option)
  next
    case 2
    with IH [of "or y DUMP_AST" debug] show ?thesis by (auto simp: bit_or_iff bit_option)
  next
    case 3
    with IH [of "or y DUMP_IR" debug] show ?thesis by (auto simp: bit_or_iff bit_option)
  next
    case 4
    with IH [of "or y NO_PARSE" debug] show ?thesis by (auto simp: bit_or_iff bit_option)
  next
    case 5
    with IH [of "or y NO_ANALYSIS" debug] show ?thesis by (auto simp: bit_or_iff bit_option)
  next
    case 6
    with IH [of "or y NO_CODEGEN" debug] show ?thesis by (auto simp: bit_or_iff bit_option)
  next
    case 7
    with IH [of y True] show ?thesis by auto
  qed
qed

text \<open>The flag argument: every known letter switches its option on, in any order and however often
  it is repeated, and nothing else is switched on.\<close>

lemma flags_set_options:
  assumes "set cs \<subseteq> set ''lpinNCd''"
  shows "\<exists>x. read_flags cs 0 False = Inr (x, CHR ''d'' \<in> set cs)
    \<and> (has_option x DUMP_TOKENS \<longleftrightarrow> CHR ''l'' \<in> set cs) \<and> (has_option x DUMP_AST \<longleftrightarrow> CHR ''p'' \<in> set cs)
    \<and> (has_option x NO_PARSE \<longleftrightarrow> CHR ''n'' \<in> set cs) \<and> (has_option x NO_ANALYSIS \<longleftrightarrow> CHR ''N'' \<in> set cs)
    \<and> (has_option x NO_CODEGEN \<longleftrightarrow> CHR ''C'' \<in> set cs) \<and> (has_option x DUMP_IR \<longleftrightarrow> CHR ''i'' \<in> set cs)"
  using read_flags_bits [OF assms, of 0 False] by (auto simp: has_option_bit)

end
