(* ===== verification/TableFree.thy ===== *)
theory TableFree
  imports Destroy Scoping
begin

text \<open>
  The destructors of symbol.c, with the blocks named as in Destroy: \<open>free_stab_scope\<close>,
  \<open>free_stab_var\<close>, \<open>free_stab_type\<close> and \<open>stab_free\<close>, over the destructors of the vector and the hash
  table. The elements of the chain, the keys and values of a table and the arguments of a subprogram
  type have \<open>dummy_free\<close> as destructor: nothing is freed for them. \<open>defn\<close> is always null.
\<close>

section \<open>Destructors\<close>

text \<open>\<open>ptrvec_free\<close>, given what its destructor frees for an element; a cell that was never written is null.\<close>

definition free_ptrvec :: "('a \<Rightarrow> loc list) \<Rightarrow> 'a ptrvec \<Rightarrow> loc list result" where
  "free_ptrvec f v =
     (if None \<in> set (ptrvec_free v) then Inl (Undefined ''null pointer'')
      else Inr (at (Fld ''data'') (elts 0 (map f (map the (ptrvec_free v))) @ leaf) @ [[]]))"

text \<open>\<open>hash_free\<close>: the lists of the buckets, with \<open>free\<close> as destructor, the array, the table.\<close>

definition free_hash :: "('k, 'v) hash_table \<Rightarrow> loc list" where
  "free_hash t =
     at (Fld ''buckets'')
       (elts 0 (map (\<lambda>j. free_list (map (\<lambda>_. leaf) (ht_buckets t j))) [0..<ht_num_buckets t]) @ leaf) @ [[]]"

definition free_stab_scope :: "stab_scope \<Rightarrow> loc list" where
  "free_stab_scope sc =
     at (Fld ''vars'') (free_hash (sc_vars sc)) @ at (Fld ''funcs'') (free_hash (sc_funcs sc))
     @ at (Fld ''types'') (free_hash (sc_types sc)) @ [[]]"

definition free_stab_var :: "stab_var \<Rightarrow> loc list" where
  "free_stab_var v = at (Fld ''name'') leaf @ [[]]"

definition free_stab_record_field :: "string \<times> int \<Rightarrow> loc list" where
  "free_stab_record_field f = at (Fld ''name'') leaf @ [[]]"

definition free_stab_type :: "stab_type \<Rightarrow> loc list" where
  "free_stab_type t =
     at (Fld ''name'') leaf
     @ (case st_ty t of
          R_RECORD fs \<Rightarrow> at (Fld ''fields'') (free_list (map free_stab_record_field fs))
        | R_FUNCTION _ (Some ids) _ _ \<Rightarrow> at (Fld ''args'') (free_list (map (\<lambda>_. []) ids))
        | _ \<Rightarrow> [])
     @ [[]]"

definition stab_free :: "stab \<Rightarrow> loc list result" where
  "stab_free st =
     bindr (free_ptrvec free_stab_scope (scopes st)) (\<lambda>scs.
     bindr (free_ptrvec free_stab_var (vars st)) (\<lambda>vs.
     bindr (free_ptrvec free_stab_type (types st)) (\<lambda>ts.
     Inr (at (Fld ''chain'') (free_list (map (\<lambda>_. []) (chain st))) @ at (Fld ''scopes'') scs
          @ at (Fld ''vars'') vs @ at (Fld ''types'') ts @ [[]]))))"

section \<open>The blocks of a table\<close>

fun in_array :: "(nat \<Rightarrow> loc \<Rightarrow> bool) \<Rightarrow> nat \<Rightarrow> loc \<Rightarrow> bool" where
  "in_array v n [] = True"
| "in_array v n (Elt i # r) = (i < n \<and> v i r)"
| "in_array v n (_ # r) = False"

definition struct :: "(string \<Rightarrow> loc \<Rightarrow> bool) \<Rightarrow> loc \<Rightarrow> bool" where
  "struct v r = (case r of [] \<Rightarrow> True | Fld f # q \<Rightarrow> v f q | _ \<Rightarrow> False)"

definition no_block :: "'a \<Rightarrow> loc \<Rightarrow> bool" where
  "no_block x r \<longleftrightarrow> False"

definition block_vec :: "('a \<Rightarrow> loc \<Rightarrow> bool) \<Rightarrow> 'a ptrvec \<Rightarrow> loc \<Rightarrow> bool" where
  "block_vec v w = struct (\<lambda>f q. f = ''data'' \<and> in_array (\<lambda>i. v (pv_list w ! i)) (pv_length w) q)"

definition block_hash :: "('k, 'v) hash_table \<Rightarrow> loc \<Rightarrow> bool" where
  "block_hash t = struct (\<lambda>f q. f = ''buckets''
     \<and> in_array (\<lambda>j. in_list block_leaf (ht_buckets t j)) (ht_num_buckets t) q)"

definition block_scope :: "stab_scope \<Rightarrow> loc \<Rightarrow> bool" where
  "block_scope sc = struct (\<lambda>f q. f = ''vars'' \<and> block_hash (sc_vars sc) q
     \<or> f = ''funcs'' \<and> block_hash (sc_funcs sc) q \<or> f = ''types'' \<and> block_hash (sc_types sc) q)"

definition block_named :: "'a \<Rightarrow> loc \<Rightarrow> bool" where
  "block_named x = struct (\<lambda>f q. f = ''name'' \<and> q = [])"

definition block_entry :: "stab_type \<Rightarrow> loc \<Rightarrow> bool" where
  "block_entry t = struct (\<lambda>f q. f = ''name'' \<and> q = [] \<or> (case st_ty t of
       R_RECORD fs \<Rightarrow> f = ''fields'' \<and> in_list block_named fs q
     | R_FUNCTION _ (Some ids) _ _ \<Rightarrow> f = ''args'' \<and> in_list no_block ids q
     | _ \<Rightarrow> False))"

definition block_stab :: "stab \<Rightarrow> loc \<Rightarrow> bool" where
  "block_stab st = struct (\<lambda>f q. f = ''chain'' \<and> in_list no_block (chain st) q
     \<or> f = ''scopes'' \<and> block_vec block_scope (scopes st) q \<or> f = ''vars'' \<and> block_vec block_named (vars st) q
     \<or> f = ''types'' \<and> block_vec block_entry (types st) q)"

section \<open>Every block is freed once\<close>

lemma struct_simps [simp]:
  "struct v []" "struct v (Fld f # q) = v f q" "\<not> struct v (Elt i # q)" "\<not> struct v (Node i # q)"
  by (simp_all add: struct_def)

lemma frees_no_blocks: "frees (free_list (map (\<lambda>_. []) xs)) (in_list no_block xs)"
  by (rule frees_list) (simp add: frees_def no_block_def)

lemma elts_distinct: "distinct (elts i bs) \<longleftrightarrow> (\<forall>b \<in> set bs. distinct b)"
proof (induction i bs rule: elts.induct)
  case (2 i b bs)
  have "set (at (Elt i) b) \<inter> set (elts (Suc i) bs) = {}"
    by (auto simp: at_def elts_mem)
  with 2 show ?case by simp
qed simp

text \<open>An array of pointers: what is behind the elements, then the array.\<close>

lemma frees_array:
  assumes "\<And>i. i < length bs \<Longrightarrow> frees (bs ! i) (v i)" and "n = length bs"
  shows "frees (elts 0 bs @ leaf) (in_array v n)"
proof -
  have "\<forall>b \<in> set bs. distinct b" using assms by (auto simp: in_set_conv_nth frees_def)
  then have "distinct (elts 0 bs @ leaf)" by (auto simp: elts_distinct)
  moreover have "q \<in> set (bs ! i) \<longleftrightarrow> v i q" if "i < length bs" for i q
    by (rule frees_mem) (rule assms(1) [OF that])
  ultimately show ?thesis
    using assms(2) by (intro freesI) (auto simp: elts_mem)
qed

lemma frees_data: "frees bs v \<Longrightarrow> frees (at (Fld f) bs @ [[]]) (struct (\<lambda>g q. g = f \<and> v q))"
  by (rule freesI) (auto simp: frees_def)

lemma free_hash_frees: "frees (free_hash t) (block_hash t)"
  unfolding free_hash_def block_hash_def
  by (intro frees_data frees_array) (simp_all add: frees_leaves)

lemma free_ptrvec_frees:
  assumes "pv_inv w" and "\<And>x. frees (f x) (v x)"
  shows "\<exists>bs. free_ptrvec f w = Inr bs \<and> frees bs (block_vec v w)"
proof -
  have e: "ptrvec_free w = map Some (pv_list w)" by (rule ptrvec_free_inv [OF assms(1)])
  have "frees (elts 0 (map f (pv_list w)) @ leaf) (in_array (\<lambda>i. v (pv_list w ! i)) (pv_length w))"
    by (rule frees_array) (simp_all add: assms(2))
  from frees_data [OF this, of "''data''"] show ?thesis
    by (auto simp: free_ptrvec_def e block_vec_def comp_def)
qed

lemma free_stab_scope_frees: "frees (free_stab_scope sc) (block_scope sc)"
  by (rule freesI)
    (auto simp: free_stab_scope_def block_scope_def frees_mem [OF free_hash_frees] frees_distinct [OF free_hash_frees])

lemma free_named_frees: "frees (free_stab_var v) (block_named v)" "frees (free_stab_record_field f) (block_named f)"
  by (rule freesI; auto simp: free_stab_var_def free_stab_record_field_def block_named_def)+

lemma free_stab_type_frees: "frees (free_stab_type t) (block_entry t)"
proof -
  have f: "frees (free_list (map free_stab_record_field fs)) (in_list block_named fs)" for fs
    by (rule frees_list) (rule free_named_frees(2))
  show ?thesis
    by (rule freesI)
      (auto simp: free_stab_type_def block_entry_def frees_mem [OF f] frees_distinct [OF f]
        frees_mem [OF frees_no_blocks] frees_distinct [OF frees_no_blocks]
        split: stab_resolved_type.splits option.splits)
qed

text \<open>C24. \<open>stab_free\<close> frees every block of a well-formed symbol table exactly once: the scopes with
  their tables, the variables and types with their names and lists, the vectors and the chain.\<close>

theorem stab_free_once:
  assumes "stab_wf st"
  shows "\<exists>bs. stab_free st = Inr bs \<and> distinct bs \<and> (\<forall>r. r \<in> set bs \<longleftrightarrow> block_stab st r)"
proof -
  have inv: "pv_inv (scopes st)" "pv_inv (vars st)" "pv_inv (types st)"
    using assms by (simp_all add: stab_wf_def)
  obtain scs where s: "free_ptrvec free_stab_scope (scopes st) = Inr scs" "frees scs (block_vec block_scope (scopes st))"
    using free_ptrvec_frees [OF inv(1), of free_stab_scope, OF free_stab_scope_frees] by blast
  obtain vs where v: "free_ptrvec free_stab_var (vars st) = Inr vs" "frees vs (block_vec block_named (vars st))"
    using free_ptrvec_frees [OF inv(2), of free_stab_var, OF free_named_frees(1)] by blast
  obtain ts where t: "free_ptrvec free_stab_type (types st) = Inr ts" "frees ts (block_vec block_entry (types st))"
    using free_ptrvec_frees [OF inv(3), of free_stab_type, OF free_stab_type_frees] by blast
  let ?bs = "at (Fld ''chain'') (free_list (map (\<lambda>_. []) (chain st))) @ at (Fld ''scopes'') scs
    @ at (Fld ''vars'') vs @ at (Fld ''types'') ts @ [[]]"
  have "frees ?bs (block_stab st)"
    by (rule freesI)
      (auto simp: block_stab_def frees_mem [OF frees_no_blocks] frees_distinct [OF frees_no_blocks]
        frees_mem [OF s(2)] frees_distinct [OF s(2)] frees_mem [OF v(2)] frees_distinct [OF v(2)]
        frees_mem [OF t(2)] frees_distinct [OF t(2)] Int_Un_distrib)
  then show ?thesis
    by (simp add: stab_free_def s(1) v(1) t(1) frees_def)
qed

theorem stab_free_once_witness:
  "\<exists>bs. stab_free one_scope = Inr bs \<and> distinct bs \<and> [Fld ''scopes'', Fld ''data'', Elt 0, Fld ''vars''] \<in> set bs"
proof -
  obtain bs where b: "stab_free one_scope = Inr bs" "distinct bs" "\<forall>r. r \<in> set bs \<longleftrightarrow> block_stab one_scope r"
    using stab_free_once [OF one_scope(1)] by blast
  have "block_stab one_scope [Fld ''scopes'', Fld ''data'', Elt 0, Fld ''vars'']"
    by code_simp
  with b show ?thesis by blast
qed

end
