(* ===== verification/Failures.thy ===== *)
theory Failures
  imports ProgramWf
begin

text \<open>
  How the analysis can fail. Under the invariant of the context every failure is a message, an
  \<open>abort\<close>, or one of six undefined steps (\<open>documented\<close>): no recursion runs forever, no store is
  outside a vector, and no hash table has zero buckets.
\<close>

definition documented :: "failure \<Rightarrow> bool" where
  "documented e \<longleftrightarrow> (case e of
       Span_Err _ \<Rightarrow> True
     | Abort \<Rightarrow> True
     | Undefined s \<Rightarrow> s \<in> set [''read outside the vector'', ''null pointer'', ''wrong member of a union'',
         ''use after free'', ''atoi out of range'', ''write outside the string'']
     | Diverges \<Rightarrow> False)"

definition fails_ok :: "'a result \<Rightarrow> bool" where
  "fails_ok m \<longleftrightarrow> (\<forall>e. m = Inl e \<longrightarrow> documented e)"

lemma fails_ok_simps [simp]:
  "fails_ok (Inr x)"
  "fails_ok (Inl e) = documented e"
  "fails_ok (bindr m f) \<longleftrightarrow> fails_ok m \<and> (\<forall>x. m = Inr x \<longrightarrow> fails_ok (f x))"
  by (cases m; auto simp: fails_ok_def)+

lemma documented_simps [simp]:
  "documented (Span_Err s)" "documented Abort" "\<not> documented Diverges"
  "documented (Undefined ''read outside the vector'')" "documented (Undefined ''null pointer'')"
  "documented (Undefined ''wrong member of a union'')" "documented (Undefined ''use after free'')"
  "documented (Undefined ''atoi out of range'')" "documented (Undefined ''write outside the string'')"
  by (simp_all add: documented_def)

section \<open>Reading\<close>

lemma read_fails [simp]:
  "fails_ok (pv_read v i)" "fails_ok (STAB_TYPE st t)" "fails_ok (STAB_VAR st t)" "fails_ok (scope_at st i)"
  "fails_ok (top_scope st)"
  by (simp_all add: pv_read_def STAB_TYPE_def STAB_VAR_def scope_at_def top_scope_def chain_last_def split: option.splits)

lemma type_fails [simp]:
  "fails_ok (stab_print_type st t i)" "fails_ok (size_of_type cx t)" "fails_ok (func_args entry)"
  "fails_ok (arg_mismatch st t n want found)"
  by (simp_all add: stab_print_type_def size_of_type_def func_args_def arg_mismatch_def
      split: stab_resolved_type.splits option.splits)

lemma expr_fails [simp]:
  "fails_ok (low8 r)" "fails_ok (bin_code op r s)" "fails_ok (io_routine prefix ty)" "fails_ok (expr_path e)"
  "fails_ok (path_head p)" "fails_ok (head_func h)" "fails_ok (CHKRES what n ty)" "fails_ok (atoi n)"
  by (simp_all add: low8_def bin_code_def io_routine_def expr_path_def path_head_def head_func_def CHKRES_def
      atoi_def Let_def split: ast_expr.splits ast_type.splits list.splits)

lemma find_field_fails [simp]: "fails_ok (find_field cx fs n off)"
  by (induction fs arbitrary: off) auto

lemma path_loop_fails [simp]: "fails_ok (path_loop cx r ty first k cur)"
  by (induction cx r ty first k cur rule: path_loop.induct)
    (auto split: option.splits stab_resolved_type.splits)

lemma types_eq_fuel_fails: "types_eq_fuel n st a b = Inl e \<Longrightarrow> e = Diverges \<or> documented e"
proof (induction n arbitrary: a b)
  case (Suc n)
  show ?case
  proof (cases "STAB_TYPE st a")
    case (Inl e')
    with Suc.prems read_fails(2) [of st a] show ?thesis by simp
  next
    case at: (Inr at)
    show ?thesis
    proof (cases "STAB_TYPE st b")
      case (Inl e')
      with at Suc.prems read_fails(2) [of st b] show ?thesis by simp
    next
      case (Inr bt)
      with at Suc show ?thesis by (auto split: if_splits stab_resolved_type.splits)
    qed
  qed
qed simp

lemma types_eq_fails [simp]: "stab_wf st \<Longrightarrow> fails_ok (stab_types_eq st a b)"
  using stab_types_eq_returns [of st a b] types_eq_fuel_fails unfolding fails_ok_def stab_types_eq_def by blast

lemma lookup_fails [simp]:
  assumes "stab_wf st"
  shows "fails_ok (stab_resolve_var st n)" "fails_ok (stab_resolve_func st n)" "fails_ok (stab_resolve_type_name st n)"
    "fails_ok (stab_has_local_type st n)" "fails_ok (stab_has_local_var st n)" "fails_ok (stab_has_local_func st n)"
proof -
  have "fails_ok (has_local st tab n)" if "is_table tab" for tab
  proof (cases "chain st = []")
    case True
    then show ?thesis by (simp add: has_local_def top_scope_def chain_last_def)
  next
    case False
    with has_local_map [OF assms False that] show ?thesis by simp
  qed
  then show "fails_ok (stab_has_local_type st n)" "fails_ok (stab_has_local_var st n)" "fails_ok (stab_has_local_func st n)"
    by (simp_all add: stab_has_local_type_def stab_has_local_var_def stab_has_local_func_def is_table_simps)
qed (simp_all add: resolve_env [OF assms])

section \<open>Declaring\<close>

lemma add_var_fails [simp]:
  assumes "stab_wf st" "chain st \<noteq> []" "ref_ok (ntypes st) ty"
  shows "fails_ok (stab_add_var st n ty off b)"
proof (cases "off \<noteq> None \<longrightarrow> id_ok (ntypes st) ty")
  case True
  with stab_add_var_wf [OF assms, of off n b] show ?thesis by auto
next
  case False
  then obtain e where "STAB_TYPE st ty = Inl e" using STAB_TYPE_Inr(1) [OF assms(1)] by (cases "STAB_TYPE st ty") blast+
  with False read_fails(2) [of st ty] show ?thesis by (auto simp: stab_add_var_def)
qed

lemma push_type_fails [simp]: "stab_wf st \<Longrightarrow> fails_ok (push_type st t)"
  using ptrvec_push_inv [OF stab_wfD(2), of st t] by (auto simp: push_type_def)

lemma bind_fails:
  "stab_wf st \<Longrightarrow> chain st \<noteq> [] \<Longrightarrow> id_ok (ntypes st) i \<Longrightarrow> fails_ok (bind_func st n i)"
  "stab_wf st \<Longrightarrow> chain st \<noteq> [] \<Longrightarrow> id_ok (ntypes st) i \<Longrightarrow> fails_ok (bind_type st n i)"
  using bind_func_wf [of st i n] bind_type_wf [of st i n] by auto

lemma resolve_next:
  assumes "stab_wf st" "chain st \<noteq> []"
  shows "stab_resolve_type st name oty = Inr (i, s1) \<Longrightarrow> stab_wf s1 \<and> chain s1 \<noteq> [] \<and> ref_ok (ntypes s1) i"
    "stab_resolve_complex_type st name ty = Inr (i, s1) \<Longrightarrow> stab_wf s1 \<and> chain s1 \<noteq> [] \<and> id_ok (ntypes s1) i"
    "resolve_fields st fs = Inr (rfs, s1) \<Longrightarrow> stab_wf s1 \<and> chain s1 \<noteq> []"
    "resolve_params st ds = Inr (ids, s1) \<Longrightarrow> stab_wf s1 \<and> chain s1 \<noteq> []"
    "resolve_param_names st ns t = Inr (ids, s1) \<Longrightarrow> stab_wf s1 \<and> chain s1 \<noteq> []"
    "ref_ok (ntypes st) j \<Longrightarrow> stab_add_var st name j off b = Inr (vid, off', s1) \<Longrightarrow> stab_wf s1 \<and> chain s1 \<noteq> []"
  using resolve_grows [OF assms] add_var_grows(1) [OF assms, of j name off b vid off' s1] growsD(1,5) assms(2) by metis+

declare stab_resolve_type.simps(2) [simp del]

lemma resolve_fails:
  "stab_wf st \<Longrightarrow> chain st \<noteq> [] \<Longrightarrow> fails_ok (stab_resolve_type st name oty)"
  "stab_wf st \<Longrightarrow> chain st \<noteq> [] \<Longrightarrow> fails_ok (stab_resolve_complex_type st name ty)"
  "stab_wf st \<Longrightarrow> chain st \<noteq> [] \<Longrightarrow> fails_ok (resolve_fields st fs)"
  "stab_wf st \<Longrightarrow> chain st \<noteq> [] \<Longrightarrow> fails_ok (resolve_params st ds)"
  "stab_wf st \<Longrightarrow> chain st \<noteq> [] \<Longrightarrow> fails_ok (resolve_param_names st ns t)"
proof (induction st name oty and st name ty and st fs and st ds and st ns t
    rule: stab_resolve_type_stab_resolve_complex_type_resolve_fields_resolve_params_resolve_param_names.induct)
  case (2 st name ty)
  then show ?case by (cases ty) (simp_all add: stab_resolve_type.simps(2))
next
  case (3 st name t)
  then show ?case by (auto dest: resolve_next(1) [OF 3(2,3)])
next
  case (4 st name fs)
  then show ?case by (auto dest: resolve_next(3) [OF 4(2,3)])
next
  case (5 st name lower upper elt)
  then show ?case by (auto dest: resolve_next(1) [OF 5(2,3)])
next
  case (6 st name k args retty)
  have "fails_ok (resolve_params s1 args)" "resolve_params s1 args = Inr (as, s2) \<Longrightarrow> stab_wf s2"
    if r: "stab_resolve_type st ''<func ret>'' retty = Inr (i, s1)" for i s1 as s2
    using 6(2) [OF r HOL.refl] resolve_next(1) [OF 6(3,4) r] resolve_next(4) [of s1 args] by simp_all
  with 6 show ?case by auto
next
  case (9 st n t fs)
  have "fails_ok (resolve_fields s1 fs)" if r: "stab_resolve_type st n (Some t) = Inr (i, s1)" for i s1
    using 9(2) [OF r HOL.refl] resolve_next(1) [OF 9(3,4) r] by simp
  with 9 show ?case by auto
next
  case (11 st names t ds)
  have "fails_ok (resolve_params s1 ds)" if r: "resolve_param_names st names t = Inr (as, s1)" for as s1
    using 11(2) [OF r HOL.refl] resolve_next(5) [OF 11(3,4) r] by simp
  with 11 show ?case by auto
next
  case (13 st n ns t)
  have "fails_ok (stab_add_var s1 n i None False)"
    "stab_add_var s1 n i None False = Inr (vid, off, s2) \<Longrightarrow> fails_ok (resolve_param_names s2 ns t)"
    if r: "stab_resolve_type st n (Some t) = Inr (i, s1)" for i s1 vid off s2
    using 13(2) [OF r HOL.refl] resolve_next(1) [OF 13(3,4) r] resolve_next(6) [of s1 i n None False vid off s2] by auto
  with 13 show ?case by auto
qed simp_all

lemma already_defined_documented [simp]: "documented (already_defined n)"
  by (simp add: already_defined_def)

lemma add_names_fails:
  "stab_wf st \<Longrightarrow> chain st \<noteq> [] \<Longrightarrow> ref_ok (ntypes st) ty \<Longrightarrow> fails_ok (add_names st ns ty off b)"
proof (induction ns arbitrary: st off)
  case (Cons n ns)
  have "fails_ok (add_names s1 ns ty off1 b)" if a: "stab_add_var st n ty off b = Inr (vid, off1, s1)" for vid off1 s1
  proof -
    have g: "grows st s1" by (rule add_var_grows(1) [OF Cons.prems a])
    show ?thesis
      by (rule Cons.IH) (use growsD(1,5) [OF g] Cons.prems ref_ok_mono [OF Cons.prems(3) growsD(6) [OF g]] in auto)
  qed
  with Cons.prems show ?case by auto
qed simp

lemma declare_fails:
  assumes "stab_wf st" "chain st \<noteq> []"
  shows "fails_ok (stab_add_decls st d off b)" "fails_ok (stab_add_func st n sig)" "fails_ok (stab_add_type st n ty)"
proof -
  have "fails_ok (add_names s1 ns i off b)" if "stab_resolve_type st name oty = Inr (i, s1)" for s1 ns i name oty
    using resolve_next(1) [OF assms that] by (simp add: add_names_fails)
  then show "fails_ok (stab_add_decls st d off b)"
    using resolve_fails(1) [OF assms] by (auto simp: stab_add_decls_def)
  have "fails_ok (bind_func s1 n i)" if "stab_resolve_complex_type st n sig = Inr (i, s1)" for s1 i
    using resolve_next(2) [OF assms that] by (simp add: bind_fails)
  then show "fails_ok (stab_add_func st n sig)"
    using resolve_fails(2) [OF assms] assms by (auto simp: stab_add_func_def)
  have "fails_ok (bind_type s1 n i)" if "stab_resolve_type st n (Some ty) = Inr (i, s1)" "keeps_name ty" for s1 i
  proof -
    from that have "stab_resolve_complex_type st n ty = Inr (i, s1)"
      by (auto simp: keeps_name_def stab_resolve_type.simps(2) split: ast_type.splits)
    from resolve_next(2) [OF assms this] show ?thesis by (simp add: bind_fails)
  qed
  then show "fails_ok (stab_add_type st n ty)"
    using resolve_fails(1) [OF assms] assms by (auto simp: stab_add_type_def)
qed

section \<open>Paths\<close>

lemma acx_wf_simps [simp]:
  "acx_wf (emit code cx) = acx_wf cx" "acx_wf (diag es cx) = acx_wf cx" "acx_wf (reg_takeitback cx r) = acx_wf cx"
  "acx_wf (save_registers cx) = acx_wf cx" "acx_wf (restore_registers_except cx r) = acx_wf cx"
  "acx_wf (cx\<lparr>acx_label := l\<rparr>) = acx_wf cx" "acx_wf (cx\<lparr>acx_toplevel := b\<rparr>) = acx_wf cx"
  "acx_wf (cx\<lparr>acx_ret_assigned := b\<rparr>) = acx_wf cx"
  by (simp_all add: acx_wf_def display_ok_def save_registers_def restore_registers_except_def)

lemma gimme_wf: "acx_wf cx \<Longrightarrow> reg_gimme cx = (r, cx1) \<Longrightarrow> acx_wf cx1"
  using calm.gimme [of cx r cx1] by (simp add: calm_def)

lemma load_var_fails: "acx_wf cx \<Longrightarrow> fails_ok (load_var cx r n i)"
proof -
  assume wf: "acx_wf cx"
  note st = acx_wfD(1) [OF wf]
  have "fails_ok (stab_var_put (acx_st cx) i w)" if "STAB_VAR (acx_st cx) i = Inr v" for v w
  proof -
    from STAB_VAR_Inr(1) [OF st that] have "nat i < pv_length (vars (acx_st cx))" by (auto simp: id_ok_def)
    from pv_write_inv [OF stab_wfD(1) [OF st] this, of w] show ?thesis by (auto simp: stab_var_put_def)
  qed
  with st show ?thesis by (auto simp: load_var_def)
qed

lemma type_of_path_fails: "acx_wf cx \<Longrightarrow> fails_ok (type_of_path cx p rv)"
  using acx_wfD(1) [of cx]
  by (cases "reg_gimme cx") (auto simp: type_of_path_def load_var_fails gimme_wf)

lemma type_of_path_wf: "acx_wf cx \<Longrightarrow> type_of_path cx p rv = Inr (r, cx1) \<Longrightarrow> acx_wf cx1"
  using calm.type_of_path_frame [of cx p rv r cx1] by (simp add: calm_def)

section \<open>Expressions\<close>

lemma analyze_wf:
  assumes "acx_wf cx"
  shows "analyze_expr cx e rv = Inr (res, cx1) \<Longrightarrow> acx_wf cx1"
    "analyze_call cx p args = Inr (res, cx1) \<Longrightarrow> acx_wf cx1"
    "analyze_magic cx which args = Inr cx1 \<Longrightarrow> acx_wf cx1"
    "call_args cx pty i args ids = Inr cx1 \<Longrightarrow> acx_wf cx1"
  using assms calm.analyze_frame by (auto simp: calm_def)

lemma analyze_fails:
  "acx_wf cx \<Longrightarrow> fails_ok (analyze_expr cx e rv)"
  "acx_wf cx \<Longrightarrow> fails_ok (analyze_call cx p args)"
  "acx_wf cx \<Longrightarrow> fails_ok (analyze_magic cx which args)"
  "acx_wf cx \<Longrightarrow> fails_ok (magic_write cx args)"
  "acx_wf cx \<Longrightarrow> fails_ok (magic_read cx which args)"
  "acx_wf cx \<Longrightarrow> fails_ok (call_args cx pty i args ids)"
proof (induction cx e rv and cx p args and cx which args and cx args and cx which args and cx pty i args ids
    rule: analyze_expr_analyze_call_analyze_magic_magic_write_magic_read_call_args.induct)
  case (1 cx name args rv)
  then show ?case by (simp add: analyze_expr.simps)
next
  case (2 cx left op right rv)
  have "fails_ok (analyze_expr cx1 right True)" if "analyze_expr cx left True = Inr (l, cx1)" for l cx1
    using 2(2) [OF that HOL.refl] analyze_wf(1) [OF 2(3) that] by simp
  with 2(1,3) show ?case by (auto simp: analyze_expr.simps)
next
  case (3 cx e rv)
  then show ?case by (auto simp: analyze_expr.simps type_of_path_fails split: stab_resolved_type.splits)
next
  case (4 cx path e rv)
  have "fails_ok (analyze_expr cx1 e True)"
    if "type_of_path cx path False = Inr (pty, cx1)" "STAB_TYPE (acx_st cx1) (re_type pty) = Inr t"
      "st_ty t = R_ARRAY lo up elt" for pty cx1 t lo up elt
    using 4(1) [OF that(1) HOL.refl that(2,3)] type_of_path_wf [OF 4(2) that(1)] by simp
  with 4(2) show ?case by (auto simp: analyze_expr.simps type_of_path_fails split: stab_resolved_type.splits)
next
  case (5 cx lit rv)
  then show ?case by (simp add: analyze_expr.simps split: prod.splits)
next
  case (6 cx path rv)
  then show ?case by (simp add: analyze_expr.simps type_of_path_fails)
next
  case (7 cx op e rv)
  then show ?case by (auto simp: analyze_expr.simps)
next
  case (8 cx e rv)
  then show ?case by (simp add: analyze_expr.simps)
next
  case (9 cx p args)
  note wf = acx_wfD(1) [OF 9(3)]
  from 9 show ?case
    by (cases "length p = 1") (auto simp: analyze_call.simps Let_def wf split: prod.splits)
next
  case (10 cx which args)
  then show ?case by (auto simp: analyze_magic.simps)
next
  case (12 cx e es)
  have "fails_ok (magic_write (reg_takeitback (emit (io_call (r_name (re_reg r)) callit) cx1) (re_reg r)) es)"
    if "analyze_expr cx e True = Inr (r, cx1)" "io_routine ''write'' (re_type r) = Inr callit" for r cx1 callit
    using 12(2) [OF that(1) HOL.refl that(2)] analyze_wf(1) [OF 12(3) that(1)] by simp
  with 12(1,3) show ?case by (auto simp: magic_write.simps)
next
  case (14 cx which e es)
  have "fails_ok (magic_read (reg_takeitback (emit (io_call (r_name (re_reg r)) callit
          @ (if which = MAGIC_READLN then [Call ''read_newline@''] else [])) cx1) (re_reg r)) which es)"
    if "is_lvalue e" "analyze_expr cx e False = Inr (r, cx1)" "io_routine ''read'' (re_type r) = Inr callit" for r cx1 callit
    using 14(2) [OF _ that(2) HOL.refl that(3)] that(1) analyze_wf(1) [OF 14(3) that(2)] by simp
  with 14(1,3) show ?case by (auto simp: magic_read.simps)
next
  case (15 cx pty i e es ft fts)
  have "fails_ok (stab_types_eq (acx_st cx1) (re_type et) (sv_type v))"
    "stab_types_eq (acx_st cx1) (re_type et) (sv_type v) = Inr same \<Longrightarrow>
       (if same then Inr [] else arg_mismatch (acx_st cx1) pty i (sv_type v) (re_type et)) = Inr msg \<Longrightarrow>
       fails_ok (call_args (emit [Op1 ''push'' (Reg (r_name (re_reg et)))] (diag msg cx1)) pty (Suc i) es fts)"
    if e: "analyze_expr cx e True = Inr (et, cx1)" and v: "STAB_VAR (acx_st cx1) ft = Inr v" for et cx1 v same msg
    using 15(2) [OF e HOL.refl v] analyze_wf(1) [OF 15(3) e] by (simp_all add: acx_wfD(1))
  with 15(1,3) show ?case by (auto simp: call_args.simps)
qed (simp_all)

section \<open>Statements\<close>

lemma enter_fails: "acx_wf cx \<Longrightarrow> fails_ok (enter cx)"
  using stab_enter_wf [OF acx_wfD(1), of cx] by (auto simp: enter_def)

lemma leave_fails: "fails_ok (leave cx)"
  by (simp add: leave_def stab_leave_def chain_pop_def)

lemma enter_wf: "acx_wf cx \<Longrightarrow> enter cx = Inr cx1 \<Longrightarrow> acx_wf cx1"
  using stab_enter_wf [OF acx_wfD(1), of cx] by (auto simp: acx_wf_def display_ok_def elim!: enterE)

lemma check_fails: "acx_wf cx \<Longrightarrow> fails_ok (check_assignability cx e)"
proof (induction cx e rule: check_assignability.induct)
  case (1 cx e)
  then show ?case
    by (auto simp: check_assignability.simps check_root_def acx_wfD(1) split: ast_expr.splits)
qed

lemma stmt_wf:
  assumes "acx_wf cx"
  shows "analyze_stmt cx s = Inr cx1 \<Longrightarrow> acx_wf cx1" "check_assignability cx e = Inr cx1 \<Longrightarrow> acx_wf cx1"
  using assms calm.analyze_stmt_frame(1) calm.check_assignability_frame by (auto simp: calm_def)

lemma analyze_stmt_fails:
  "acx_wf cx \<Longrightarrow> fails_ok (analyze_stmt cx s)"
  "acx_wf cx \<Longrightarrow> fails_ok (analyze_stmts cx ss)"
proof (induction s and ss arbitrary: cx and cx rule: stmt_induct)
  case (assign l e)
  note wf = analyze_wf(1) stmt_wf(2)
  have "fails_ok (check_assignability cx1 l)"
    "check_assignability cx1 l = Inr cx2 \<Longrightarrow> fails_ok (analyze_expr cx2 e True)"
    "check_assignability cx1 l = Inr cx2 \<Longrightarrow> analyze_expr cx2 e True = Inr (rty, cx3) \<Longrightarrow> stab_wf (acx_st cx3)"
    if "analyze_expr cx l False = Inr (lty, cx1)" for lty cx1 cx2 rty cx3
    using wf(1) [OF assign that] wf(2) [of cx1 l cx2] wf(1) [of cx2 e True rty cx3]
    by (simp_all add: check_fails analyze_fails acx_wfD(1))
  then show ?case using assign by (auto simp: analyze_stmt.simps Let_def analyze_fails)
next
  case (loop i start stop body)
  have rest: "fails_ok (analyze_expr cx1 stop True)"
    "analyze_expr cx1 stop True = Inr (ety, cx2) \<Longrightarrow> fails_ok (type_of_path cx2 p False)"
    "analyze_expr cx1 stop True = Inr (ety, cx2) \<Longrightarrow> type_of_path cx2 p False = Inr (ity, cx3) \<Longrightarrow> fails_ok (enter cx3)"
    "analyze_expr cx1 stop True = Inr (ety, cx2) \<Longrightarrow> type_of_path cx2 p False = Inr (ity, cx3) \<Longrightarrow>
      enter cx3 = Inr cx4 \<Longrightarrow> acx_wf cx4"
    if "analyze_expr cx start True = Inr (sty, cx1)" for sty cx1 ety cx2 ity cx3 cx4 p
    using analyze_wf(1) [OF loop(2) that] analyze_wf(1) [of cx1 stop True ety cx2] type_of_path_wf [of cx2 p False ity cx3]
      enter_wf [of cx3 cx4] by (simp_all add: analyze_fails type_of_path_fails enter_fails)
  from loop show ?case
    by (auto simp: analyze_stmt.simps Let_def fresh_labels_def analyze_fails leave_fails rest)
next
  case (ite c th el)
  have "acx_wf cx1" if "analyze_expr cx c True = Inr (cty, cx1)" for cty cx1
    by (rule analyze_wf(1) [OF ite(3) that])
  with ite show ?case
    by (auto simp: analyze_stmt.simps Let_def fresh_labels_def analyze_fails dest: stmt_wf(1) [rotated])
next
  case (proc p args)
  then show ?case by (auto simp: analyze_stmt.simps analyze_fails)
next
  case (wdo c body)
  then show ?case
    by (auto simp: analyze_stmt.simps Let_def fresh_labels_def analyze_fails dest: analyze_wf(1) [rotated])
next
  case (cons s ss)
  then show ?case by (auto dest: stmt_wf(1))
qed auto

section \<open>Subprograms and programs\<close>

lemma add_types_fails: "acx_wf cx \<Longrightarrow> chain (acx_st cx) \<noteq> [] \<Longrightarrow> fails_ok (add_types cx ts)"
proof (induction ts arbitrary: cx)
  case (Cons t ts)
  note d = declare_fails(3) [OF acx_wfD(1) [OF Cons.prems(1)] Cons.prems(2)]
  have "fails_ok (add_types (cx\<lparr>acx_st := st\<rparr>) ts)" if "stab_add_type (acx_st cx) (td_name t) (td_type t) = Inr st" for st
  proof -
    note e = stab_add_type_ext_wf(1) [OF acx_wfD(1) [OF Cons.prems(1)] Cons.prems(2) that]
    show ?thesis
      by (rule Cons.IH) (use insideD(2,5) [OF inside_ext [OF Cons.prems(1) e]] Cons.prems(2) in auto)
  qed
  with d show ?case by auto
qed simp

lemma add_decls_fails: "acx_wf cx \<Longrightarrow> chain (acx_st cx) \<noteq> [] \<Longrightarrow> fails_ok (add_decls cx ds off b)"
proof (induction ds arbitrary: cx off)
  case (Cons d ds)
  note f = declare_fails(1) [OF acx_wfD(1) [OF Cons.prems(1)] Cons.prems(2)]
  have "fails_ok (add_decls (cx\<lparr>acx_st := st\<rparr>) ds o2 b)"
    if "stab_add_decls (acx_st cx) d (Some off) b = Inr (o1, st)" for o1 o2 st
  proof -
    note e = grows_ext_wf [OF stab_add_decls_grows [OF acx_wfD(1) [OF Cons.prems(1)] Cons.prems(2) that]]
    show ?thesis
      by (rule Cons.IH) (use insideD(2,5) [OF inside_ext [OF Cons.prems(1) e]] Cons.prems(2) in auto)
  qed
  with f show ?case by auto
qed simp

lemma import_fails:
  assumes "acx_wf cx" "chain (acx_st cx) \<noteq> []"
  shows "fails_ok (register_input cx)" "fails_ok (register_output cx)"
proof -
  have m: "fails_ok (stab_add_magic_func st w)"
    if "stab_wf st" "chain st \<noteq> []" "w \<in> {MAGIC_READ, MAGIC_READLN, MAGIC_WRITE, MAGIC_WRITELN}" for st w
    using stab_add_magic_func_wf [OF that] by auto
  have n: "stab_wf st1 \<and> chain st1 \<noteq> []"
    if "stab_add_magic_func (acx_st cx) w = Inr st1" "w \<in> {MAGIC_READ, MAGIC_READLN, MAGIC_WRITE, MAGIC_WRITELN}" for st1 w
    using stab_add_magic_func_wf [OF acx_wfD(1) [OF assms(1)] assms(2) that(2)] that(1) ext_wfD(1,3) assms(2) by fastforce
  show "fails_ok (register_input cx)" "fails_ok (register_output cx)"
    using m n acx_wfD(1) [OF assms(1)] assms(2) by (auto simp: register_input_def register_output_def)
qed

lemma do_imports_fails: "acx_wf cx \<Longrightarrow> chain (acx_st cx) \<noteq> [] \<Longrightarrow> fails_ok (do_imports cx ns)"
proof (induction ns arbitrary: cx)
  case (Cons n ns)
  have "fails_ok (do_imports cx1 ns)" if "do_imports cx [n] = Inr cx1" for cx1
    by (rule Cons.IH) (use insideD(2,5) [OF do_imports_inside [OF Cons.prems that]] Cons.prems(2) in auto)
  with import_fails [OF Cons.prems] show ?case by (auto split: if_splits)
qed simp

text \<open>A step that returns a pair, and what is left of a context in which declarations go on.\<close>

lemma fails_bind:
  "fails_ok m \<Longrightarrow> (\<And>x. m = Inr x \<Longrightarrow> fails_ok (f x)) \<Longrightarrow> fails_ok (bindr m f)"
  "fails_ok n \<Longrightarrow> (\<And>a b. n = Inr (a, b) \<Longrightarrow> fails_ok (g a b)) \<Longrightarrow> fails_ok (bindr n (\<lambda>(a, b). g a b))"
  "fails_ok k \<Longrightarrow> (\<And>a b c. k = Inr (a, b, c) \<Longrightarrow> fails_ok (h a b c)) \<Longrightarrow> fails_ok (bindr k (\<lambda>(a, b, c). h a b c))"
  by auto

definition ready :: "acx \<Rightarrow> bool" where
  "ready cx \<longleftrightarrow> acx_wf cx \<and> chain (acx_st cx) \<noteq> []"

lemma ready_inside: "ready cx \<Longrightarrow> inside cx cx1 \<Longrightarrow> ready cx1"
  using insideD(2,5) [of cx cx1] by (simp add: ready_def)

lemma ready_fails:
  assumes "ready cx"
  shows "fails_ok (add_types cx ts)" "fails_ok (add_decls cx ds off b)" "fails_ok (do_imports cx ns)"
    "fails_ok (analyze_stmt cx s)" "fails_ok (stab_add_func (acx_st cx) n sig)"
    "fails_ok (stab_resolve_type (acx_st cx) n oty)"
  using assms add_types_fails add_decls_fails do_imports_fails analyze_stmt_fails(1)
    declare_fails(2) [OF acx_wfD(1)] resolve_fails(1) [OF acx_wfD(1)] by (simp_all add: ready_def)

lemma ready_next:
  assumes "ready cx"
  shows "add_types cx ts = Inr cx1 \<Longrightarrow> ready cx1" "add_decls cx ds off b = Inr (off', cx1) \<Longrightarrow> ready cx1"
    "do_imports cx ns = Inr cx1 \<Longrightarrow> ready cx1" "analyze_stmt cx s = Inr cx1 \<Longrightarrow> ready cx1"
    "subprog_decls cx name tys args locals retty = Inr (retslot, off'', cx1) \<Longrightarrow> ready cx1"
    "analyze_subprogs cx subs = Inr cx1 \<Longrightarrow> ready cx1"
  using assms ready_inside [OF assms] add_types_inside add_decls_inside do_imports_inside inside_stmt
    subprog_decls_inside(1) analyze_subprog_outside(2) unfolding ready_def by metis+

lemma subprog_decls_fails:
  assumes "ready cx"
  shows "fails_ok (subprog_decls cx name tys args locals retty)"
proof -
  have n2: "ready cx2" if "add_types cx tys = Inr cx1" "add_decls cx1 ds off b = Inr (o2, cx2)" for cx1 ds off b o2 cx2
    by (rule ready_next(2) [OF ready_next(1) [OF assms that(1)] that(2)])
  have n3: "ready cx3" if "add_types cx tys = Inr cx1" "add_decls cx1 ds off b = Inr (o2, cx2)"
    "add_decls cx2 ds' off' b' = Inr (o3, cx3)" for cx1 ds off b o2 cx2 ds' off' b' o3 cx3
    by (rule ready_next(2) [OF n2 [OF that(1,2)] that(3)])
  show ?thesis
    unfolding subprog_decls_def
  proof (intro fails_bind(2) fails_bind(1) ready_fails)
    fix cx1 o2 cx2 o3 cx3 r st
    assume r: "add_types cx tys = Inr cx1" "add_decls cx1 args (8 * (int (length args) + 1)) False = Inr (o2, cx2)"
      "add_decls cx2 locals 0 True = Inr (o3, cx3)" "stab_resolve_type (acx_st cx3) ''<retslot>'' retty = Inr (r, st)"
    from n3 [OF r(1-3)] resolve_next(1) [OF _ _ r(4)] show "fails_ok (stab_add_var st name r (Some o3) True)"
      by (simp add: ready_def acx_wfD(1))
  qed (auto intro: assms ready_next(1) n2 n3)
qed

lemma display_fails [simp]:
  "fails_ok (save_display cx es)" "fails_ok (restore_display cx r ids)" "fails_ok (init_display cx es)"
proof -
  show "fails_ok (save_display cx es)" by (induction cx es rule: save_display.induct) auto
  show "fails_ok (restore_display cx r ids)" by (induction cx r ids rule: restore_display.induct) auto
  show "fails_ok (init_display cx es)"
    by (induction cx es rule: init_display.induct) (auto simp: Let_def split: prod.splits)
qed

lemma around_fails [simp]:
  "fails_ok (subprog_prologue cx off)" "fails_ok (subprog_epilogue cx retslot off captured)"
  by (auto simp: subprog_prologue_def subprog_epilogue_def copy_result_def Let_def leave_fails split: prod.splits)

lemma analyze_subprog_fails:
  "acx_wf cx \<Longrightarrow> fails_ok (analyze_subprog cx d)"
  "ready cx \<Longrightarrow> fails_ok (analyze_subprogs cx ds)"
proof (induction cx d and cx ds rule: analyze_subprog_analyze_subprogs.induct)
  case (1 old head name locals subprogs tys body)
  have enter: "fails_ok (subprog_enter old name k)" for k
    using stab_enter_wf [OF acx_wfD(1) [OF 1(2)]] by (auto simp: subprog_enter_def enter_def)
  have entered: "ready cx1" if "subprog_enter old name k = Inr cx1" for k cx1
    using subprog_enter_wf(1,2) [OF 1(2) that] by (simp add: ready_def)
  have printed: "ready cx2" if "ready cx1" "subprog_prologue cx1 off = Inr (captured, cx2)" for cx1 off captured cx2
    using that inside_printed [OF _ prologue_emits [OF that(2)]] ready_inside unfolding ready_def by blast
  have declared: "ready cx2" if "subprog_enter old name k = Inr cx1"
    "subprog_decls cx1 name tys args locals retty = Inr (retslot, off, cx2)" for k args retty cx1 retslot off cx2
    by (rule ready_next(5) [OF entered [OF that(1)] that(2)])
  show ?case
    unfolding analyze_subprog.simps
  proof (intro fails_bind(3) fails_bind(2) fails_bind(1) enter)
    fix k args retty cx1 retslot off cx2
    assume r: "head_func head = Inr (k, args, retty)" "subprog_enter old name k = Inr cx1"
      "subprog_decls cx1 name tys args locals retty = Inr (retslot, off, cx2)"
    show "fails_ok (analyze_subprogs cx2 subprogs)"
      by (rule 1(1) [OF r(1) HOL.refl HOL.refl r(2,3) HOL.refl HOL.refl declared [OF r(2,3)]])
    fix cx3 captured cx4
    assume s: "analyze_subprogs cx2 subprogs = Inr cx3" "subprog_prologue cx3 off = Inr (captured, cx4)"
    show "fails_ok (analyze_stmt cx4 body)"
      by (rule ready_fails(4) [OF printed [OF ready_next(6) [OF declared [OF r(2,3)] s(1)] s(2)]])
  qed (auto intro: subprog_decls_fails entered)
next
  case (3 cx d ds)
  have "fails_ok (analyze_subprog (cx\<lparr>acx_st := st\<rparr>) d) \<and>
      (\<forall>cx1. analyze_subprog (cx\<lparr>acx_st := st\<rparr>) d = Inr cx1 \<longrightarrow> fails_ok (analyze_subprogs cx1 ds))"
    if r: "stab_add_func (acx_st cx) (sd_name d) (sd_head d) = Inr st" for st
  proof -
    from 3(3) have wf: "acx_wf cx" "chain (acx_st cx) \<noteq> []" by (simp_all add: ready_def)
    have w: "ready (cx\<lparr>acx_st := st\<rparr>)"
      by (rule ready_inside [OF 3(3) inside_ext [OF wf(1) stab_add_func_ext_wf [OF acx_wfD(1) [OF wf(1)] wf(2) r]]])
    then have w': "acx_wf (cx\<lparr>acx_st := st\<rparr>)" by (simp add: ready_def)
    have "fails_ok (analyze_subprogs cx1 ds)" if s: "analyze_subprog (cx\<lparr>acx_st := st\<rparr>) d = Inr cx1" for cx1
      by (rule 3(2) [OF r s]) (rule ready_inside [OF w outside_inside [OF analyze_subprog_outside(1) [OF w' s]]])
    with 3(1) [OF r w'] show ?thesis by blast
  qed
  with ready_fails(5) [OF 3(3)] show ?case by auto
qed simp

lemma analyze_program_fails: "fails_ok (analyze prog)"
proof -
  obtain st where st: "stab_new = Inr st" "stab_wf st" "pv_list (vars st) = []"
    using stab_new_wf by blast
  have wf: "acx_wf (initial_acx st)" by (rule initial_acx_wf [OF st(2,3)])
  have entered: "ready cx1" if "enter (initial_acx st) = Inr cx1" for cx1
    using that enter_wf [OF wf that] stab_enter_wf [OF st(2)] by (auto simp: ready_def initial_acx_def elim!: enterE)
  have typed: "ready cx3" if "enter (initial_acx st) = Inr cx1" "do_imports cx1 ns = Inr cx2" "add_types cx2 ts = Inr cx3"
    for cx1 ns cx2 ts cx3
    by (rule ready_next(1) [OF ready_next(3) [OF entered [OF that(1)] that(2)] that(3)])
  have "fails_ok (analyze_globals (initial_acx st) prog)"
    unfolding analyze_globals_def
    by (intro fails_bind(1) enter_fails wf ready_fails) (auto intro: entered ready_next(3) typed)
  moreover have "fails_ok (analyze_subprogs cx1 subs)" "analyze_subprogs cx1 subs = Inr cx2 \<Longrightarrow> fails_ok (analyze_main cx2 off body)"
    if g: "analyze_globals (initial_acx st) prog = Inr (off, cx1)" for off cx1 cx2 subs body
  proof -
    have w: "ready cx1" using globals_wf(1,2) [OF st(1) g] by (simp add: ready_def)
    then show "fails_ok (analyze_subprogs cx1 subs)" by (rule analyze_subprog_fails)
    assume "analyze_subprogs cx1 subs = Inr cx2"
    from ready_next(6) [OF w this] have w2: "acx_wf cx2" by (simp add: ready_def)
    have "acx_wf cx3" if "init_display (emit code cx2) es = Inr cx3" for cx3 code es
      using insideD(2) [OF init_display_inside [OF _ that]] w2 by simp
    then show "fails_ok (analyze_main cx2 off body)"
      by (auto simp: analyze_main_def Let_def analyze_stmt_fails(1))
  qed
  ultimately show ?thesis unfolding analyze_def st(1) by auto
qed


end
