(* ===== verification/Control.thy ===== *)
theory Control
  imports Generation
begin

text \<open>
  Whole statements on the machine: jumps, labels and flags are added to the instructions of
  \<open>Machine\<close>, the routines of rt.s are calls, and the statements of the source get a meaning of
  their own: assignments to local variables, IF, WHILE, sequences, \<open>write\<close> and \<open>writeln\<close>.
\<close>

section \<open>Flags, labels and jumps\<close>

text \<open>
  A state is the index of the next instruction, the operands of the last comparison as far as the
  flags still hold its outcome, and the machine. Instructions other than \<open>cmp\<close>, \<open>setcc\<close>,
  \<open>movzx\<close> and jumps are taken to spoil the flags.
\<close>

type_synonym cpu = "nat \<times> (64 word \<times> 64 word) option \<times> mach"

definition cc_of :: "string \<Rightarrow> (64 word \<Rightarrow> 64 word \<Rightarrow> bool) option" where
  "cc_of cc = (if cc = ''e'' then Some (\<lambda>a b. a = b) else if cc = ''ne'' then Some (\<lambda>a b. a \<noteq> b)
     else if cc = ''l'' then Some (\<lambda>a b. a <s b) else if cc = ''g'' then Some (\<lambda>a b. b <s a)
     else if cc = ''le'' then Some (\<lambda>a b. a \<le>s b) else if cc = ''ge'' then Some (\<lambda>a b. b \<le>s a) else None)"

text \<open>The registers whose low byte has a name of two letters ending in \<open>l\<close>.\<close>

definition byte_of :: "string \<Rightarrow> string option" where
  "byte_of b = (if b = ''al'' then Some ''rax'' else if b = ''bl'' then Some ''rbx''
     else if b = ''cl'' then Some ''rcx'' else if b = ''dl'' then Some ''rdx'' else None)"

definition set_byte :: "string \<Rightarrow> bool \<Rightarrow> mach \<Rightarrow> mach" where
  "set_byte r b m = set_reg r (or (and (regs m r) (not 255)) (of_bool b)) m"

fun target :: "asm list \<Rightarrow> int \<Rightarrow> nat option" where
  "target [] l = None"
| "target (i # is) l = (if i = Label l then Some 0 else map_option Suc (target is l))"

text \<open>
  The routines of rt.s. \<open>write_integer@\<close> saves every register it uses around \<open>printf\<close>, so that only
  the memory below the stack pointer changes; \<open>write_newline@\<close> does not save \<open>rcx\<close> and \<open>r11\<close>, which the
  system call overwrites. What is left in these places is up to \<open>J\<close>. The other routines that rt.s
  declares have no code there.
\<close>

definition rt_call :: "(mach \<Rightarrow> mach) \<Rightarrow> string \<Rightarrow> mach \<Rightarrow> mach option" where
  "rt_call J f m =
     (let m' = m\<lparr>mem := (\<lambda>a. if a < regs m ''rsp'' then mem (J m) a else mem m a)\<rparr> in
      if f = ''write_integer@'' then Some (m'\<lparr>written := written m @ dec (sint (mem m (regs m ''rsp'')))\<rparr>)
      else if f = ''write_newline@'' then
        Some (set_reg ''rcx'' (regs (J m) ''rcx'') (set_reg ''r11'' (regs (J m) ''r11'') (m'\<lparr>written := written m @ nl\<rparr>)))
      else None)"

fun control :: "(mach \<Rightarrow> mach) \<Rightarrow> asm list \<Rightarrow> asm \<Rightarrow> cpu \<Rightarrow> cpu option" where
  "control J P (Label l) (pc, fl, m) = Some (Suc pc, fl, m)"
| "control J P (Jump j l) (pc, fl, m) =
     Option.bind (if j = ''jmp'' then Some True else case j of [] \<Rightarrow> None
         | c # cc \<Rightarrow> if c = CHR ''j'' then Option.bind (cc_of cc) (\<lambda>f. map_option (case_prod f) fl) else None) (\<lambda>b.
     if b then map_option (\<lambda>t. (t, fl, m)) (target P l) else Some (Suc pc, fl, m))"
| "control J P (Op2 op (Reg d) s) (pc, fl, m) =
     (if op = ''cmp'' then map_option (\<lambda>v. (Suc pc, Some (regs m d, v), m)) (operand m s)
      else if op = ''movzx'' then (case s of
          Reg b \<Rightarrow> map_option (\<lambda>r. (Suc pc, fl, set_reg d (and (regs m r) 255) m)) (byte_of b)
        | _ \<Rightarrow> None)
      else map_option (\<lambda>m. (Suc pc, None, m)) (exec1 (Op2 op (Reg d) s) m))"
| "control J P (Op1 op (Reg b)) (pc, fl, m) =
     (if take 3 op = ''set'' then
        Option.bind (cc_of (drop 3 op)) (\<lambda>f. Option.bind fl (\<lambda>(x, y).
        map_option (\<lambda>r. (Suc pc, fl, set_byte r (f x y) m)) (byte_of b)))
      else map_option (\<lambda>m. (Suc pc, None, m)) (exec1 (Op1 op (Reg b)) m))"
| "control J P (Call f) (pc, fl, m) = map_option (\<lambda>m. (Suc pc, None, m)) (rt_call J f m)"
| "control J P i (pc, fl, m) = map_option (\<lambda>m. (Suc pc, None, m)) (exec1 i m)"

text \<open>A step, and \<open>n\<close> steps; a state behind the last instruction has none.\<close>

definition cstep :: "(mach \<Rightarrow> mach) \<Rightarrow> asm list \<Rightarrow> cpu \<Rightarrow> cpu option" where
  "cstep J P c = (if fst c < length P then control J P (P ! fst c) c else None)"

fun nsteps :: "(mach \<Rightarrow> mach) \<Rightarrow> asm list \<Rightarrow> nat \<Rightarrow> cpu \<Rightarrow> cpu option" where
  "nsteps J P 0 c = Some c"
| "nsteps J P (Suc n) c = Option.bind (cstep J P c) (nsteps J P n)"

lemma nsteps_add: "nsteps J P (j + k) c = Option.bind (nsteps J P j c) (nsteps J P k)"
  by (induction j arbitrary: c) (auto split: Option.bind_splits)

lemma nsteps_trans: "nsteps J P j c = Some c' \<Longrightarrow> nsteps J P k c' = d \<Longrightarrow> nsteps J P (j + k) c = d"
  by (simp add: nsteps_add)

lemma cstep_at: "P = pre @ i # post \<Longrightarrow> cstep J P (length pre, r) = control J P i (length pre, r)"
  by (simp add: cstep_def)

lemma nsteps_1: "cstep J P c = Some c' \<Longrightarrow> nsteps J P 1 c = Some c'"
  by simp

lemma control_exec1: "exec1 i m = Some m' \<Longrightarrow> control J P i (pc, fl, m) = Some (Suc pc, None, m')"
  by (induction i m rule: exec1.induct) (auto simp: arith_op_def split: if_splits option.splits)

lemma nsteps_exec:
  "exec code m = Some m' \<Longrightarrow> P = pre @ code @ post \<Longrightarrow>
   \<exists>fl'. nsteps J P (length code) (length pre, fl, m) = Some (length pre + length code, fl', m')"
proof (induction code arbitrary: pre fl m)
  case (Cons i code)
  from Cons.prems(1) obtain m1 where m1: "exec1 i m = Some m1" "exec code m1 = Some m'"
    by (auto split: Option.bind_splits)
  have s: "cstep J P (length pre, fl, m) = Some (Suc (length pre), None, m1)"
    using control_exec1 [OF m1(1)] Cons.prems(2) by (subst cstep_at [of P pre i "code @ post"]) simp_all
  have "P = (pre @ [i]) @ code @ post" using Cons.prems(2) by simp
  from Cons.IH [OF m1(2) this, of None] s show ?case by simp
qed simp

lemma target_at: "distinct (labels_of P) \<Longrightarrow> P = pre @ Label l # post \<Longrightarrow> target P l = Some (length pre)"
proof (induction pre arbitrary: P)
  case (Cons i pre)
  then have "i \<noteq> Label l" by (cases i) auto
  moreover have "distinct (labels_of (pre @ Label l # post))" using Cons.prems by (cases i) auto
  ultimately show ?case using Cons.IH [of "pre @ Label l # post"] Cons.prems(2) by simp
qed simp

lemma jump_at:
  assumes "distinct (labels_of P)" and "P = pre @ Label l # post" and "P = p @ Jump ''jmp'' l # q"
  shows "cstep J P (length p, fl, m) = Some (length pre, fl, m)"
  using cstep_at [OF assms(3)] target_at [OF assms(1,2)] by simp

section \<open>What statements mean\<close>

definition rel_op :: "token \<Rightarrow> 64 word \<Rightarrow> 64 word \<Rightarrow> bool" where
  "rel_op op = (if op = Ch CHR ''='' then (=) else if op = T_NEQ then (\<noteq>)
     else if op = Ch CHR ''<'' then (\<lambda>a b. a <s b) else if op = Ch CHR ''>'' then (\<lambda>a b. b <s a)
     else if op = T_LE then (\<lambda>a b. a \<le>s b) else (\<lambda>a b. b \<le>s a))"

fun test :: "ast_expr \<Rightarrow> bool" where
  "test (EXPR_BIN l op r) = (is_relop op \<and> arith l \<and> arith r)"
| "test _ = False"

fun holds :: "(string \<Rightarrow> 64 word) \<Rightarrow> ast_expr \<Rightarrow> bool" where
  "holds env (EXPR_BIN l op r) = rel_op op (eval env l) (eval env r)"
| "holds env _ = False"

text \<open>The statements considered, their variables and the registers they need.\<close>

definition writes :: "ast_path \<Rightarrow> bool" where
  "writes p \<longleftrightarrow> p = [''write''] \<or> p = [''writeln'']"

fun simple :: "ast_stmt option \<Rightarrow> bool" and simples :: "ast_stmt option list \<Rightarrow> bool" where
  "simple None = True"
| "simple (Some (STMT_ASSIGN l e)) = (case l of EXPR_PATH p \<Rightarrow> length p = 1 \<and> arith e | _ \<Rightarrow> False)"
| "simple (Some (STMT_ITE c th el)) = (test c \<and> simple th \<and> simple el)"
| "simple (Some (STMT_STMTS ss)) = simples ss"
| "simple (Some (STMT_WDO c body)) = (test c \<and> simple body)"
| "simple (Some (STMT_FOR i start stop body)) = False"
| "simple (Some (STMT_PROC p args)) = (writes p \<and> list_all arith args)"
| "simples [] = True"
| "simples (s # ss) = (simple s \<and> simples ss)"

fun stmt_vars :: "ast_stmt option \<Rightarrow> string set" and stmts_vars :: "ast_stmt option list \<Rightarrow> string set" where
  "stmt_vars (Some (STMT_ASSIGN l e)) = vars_of l \<union> vars_of e"
| "stmt_vars (Some (STMT_ITE c th el)) = vars_of c \<union> stmt_vars th \<union> stmt_vars el"
| "stmt_vars (Some (STMT_STMTS ss)) = stmts_vars ss"
| "stmt_vars (Some (STMT_WDO c body)) = vars_of c \<union> stmt_vars body"
| "stmt_vars (Some (STMT_PROC p args)) = \<Union> (set (map vars_of args))"
| "stmt_vars _ = {}"
| "stmts_vars [] = {}"
| "stmts_vars (s # ss) = stmt_vars s \<union> stmts_vars ss"

fun stmt_regs :: "ast_stmt option \<Rightarrow> nat" and stmts_regs :: "ast_stmt option list \<Rightarrow> nat" where
  "stmt_regs (Some (STMT_ASSIGN l e)) = Suc (regs_needed e)"
| "stmt_regs (Some (STMT_ITE c th el)) = max (regs_needed c) (max (stmt_regs th) (stmt_regs el))"
| "stmt_regs (Some (STMT_STMTS ss)) = stmts_regs ss"
| "stmt_regs (Some (STMT_WDO c body)) = max (regs_needed c) (stmt_regs body)"
| "stmt_regs (Some (STMT_PROC p args)) = foldr (\<lambda>e. max (regs_needed e)) args 0"
| "stmt_regs _ = 0"
| "stmts_regs [] = 0"
| "stmts_regs (s # ss) = max (stmt_regs s) (stmts_regs ss)"

text \<open>The calls in a statement: the procedure's name and the arguments.\<close>

fun stmt_calls :: "ast_stmt option \<Rightarrow> (ast_path \<times> ast_expr list) set"
  and stmts_calls :: "ast_stmt option list \<Rightarrow> (ast_path \<times> ast_expr list) set" where
  "stmt_calls (Some (STMT_ITE c th el)) = stmt_calls th \<union> stmt_calls el"
| "stmt_calls (Some (STMT_STMTS ss)) = stmts_calls ss"
| "stmt_calls (Some (STMT_WDO c body)) = stmt_calls body"
| "stmt_calls (Some (STMT_PROC p args)) = {(p, args)}"
| "stmt_calls _ = {}"
| "stmts_calls [] = {}"
| "stmts_calls (s # ss) = stmt_calls s \<union> stmts_calls ss"

text \<open>
  A statement acts on the values of the variables and the text written so far. The fuel \<open>n\<close> bounds
  the rounds of the loops; a statement that no fuel is enough for does not end.
\<close>

type_synonym state = "(string \<Rightarrow> 64 word) \<times> string"

definition write_text :: "(string \<Rightarrow> 64 word) \<Rightarrow> ast_expr list \<Rightarrow> string" where
  "write_text env args = concat (map (\<lambda>e. dec (sint (eval env e))) args)"

definition newline_of :: "ast_path \<Rightarrow> string" where
  "newline_of p = (if p = [''writeln''] then nl else [])"

fun srun :: "nat \<Rightarrow> ast_stmt option \<Rightarrow> state \<Rightarrow> state option"
  and sruns :: "nat \<Rightarrow> ast_stmt option list \<Rightarrow> state \<Rightarrow> state option" where
  "srun n None s = Some s"
| "srun n (Some (STMT_ASSIGN l e)) s =
     (case l of EXPR_PATH p \<Rightarrow> Some ((fst s)(hd p := eval (fst s) e), snd s) | _ \<Rightarrow> None)"
| "srun n (Some (STMT_ITE c th el)) s = srun n (if holds (fst s) c then th else el) s"
| "srun n (Some (STMT_STMTS ss)) s = sruns n ss s"
| "srun 0 (Some (STMT_WDO c body)) s = None"
| "srun (Suc n) (Some (STMT_WDO c body)) s =
     (if holds (fst s) c then Option.bind (srun n body s) (srun n (Some (STMT_WDO c body))) else Some s)"
| "srun n (Some (STMT_FOR i start stop body)) s = None"
| "srun n (Some (STMT_PROC p args)) s =
     (if writes p then Some (fst s, snd s @ write_text (fst s) args @ newline_of p) else None)"
| "sruns n [] s = Some s"
| "sruns n (x # xs) s = Option.bind (srun n x s) (sruns n xs)"

section \<open>The code of a test\<close>

lemma result_register: "arith e \<Longrightarrow> analyze_expr cx e True = Inr (res, cx') \<Longrightarrow> re_reg res = fst (reg_gimme cx)"
proof (induction e arbitrary: cx res cx')
  case (EXPR_LIT s)
  then show ?case by (auto simp: analyze_expr.simps split: prod.splits)
next
  case (EXPR_PATH p)
  then show ?case by (auto simp: analyze_expr.simps elim: type_of_pathE)
next
  case (EXPR_BIN l op r)
  from EXPR_BIN.prems(1) have a: "arith l" by simp
  from EXPR_BIN.prems(2) obtain lty cx1 where "analyze_expr cx l True = Inr (lty, cx1)" "re_reg res = re_reg lty"
    by (rule analyze_binE) auto
  with EXPR_BIN.IH(1) [OF a] show ?case by simp
qed simp_all

lemma arith_not_test: "test c \<Longrightarrow> \<exists>l op r. c = EXPR_BIN l op r \<and> is_relop op \<and> arith l \<and> arith r"
  by (cases c) simp_all

lemma rel_code:
  assumes "is_relop op"
  shows "bin_code op ''rbx'' ''rcx'' = Inr [Op2 ''cmp'' (Reg ''rbx'') (Reg ''rcx''),
      Op1 (''set'' @ relop_cc op) (Reg ''cl''), Op2 ''movzx'' (Reg ''rbx'') (Reg ''cl'')]"
    and "cc_of (relop_cc op) = Some (rel_op op)"
proof -
  show "bin_code op ''rbx'' ''rcx'' = Inr [Op2 ''cmp'' (Reg ''rbx'') (Reg ''rcx''),
      Op1 (''set'' @ relop_cc op) (Reg ''cl''), Op2 ''movzx'' (Reg ''rbx'') (Reg ''cl'')]"
    using assms by (simp add: bin_code_def low8_def)
  have "op \<in> {Ch CHR ''='', T_NEQ, Ch CHR ''<'', Ch CHR ''>'', T_LE, T_GE}"
    using assms by (cases op rule: is_relop.cases) auto
  then show "cc_of (relop_cc op) = Some (rel_op op)"
    by (elim insertE emptyE) (simp_all add: cc_of_def relop_cc_def rel_op_def)
qed

lemma byte_bit: "and (or (and w (not 255)) (of_bool b)) 255 = (of_bool b :: 64 word)"
proof (rule bit_word_eqI)
  fix n :: nat assume "n < LENGTH(64)"
  have f: "(255 :: 64 word) = mask 8" by (simp add: mask_eq_exp_minus_1)
  show "bit (and (or (and w (not 255)) (of_bool b)) 255) n = bit (of_bool b :: 64 word) n"
    by (auto simp: f bit_simps)
qed

lemma set_byte_simps:
  "and (regs (set_byte r b m) r) 255 = of_bool b" "mem (set_byte r b m) = mem m" "written (set_byte r b m) = written m"
  "r' \<noteq> r \<Longrightarrow> regs (set_byte r b m) r' = regs m r'"
proof -
  have "regs (set_byte r b m) r = or (and (regs m r) (not 255)) (of_bool b)"
    by (simp add: set_byte_def set_reg_def)
  then show "and (regs (set_byte r b m) r) 255 = of_bool b" by (simp only: byte_bit)
qed (simp_all add: set_byte_def set_reg_def)

lemma rel_steps:
  assumes "is_relop op"
    and P: "P = pre @ [Op2 ''cmp'' (Reg ''rbx'') (Reg ''rcx''), Op1 (''set'' @ relop_cc op) (Reg ''cl''),
        Op2 ''movzx'' (Reg ''rbx'') (Reg ''cl'')] @ post"
  shows "\<exists>fl' m'. nsteps J P 3 (length pre, fl, m) = Some (length pre + 3, fl', m') \<and> same_store m m'
    \<and> regs m' ''rbx'' = of_bool (rel_op op (regs m ''rbx'') (regs m ''rcx''))"
proof -
  let ?b = "rel_op op (regs m ''rbx'') (regs m ''rcx'')" and ?fl = "Some (regs m ''rbx'', regs m ''rcx'')"
  let ?m1 = "set_byte ''rcx'' ?b m"
  let ?c1 = "Op2 ''cmp'' (Reg ''rbx'') (Reg ''rcx'')" and ?c2 = "Op1 (''set'' @ relop_cc op) (Reg ''cl'')"
  let ?c3 = "Op2 ''movzx'' (Reg ''rbx'') (Reg ''cl'')"
  have "cstep J P (length pre, fl, m) = Some (Suc (length pre), ?fl, m)"
    using cstep_at [of P pre ?c1 "?c2 # ?c3 # post"] P by simp
  moreover have "cstep J P (Suc (length pre), ?fl, m) = Some (Suc (Suc (length pre)), ?fl, ?m1)"
    using cstep_at [of P "pre @ [?c1]" ?c2 "?c3 # post"] P rel_code(2) [OF assms(1)] by (simp add: byte_of_def)
  moreover have "cstep J P (Suc (Suc (length pre)), ?fl, ?m1) =
      Some (Suc (Suc (Suc (length pre))), ?fl, set_reg ''rbx'' (and (regs ?m1 ''rcx'') 255) ?m1)"
    using cstep_at [of P "pre @ [?c1, ?c2]" ?c3 post] P by (simp add: byte_of_def)
  ultimately have "nsteps J P 3 (length pre, fl, m) =
      Some (length pre + 3, ?fl, set_reg ''rbx'' (and (regs ?m1 ''rcx'') 255) ?m1)"
    by (simp add: numeral_3_eq_3)
  then show ?thesis by (simp add: set_reg_def set_byte_simps same_store_def)
qed

text \<open>
  Contexts in which no register is in use, as at the start of every statement outside a FOR. The
  code of a test then leaves 1 or 0 in \<open>rbx\<close>, its right operand being in \<open>rcx\<close>.
\<close>

definition at_rest :: "acx \<Rightarrow> bool" where
  "at_rest cx \<longleftrightarrow> acx_wf cx \<and> chain (acx_st cx) \<noteq> [] \<and> rs_used (acx_rs cx) = replicate NUM_REGS False"

lemma at_restD:
  assumes "at_rest cx"
  shows "acx_wf cx" "chain (acx_st cx) \<noteq> []" "rs_used (acx_rs cx) = replicate NUM_REGS False" "free_regs cx = 14"
  using assms by (simp_all add: at_rest_def free_regs_def NUM_REGS_def)

lemma first_registers:
  "rs_used (acx_rs cx) = replicate NUM_REGS False \<Longrightarrow> fst (reg_gimme cx) = \<lparr>r_name = ''rbx'', r_which = 0, r_need_restore = False\<rparr>"
  "rs_used (acx_rs cx) = (replicate NUM_REGS False)[0 := True] \<Longrightarrow>
     fst (reg_gimme cx) = \<lparr>r_name = ''rcx'', r_which = 1, r_need_restore = False\<rparr>"
  by (simp_all add: reg_gimme_def Let_def NUM_REGS_def REGS_def numeral_eq_Suc)

definition rbx :: reg where "rbx = \<lparr>r_name = ''rbx'', r_which = 0, r_need_restore = False\<rparr>"

lemma compile_test:
  assumes rest: "at_rest cx" and c: "test c" "regs_needed c \<le> 14" "\<forall>x \<in> vars_of c. local_names (acx_st cx) x"
    and r: "analyze_expr cx c True = Inr (res, cx')"
  shows "re_reg res = rbx \<and> acx_st cx' = acx_st cx
    \<and> acx_rs cx' = (acx_rs cx)\<lparr>rs_used := (replicate NUM_REGS False)[0 := True]\<rparr>
    \<and> (\<exists>code. acx_ofd cx' = acx_ofd cx @ code \<and> (\<forall>P pre post fl m env. P = pre @ code @ post \<longrightarrow>
        frame_holds (acx_st cx) m env (vars_of c) \<longrightarrow> (\<exists>k fl' m'.
          nsteps J P k (length pre, fl, m) = Some (length pre + length code, fl', m') \<and> same_store m m'
          \<and> regs m' ''rbx'' = of_bool (holds env c))))"
proof -
  note wf = at_restD [OF rest]
  from arith_not_test [OF c(1)] obtain l op r where e: "c = EXPR_BIN l op r" "is_relop op" "arith l" "arith r" by blast
  from r obtain lty cx1 rty cx2 code where
    l: "analyze_expr cx l True = Inr (lty, cx1)" and r: "analyze_expr cx1 r True = Inr (rty, cx2)"
    and code: "bin_code op (r_name (re_reg lty)) (r_name (re_reg rty)) = Inr code"
    and res: "re_reg res = re_reg lty" and cx': "cx' = reg_takeitback (emit code cx2) (re_reg rty)"
    unfolding e(1) by (rule analyze_binE) auto
  have need: "regs_needed l \<le> free_regs cx" "regs_needed r \<le> 13" using c(2) wf(4) e(1) by simp_all
  have vl: "\<forall>x \<in> vars_of l. local_names (acx_st cx) x" using c(3) e(1) by simp
  have i: "re_reg lty = rbx" using result_register [OF e(3) l] first_registers(1) [OF wf(3)] by (simp add: rbx_def)
  from compile_arith_gen [OF e(3) need(1) wf(1,2) vl l] have
    1: "acx_st cx1 = acx_st cx" "acx_rs cx1 = (acx_rs cx)\<lparr>rs_used := (replicate NUM_REGS False)[0 := True]\<rparr>"
      "computes cx cx1 0 (vars_of l) (\<lambda>env. eval env l)" using i wf(3) by (auto simp: rbx_def)
  note wf1 = after_expr(1) [OF wf(1) l]
  have "free_regs cx1 = 13" by (simp add: free_regs_def 1(2) NUM_REGS_def numeral_eq_Suc)
  then have n1: "regs_needed r \<le> free_regs cx1" using need(2) by simp
  have ne1: "chain (acx_st cx1) \<noteq> []" and vr: "\<forall>x \<in> vars_of r. local_names (acx_st cx1) x"
    using c(3) e(1) wf(2) by (simp_all add: 1(1))
  have j: "re_reg rty = \<lparr>r_name = ''rcx'', r_which = 1, r_need_restore = False\<rparr>"
    using result_register [OF e(4) r] first_registers(2) [of cx1] by (simp add: 1(2))
  from compile_arith_gen [OF e(4) n1 wf1 ne1 vr r] have
    2: "acx_st cx2 = acx_st cx" "acx_rs cx2 = (acx_rs cx1)\<lparr>rs_used := (rs_used (acx_rs cx1))[1 := True]\<rparr>"
      "computes cx1 cx2 1 (vars_of r) (\<lambda>env. eval env r)" using j by (auto simp: 1(1))
  have code': "code = [Op2 ''cmp'' (Reg ''rbx'') (Reg ''rcx''), Op1 (''set'' @ relop_cc op) (Reg ''cl''),
      Op2 ''movzx'' (Reg ''rbx'') (Reg ''cl'')]"
    using code rel_code(1) [OF e(2)] i j by (simp add: rbx_def)
  have rs: "acx_rs cx' = (acx_rs cx)\<lparr>rs_used := (replicate NUM_REGS False)[0 := True]\<rparr>"
    by (simp add: cx' j reg_takeitback_def Let_def 1(2) 2(2) NUM_REGS_def numeral_eq_Suc)
  from 1(3) obtain cl where cl: "acx_ofd cx1 = acx_ofd cx @ cl" and
    xl: "\<And>m env. frame_holds (acx_st cx) m env (vars_of l) \<Longrightarrow> \<exists>m'. exec cl m = Some m' \<and>
        regs m' (REGS ! 0) = eval env l \<and> same_store m m'"
    unfolding computes_def by blast
  from 2(3) obtain cr where cr: "acx_ofd cx2 = acx_ofd cx1 @ cr" and
    xr: "\<And>m env. frame_holds (acx_st cx) m env (vars_of r) \<Longrightarrow> \<exists>m'. exec cr m = Some m' \<and>
        regs m' (REGS ! 1) = eval env r \<and> same_store m m' \<and>
        (\<forall>k < NUM_REGS. rs_used (acx_rs cx1) ! k \<longrightarrow> regs m' (REGS ! k) = regs m (REGS ! k))"
    unfolding computes_def 1(1) by blast
  have names: "REGS ! 0 = ''rbx''" "REGS ! 1 = ''rcx''" by (simp_all add: REGS_def)
  have run: "\<exists>k fl' m'. nsteps J P k (length pre, fl, m) = Some (length pre + length (cl @ cr @ code), fl', m')
      \<and> same_store m m' \<and> regs m' ''rbx'' = of_bool (holds env c)"
    if P: "P = pre @ (cl @ cr @ code) @ post" and fr: "frame_holds (acx_st cx) m env (vars_of c)"
    for P pre post fl m env
  proof -
    from fr have "frame_holds (acx_st cx) m env (vars_of l)" by (simp add: frame_holds_def e(1))
    from xl [OF this] obtain m1 where m1: "exec cl m = Some m1" "regs m1 ''rbx'' = eval env l" "same_store m m1"
      unfolding names by blast
    from fr have "frame_holds (acx_st cx) m env (vars_of r)" by (simp add: frame_holds_def e(1))
    then have "frame_holds (acx_st cx) m1 env (vars_of r)" by (rule frame_holds_same [OF m1(3)])
    from xr [OF this] obtain m2 where m2: "exec cr m1 = Some m2" "regs m2 ''rcx'' = eval env r" "same_store m1 m2"
      and keep: "\<forall>k < NUM_REGS. rs_used (acx_rs cx1) ! k \<longrightarrow> regs m2 (REGS ! k) = regs m1 (REGS ! k)"
      unfolding names by blast
    have "regs m2 ''rbx'' = eval env l" using keep [rule_format, of 0] m1(2) by (simp add: 1(2) NUM_REGS_def names)
    note vals = this m2(2)
    have "exec (cl @ cr) m = Some m2" using m1(1) m2(1) by (simp add: exec_append)
    from nsteps_exec [OF this, of P pre "code @ post" J fl] P obtain fl1 where
      s1: "nsteps J P (length (cl @ cr)) (length pre, fl, m) = Some (length (pre @ cl @ cr), fl1, m2)" by auto
    have "P = (pre @ cl @ cr) @ code @ post" using P by simp
    from rel_steps [OF e(2) this [unfolded code'], of J fl1 m2] obtain fl2 m3 where
      s2: "nsteps J P 3 (length (pre @ cl @ cr), fl1, m2) = Some (length (pre @ cl @ cr) + 3, fl2, m3)"
      "same_store m2 m3" "regs m3 ''rbx'' = of_bool (rel_op op (eval env l) (eval env r))"
      unfolding vals by blast
    from nsteps_trans [OF s1 s2(1)] show ?thesis using s2(2,3) same_store_trans [OF same_store_trans [OF m1(3) m2(3)] s2(2)]
      by (intro exI [of _ "length (cl @ cr) + 3"] exI [of _ fl2] exI [of _ m3]) (simp add: code' e(1))
  qed
  show ?thesis
    using rs res i 2(1) run by (intro conjI exI [of _ "cl @ cr @ code"] allI impI)
      (simp_all add: cx' reg_takeitback_def Let_def j cl cr)
qed

end
