(* ===== verification/Simulation.thy ===== *)
theory Simulation
  imports Control
begin

text \<open>
  The code printed for a statement behaves like the statement (\<open>sim_stmt\<close>, \<open>run_stmt\<close>): for the code of a
  WHILE and an IF the labels of the whole program are resolved, for \<open>write\<close> the routines of rt.s
  are called.
\<close>

section \<open>Code that behaves like a statement\<close>

text \<open>
  What a run may change: the cells of the variables, the memory below the stack pointer, registers,
  flags and the text written. The memory below the stack pointer may change at any time, so the
  cells of the variables lie above, and there is room for a push.
\<close>

definition cells :: "stab \<Rightarrow> mach \<Rightarrow> string set \<Rightarrow> 64 word set" where
  "cells st m V = (\<lambda>x. regs m ''rbp'' + word_of_int (var_off st x)) ` V"

definition only_cells :: "stab \<Rightarrow> string set \<Rightarrow> mach \<Rightarrow> mach \<Rightarrow> bool" where
  "only_cells st V m m' \<longleftrightarrow> regs m' ''rbp'' = regs m ''rbp'' \<and> regs m' ''rsp'' = regs m ''rsp''
     \<and> (\<forall>a. a \<notin> cells st m V \<longrightarrow> regs m ''rsp'' \<le> a \<longrightarrow> mem m' a = mem m a)"

definition stack_below :: "stab \<Rightarrow> string set \<Rightarrow> mach \<Rightarrow> bool" where
  "stack_below st V m \<longleftrightarrow> 8 \<le> regs m ''rsp'' \<and> (\<forall>a \<in> cells st m V. regs m ''rsp'' \<le> a)"

definition agrees :: "stab \<Rightarrow> string set \<Rightarrow> mach \<Rightarrow> state \<Rightarrow> bool" where
  "agrees st V m s \<longleftrightarrow> frame_holds st m (fst s) V \<and> written m = snd s \<and> stack_below st V m"

lemma only_cells_same: "same_store m m' \<Longrightarrow> only_cells st V m m'"
  by (simp add: only_cells_def same_store_def)

lemma only_cells_refl: "only_cells st V m m"
  by (simp add: only_cells_def)

lemma only_cells_trans: "only_cells st V a b \<Longrightarrow> only_cells st V b c \<Longrightarrow> only_cells st V a c"
  by (simp add: only_cells_def cells_def)

lemma stack_below_kept: "only_cells st V m m' \<Longrightarrow> stack_below st V m \<Longrightarrow> stack_below st V m'"
  by (simp add: stack_below_def only_cells_def cells_def)

lemma frame_holds_subset: "frame_holds st m env V \<Longrightarrow> U \<subseteq> V \<Longrightarrow> frame_holds st m env U"
  by (auto simp: frame_holds_def)

lemma agreesD:
  assumes "agrees st V m s"
  shows "frame_holds st m (fst s) V" "written m = snd s" "stack_below st V m"
  using assms by (simp_all add: agrees_def)

lemma agrees_same: "same_store m m' \<Longrightarrow> agrees st V m s \<Longrightarrow> agrees st V m' s"
  by (simp add: agrees_def same_store_def frame_holds_def stack_below_def cells_def)

text \<open>
  The code from \<open>c\<close> to \<open>b\<close> behaves like a statement with outcome \<open>res\<close>: it ends at \<open>b\<close> in a state
  that agrees with \<open>res\<close>, or, if the fuel \<open>n\<close> was not enough, is still inside after \<open>n\<close> steps.
\<close>

definition sim :: "(mach \<Rightarrow> mach) \<Rightarrow> asm list \<Rightarrow> cpu \<Rightarrow> nat \<Rightarrow> nat \<Rightarrow> stab \<Rightarrow> string set \<Rightarrow> state option \<Rightarrow> bool" where
  "sim J P c b n st V res = (case res of
     Some s' \<Rightarrow> \<exists>k fl' m'. nsteps J P k c = Some (b, fl', m') \<and> agrees st V m' s' \<and> only_cells st V (snd (snd c)) m'
   | None \<Rightarrow> \<exists>k c'. n \<le> k \<and> nsteps J P k c = Some c' \<and> fst c' < b)"

lemma sim_prefix:
  assumes "nsteps J P k c = Some c1" and "sim J P c1 b n st V res" and "only_cells st V (snd (snd c)) (snd (snd c1))"
    and "n' \<le> k + n"
  shows "sim J P c b n' st V res"
proof (cases res)
  case None
  with assms(2) obtain j c' where "n \<le> j" "nsteps J P j c1 = Some c'" "fst c' < b" by (auto simp: sim_def)
  with assms(4) nsteps_trans [OF assms(1), of j "Some c'"] None show ?thesis
    by (simp only: sim_def option.case) (intro exI [of _ "k + j"] exI [of _ c'], simp)
next
  case (Some s')
  with assms(2) obtain j fl m where "nsteps J P j c1 = Some (b, fl, m)" "agrees st V m s'"
    "only_cells st V (snd (snd c1)) m" by (auto simp: sim_def)
  with nsteps_trans [OF assms(1)] only_cells_trans [OF assms(3)] Some show ?thesis
    by (fastforce simp: sim_def)
qed

lemma sim_seq:
  assumes "sim J P c b1 n st V res1" and "b1 \<le> b"
    and "\<And>s1 fl m. res1 = Some s1 \<Longrightarrow> agrees st V m s1 \<Longrightarrow> sim J P (b1, fl, m) b n st V (f s1)"
  shows "sim J P c b n st V (Option.bind res1 f)"
proof (cases res1)
  case None
  with assms(1,2) show ?thesis by (fastforce simp: sim_def)
next
  case (Some s1)
  with assms(1) obtain k fl m where k: "nsteps J P k c = Some (b1, fl, m)" "agrees st V m s1"
    "only_cells st V (snd (snd c)) m" by (auto simp: sim_def)
  from sim_prefix [OF k(1) assms(3) [OF Some k(2)], of n] k(3) Some show ?thesis by simp
qed

text \<open>Steps after the code, that change nothing but the flags.\<close>

lemma sim_suffix:
  assumes "sim J P c b1 n st V res" and "b1 \<le> b"
    and "\<And>fl m. \<exists>k fl'. nsteps J P k (b1, fl, m) = Some (b, fl', m)"
  shows "sim J P c b n st V res"
proof -
  have "sim J P c b n st V (Option.bind res Some)"
  proof (rule sim_seq [OF assms(1,2)])
    fix s1 fl m assume "agrees st V m s1"
    moreover obtain k fl' where "nsteps J P k (b1, fl, m) = Some (b, fl', m)" using assms(3) by blast
    ultimately show "sim J P (b1, fl, m) b n st V (Some s1)"
      by (simp only: sim_def option.case) (intro exI [of _ k] exI [of _ fl'] exI [of _ m], simp add: only_cells_refl)
  qed
  then show ?thesis by simp
qed

lemma sim_done: "agrees st V m s \<Longrightarrow> sim J P (b, fl, m) b n st V (Some s)"
  by (simp only: sim_def option.case) (intro exI [of _ 0] exI [of _ fl] exI [of _ m], simp add: only_cells_refl)

text \<open>A test and the jump over what it guards.\<close>

lemma branch:
  assumes c: "at_rest cx" "test c" "regs_needed c \<le> 14" "\<forall>x \<in> vars_of c. local_names (acx_st cx) x"
      "analyze_expr cx c True = Inr (res, cx')" "acx_ofd cx' = acx_ofd cx @ code"
    and P: "P = pre @ code @ [Op2 ''cmp'' (Reg (r_name (re_reg res))) (Imm 1), Jump ''jne'' l] @ post"
      "P = p @ Label l # q" "distinct (labels_of P)"
    and fr: "frame_holds (acx_st cx) m env (vars_of c)"
  shows "\<exists>k fl' m'. nsteps J P (Suc k) (length pre, fl, m) =
      Some (if holds env c then length pre + length code + 2 else length p, fl', m') \<and> same_store m m'"
proof -
  let ?i1 = "Op2 ''cmp'' (Reg ''rbx'') (Imm 1)" and ?i2 = "Jump ''jne'' l" and ?b = "holds env c"
  from compile_test [OF c(1-5)] c(6) have res: "re_reg res = rbx" and
    run: "P = pre @ code @ post' \<longrightarrow> frame_holds (acx_st cx) m env (vars_of c) \<longrightarrow> (\<exists>k fl' m'.
          nsteps J P k (length pre, fl, m) = Some (length pre + length code, fl', m') \<and> same_store m m'
          \<and> regs m' ''rbx'' = of_bool (holds env c))" for post' by auto
  from run [of "[?i1, ?i2] @ post"] P(1) fr res obtain k fl1 m1 where
    1: "nsteps J P k (length pre, fl, m) = Some (length pre + length code, fl1, m1)" "same_store m m1"
      "regs m1 ''rbx'' = of_bool ?b" by (auto simp: rbx_def)
  let ?n = "length (pre @ code)" and ?fl = "Some (of_bool ?b, 1)"
  have "cstep J P (?n, fl1, m1) = Some (Suc ?n, ?fl, m1)"
    using cstep_at [of P "pre @ code" ?i1 "?i2 # post"] P(1) res 1(3) by (simp add: rbx_def)
  moreover have "cstep J P (Suc ?n, ?fl, m1) = Some (if ?b then ?n + 2 else length p, ?fl, m1)"
    using cstep_at [of P "pre @ code @ [?i1]" ?i2 post] P(1) res target_at [OF P(3,2)]
    by (simp add: rbx_def cc_of_def)
  ultimately have "nsteps J P 2 (?n, fl1, m1) = Some (if ?b then ?n + 2 else length p, ?fl, m1)"
    by (simp add: numeral_2_eq_2)
  from nsteps_trans [OF 1(1), of 2] this
  have "nsteps J P (Suc (Suc k)) (length pre, fl, m) =
      Some (if ?b then length pre + length code + 2 else length p, ?fl, m1)" by simp
  with 1(2) show ?thesis by blast
qed

text \<open>The context after a test, and after a statement, is at rest again.\<close>

lemma rest_after_test:
  assumes c: "at_rest cx" "test c" "regs_needed c \<le> 14" "\<forall>x \<in> vars_of c. local_names (acx_st cx) x"
      "analyze_expr cx c True = Inr (res, cx')"
  shows "at_rest (reg_takeitback (emit code (cx'\<lparr>acx_label := l\<rparr>)) (re_reg res))"
    and "acx_st (reg_takeitback (emit code (cx'\<lparr>acx_label := l\<rparr>)) (re_reg res)) = acx_st cx"
proof -
  from compile_test [OF c] have a: "re_reg res = rbx" "acx_st cx' = acx_st cx"
    "acx_rs cx' = (acx_rs cx)\<lparr>rs_used := (replicate NUM_REGS False)[0 := True]\<rparr>" by auto
  have wf: "acx_wf cx'" by (rule after_expr(1) [OF at_restD(1) [OF c(1)] c(5)])
  have "rs_used (acx_rs (reg_takeitback (emit code (cx'\<lparr>acx_label := l\<rparr>)) (re_reg res))) = replicate NUM_REGS False"
    by (simp add: a reg_takeitback_def Let_def rbx_def NUM_REGS_def numeral_eq_Suc)
  moreover have "acx_wf (reg_takeitback (emit code (cx'\<lparr>acx_label := l\<rparr>)) (re_reg res))"
    by (rule acx_wf_cong [OF _ _ _ wf]) (simp_all add: a reg_takeitback_def Let_def rbx_def)
  ultimately show "at_rest (reg_takeitback (emit code (cx'\<lparr>acx_label := l\<rparr>)) (re_reg res))"
    using at_restD(2) [OF c(1)] by (simp add: at_rest_def a reg_takeitback_def Let_def rbx_def)
  show "acx_st (reg_takeitback (emit code (cx'\<lparr>acx_label := l\<rparr>)) (re_reg res)) = acx_st cx"
    by (simp add: a reg_takeitback_def Let_def rbx_def)
qed

lemma rest_emit: "at_rest (emit code cx) = at_rest cx" "at_rest (cx\<lparr>acx_label := l\<rparr>) = at_rest cx"
  by (auto simp: at_rest_def elim!: acx_wf_cong [rotated 3])

section \<open>The code of write\<close>

definition int_var :: "stab \<Rightarrow> string \<Rightarrow> bool" where
  "int_var st x \<longleftrightarrow> te_var (tenv_of st) x = Some INTEGER_TYPE_IDX"

lemma arith_integer:
  "arith e \<Longrightarrow> \<forall>x \<in> vars_of e. int_var st x \<Longrightarrow> expr_type (tenv_of st) e = Some t \<Longrightarrow> t = INTEGER_TYPE_IDX"
proof (induction e arbitrary: t)
  case (EXPR_PATH p)
  then obtain x where "p = [x]" by (auto simp: length_Suc_conv)
  with EXPR_PATH show ?case by (auto simp: path_type_def int_var_def split: if_splits Option.bind_splits)
next
  case (EXPR_BIN l op r)
  then have "\<not> is_relop op" by (cases op rule: is_relop.cases) (auto simp: arith_fun_def split: if_splits)
  with EXPR_BIN.prems(3) have "expr_type (tenv_of st) l = Some t" by (auto split: if_splits Option.bind_splits)
  with EXPR_BIN.IH(1) EXPR_BIN.prems(1,2) show ?case by simp
qed simp_all

lemma push_below: "8 \<le> (r :: 64 word) \<Longrightarrow> r \<le> a \<Longrightarrow> a \<noteq> r - 8 \<and> \<not> a < r - 8"
proof -
  assume a: "8 \<le> r" "r \<le> a"
  then have "unat (r - 8) = unat r - 8" "8 \<le> unat r" "unat r \<le> unat a"
    by (simp_all add: unat_sub word_le_nat_alt)
  then show ?thesis by (auto simp: word_less_nat_alt)
qed

text \<open>The value of \<open>rbx\<close> is pushed, written and dropped.\<close>

lemma write_steps:
  assumes P: "P = pre @ io_call ''rbx'' ''write_integer@'' @ post" and sp: "8 \<le> regs m ''rsp''"
  shows "\<exists>fl' m'. nsteps J P 3 (length pre, fl, m) = Some (length pre + 3, fl', m')
    \<and> regs m' = regs m \<and> written m' = written m @ dec (sint (regs m ''rbx''))
    \<and> (\<forall>a. regs m ''rsp'' \<le> a \<longrightarrow> mem m' a = mem m a)"
proof -
  let ?sp = "regs m ''rsp''"
  let ?m1 = "set_mem (?sp - 8) (regs m ''rbx'') (set_reg ''rsp'' (?sp - 8) m)"
  let ?i1 = "Op1 ''push'' (Reg ''rbx'')" and ?i2 = "Call ''write_integer@''" and ?i3 = "Op2 ''add'' (Reg ''rsp'') (Imm 8)"
  have P': "P = pre @ ?i1 # ?i2 # ?i3 # post" using P by (simp add: io_call_def)
  let ?m2 = "?m1\<lparr>mem := (\<lambda>a. if a < ?sp - 8 then mem (J ?m1) a else mem ?m1 a),
      written := written m @ dec (sint (regs m ''rbx''))\<rparr>"
  have m1: "regs ?m1 ''rsp'' = ?sp - 8" "mem ?m1 (?sp - 8) = regs m ''rbx''" "written ?m1 = written m"
    by (simp_all add: set_reg_def set_mem_def)
  have "cstep J P (length pre, fl, m) = Some (Suc (length pre), None, ?m1)"
    using cstep_at [OF P', of J "(fl, m)"] by simp
  moreover have "cstep J P (Suc (length pre), None, ?m1) = Some (Suc (Suc (length pre)), None, ?m2)"
    using cstep_at [of P "pre @ [?i1]" ?i2 "?i3 # post" J "(None, ?m1)"] P'
    by (simp add: rt_call_def Let_def m1)
  moreover have "cstep J P (Suc (Suc (length pre)), None, ?m2) = Some (Suc (Suc (Suc (length pre))), None, set_reg ''rsp'' ?sp ?m2)"
    using cstep_at [of P "pre @ [?i1, ?i2]" ?i3 post J "(None, ?m2)"] P'
    by (simp add: arith_op_def set_reg_def set_mem_def)
  ultimately have "nsteps J P 3 (length pre, fl, m) = Some (length pre + 3, None, set_reg ''rsp'' ?sp ?m2)"
    by (simp add: numeral_3_eq_3)
  moreover have "mem ?m2 a = mem m a" if "?sp \<le> a" for a
    using push_below [OF sp that] by (simp add: set_reg_def set_mem_def)
  moreover have "regs (set_reg ''rsp'' ?sp ?m2) = regs m" by (simp add: set_reg_def set_mem_def)
  ultimately show ?thesis by (intro exI [of _ None] exI [of _ "set_reg ''rsp'' ?sp ?m2"]) (simp add: set_reg_def)
qed

text \<open>Code that runs through and changes the state by \<open>f\<close>.\<close>

definition performs :: "(mach \<Rightarrow> mach) \<Rightarrow> stab \<Rightarrow> string set \<Rightarrow> asm list \<Rightarrow> (state \<Rightarrow> state) \<Rightarrow> bool" where
  "performs J st V code f \<longleftrightarrow> (\<forall>P pre post fl m s. P = pre @ code @ post \<longrightarrow> agrees st V m s \<longrightarrow>
     (\<exists>k fl' m'. nsteps J P k (length pre, fl, m) = Some (length pre + length code, fl', m')
        \<and> agrees st V m' (f s) \<and> only_cells st V m m'))"

lemma performsI:
  assumes "\<And>P pre post fl m s. P = pre @ code @ post \<Longrightarrow> agrees st V m s \<Longrightarrow>
     \<exists>k fl' m'. nsteps J P k (length pre, fl, m) = Some (length pre + length code, fl', m')
        \<and> agrees st V m' (f s) \<and> only_cells st V m m'"
  shows "performs J st V code f"
  using assms unfolding performs_def by blast

lemma performsD:
  assumes "performs J st V code f" and "P = pre @ code @ post" and "agrees st V m s"
  obtains k fl' m' where "nsteps J P k (length pre, fl, m) = Some (length pre + length code, fl', m')"
    "agrees st V m' (f s)" "only_cells st V m m'"
  using assms unfolding performs_def by metis

lemma performs_Nil: "performs J st V [] (\<lambda>s. s)"
  by (rule performsI) (rule exI [of _ 0], simp add: only_cells_refl)

lemma performs_append:
  assumes f: "performs J st V c1 f" and g: "performs J st V c2 g"
  shows "performs J st V (c1 @ c2) (\<lambda>s. g (f s))"
proof (rule performsI)
  fix P pre post fl m s assume P: "P = pre @ (c1 @ c2) @ post" and s: "agrees st V m s"
  have P1: "P = pre @ c1 @ (c2 @ post)" "P = (pre @ c1) @ c2 @ post" using P by simp_all
  from performsD [OF f P1(1) s, of fl] obtain k fl1 m1 where
    1: "nsteps J P k (length pre, fl, m) = Some (length pre + length c1, fl1, m1)" "agrees st V m1 (f s)" "only_cells st V m m1" .
  from performsD [OF g P1(2) 1(2), of fl1] obtain k2 fl2 m2 where
    2: "nsteps J P k2 (length (pre @ c1), fl1, m1) = Some (length (pre @ c1) + length c2, fl2, m2)"
      "agrees st V m2 (g (f s))" "only_cells st V m1 m2" .
  have "nsteps J P (k + k2) (length pre, fl, m) = Some (length pre + length (c1 @ c2), fl2, m2)"
    using nsteps_trans [OF 1(1), of k2] 2(1) by (simp add: add.assoc)
  with 2(2) only_cells_trans [OF 1(3) 2(3)]
  show "\<exists>k fl' m'. nsteps J P k (length pre, fl, m) = Some (length pre + length (c1 @ c2), fl', m')
      \<and> agrees st V m' (g (f s)) \<and> only_cells st V m m'" by blast
qed

lemma performs_write_arg:
  assumes rest: "at_rest cx" and st: "acx_st cx = st"
    and e: "arith e" "regs_needed e \<le> 14" "vars_of e \<subseteq> V" "\<forall>x \<in> vars_of e. int_var st x"
    and V: "\<forall>x \<in> V. local_names st x"
    and r: "analyze_expr cx e True = Inr (r, cx1)" "io_routine ''write'' (re_type r) = Inr f"
    and cx2: "cx2 = reg_takeitback (emit (io_call (r_name (re_reg r)) f) cx1) (re_reg r)"
  obtains code where "at_rest cx2" "acx_st cx2 = st" "acx_ofd cx2 = acx_ofd cx @ code"
    "performs J st V code (\<lambda>s. (fst s, snd s @ dec (sint (eval (fst s) e))))"
proof -
  note wf = at_restD [OF rest]
  have vars: "\<forall>x \<in> vars_of e. local_names (acx_st cx) x" using e(3) V st by auto
  have "expr_type (tenv_of st) e = Some (re_type r)" using typed(1) [OF wf(1) r(1)] st by simp
  from arith_integer [OF e(1,4) this] r(2) have f: "f = ''write_integer@''"
    by (simp add: io_routine_def)
  have reg: "re_reg r = rbx" using result_register [OF e(1) r(1)] first_registers(1) [OF wf(3)] by (simp add: rbx_def)
  have "regs_needed e \<le> free_regs cx" using e(2) wf(4) by simp
  from compile_arith_gen [OF e(1) this wf(1,2) vars r(1)] have
    1: "acx_st cx1 = st" "acx_rs cx1 = (acx_rs cx)\<lparr>rs_used := (replicate NUM_REGS False)[0 := True]\<rparr>"
      "computes cx cx1 0 (vars_of e) (\<lambda>env. eval env e)" using reg wf(3) st by (auto simp: rbx_def)
  from 1(3) obtain ce where ce: "acx_ofd cx1 = acx_ofd cx @ ce" and
    xe: "\<And>m env. frame_holds st m env (vars_of e) \<Longrightarrow> \<exists>m'. exec ce m = Some m' \<and>
        regs m' (REGS ! 0) = eval env e \<and> same_store m m'"
    unfolding computes_def st by blast
  let ?w = "io_call ''rbx'' ''write_integer@''"
  have "performs J st V (ce @ ?w) (\<lambda>s. (fst s, snd s @ dec (sint (eval (fst s) e))))"
  proof (rule performsI)
    fix P pre post fl m s assume P: "P = pre @ (ce @ ?w) @ post" and s: "agrees st V m s"
    from xe [OF frame_holds_subset [OF agreesD(1) [OF s] e(3)]] obtain m1 where
      m1: "exec ce m = Some m1" "regs m1 ''rbx'' = eval (fst s) e" "same_store m m1" by (auto simp: REGS_def)
    have P1: "P = pre @ ce @ (?w @ post)" "P = (pre @ ce) @ ?w @ post" using P by simp_all
    from nsteps_exec [OF m1(1) P1(1), of J fl] obtain fl1 where
      s1: "nsteps J P (length ce) (length pre, fl, m) = Some (length pre + length ce, fl1, m1)" by blast
    note a1 = agrees_same [OF m1(3) s]
    have "8 \<le> regs m1 ''rsp''" using agreesD(3) [OF a1] by (simp add: stack_below_def)
    from write_steps [OF P1(2) this, of J fl1] obtain fl2 m2 where
      s2: "nsteps J P 3 (length (pre @ ce), fl1, m1) = Some (length (pre @ ce) + 3, fl2, m2)" "regs m2 = regs m1"
        "written m2 = written m1 @ dec (sint (regs m1 ''rbx''))" "\<forall>a. regs m1 ''rsp'' \<le> a \<longrightarrow> mem m2 a = mem m1 a" by blast
    have oc: "only_cells st V m1 m2" using s2(2,4) by (simp add: only_cells_def)
    have "frame_holds st m2 (fst s) V"
      using agreesD(1,3) [OF a1] s2(2,4) by (auto simp: frame_holds_def stack_below_def cells_def)
    then have a2: "agrees st V m2 (fst s, snd s @ dec (sint (eval (fst s) e)))"
      using agreesD(2) [OF a1] stack_below_kept [OF oc agreesD(3) [OF a1]] s2(3) m1(2) by (simp add: agrees_def)
    have "nsteps J P (length ce + 3) (length pre, fl, m) = Some (length pre + length (ce @ ?w), fl2, m2)"
      using nsteps_trans [OF s1, of 3] s2(1) by (simp add: io_call_def add.assoc)
    with a2 only_cells_trans [OF only_cells_same [OF m1(3)] oc]
    show "\<exists>k fl' m'. nsteps J P k (length pre, fl, m) = Some (length pre + length (ce @ ?w), fl', m')
        \<and> agrees st V m' (fst s, snd s @ dec (sint (eval (fst s) e))) \<and> only_cells st V m m'" by blast
  qed
  moreover have "acx_ofd cx2 = acx_ofd cx @ ce @ ?w" "acx_st cx2 = st"
    by (simp_all add: cx2 reg f ce 1(1) reg_takeitback_def Let_def rbx_def)
  moreover have "at_rest cx2"
  proof -
    have "acx_wf cx2"
      by (rule acx_wf_cong [OF _ _ _ after_expr(1) [OF wf(1) r(1)]]) (simp_all add: cx2 reg reg_takeitback_def Let_def rbx_def)
    moreover have "rs_used (acx_rs cx2) = replicate NUM_REGS False"
      by (simp add: cx2 reg 1(2) reg_takeitback_def Let_def rbx_def NUM_REGS_def numeral_eq_Suc)
    ultimately show ?thesis using wf(2) st \<open>acx_st cx2 = st\<close> by (simp add: at_rest_def)
  qed
  ultimately show thesis using that by blast
qed

lemma magic_write_performs:
  "at_rest cx \<Longrightarrow> acx_st cx = st \<Longrightarrow> list_all arith args \<Longrightarrow> foldr (\<lambda>e. max (regs_needed e)) args 0 \<le> 14 \<Longrightarrow>
   \<Union> (set (map vars_of args)) \<subseteq> V \<Longrightarrow> \<forall>x \<in> \<Union> (set (map vars_of args)). int_var st x \<Longrightarrow>
   \<forall>x \<in> V. local_names st x \<Longrightarrow> magic_write cx args = Inr cx' \<Longrightarrow>
   \<exists>code. at_rest cx' \<and> acx_st cx' = st \<and> acx_ofd cx' = acx_ofd cx @ code
    \<and> performs J st V code (\<lambda>s. (fst s, snd s @ write_text (fst s) args))"
proof (induction args arbitrary: cx)
  case Nil
  then show ?case using performs_Nil by (simp add: write_text_def)
next
  case (Cons e es)
  from Cons.prems(8) obtain r cx1 f where
    r: "analyze_expr cx e True = Inr (r, cx1)" "io_routine ''write'' (re_type r) = Inr f"
    and rest: "magic_write (reg_takeitback (emit (io_call (r_name (re_reg r)) f) cx1) (re_reg r)) es = Inr cx'"
    by (rule magic_writeE)
  let ?cx2 = "reg_takeitback (emit (io_call (r_name (re_reg r)) f) cx1) (re_reg r)"
  from Cons.prems have e: "arith e" "regs_needed e \<le> 14" "vars_of e \<subseteq> V" "\<forall>x \<in> vars_of e. int_var st x" by auto
  from performs_write_arg [OF Cons.prems(1,2) e Cons.prems(7) r HOL.refl] obtain c1 where
    1: "at_rest ?cx2" "acx_st ?cx2 = st" "acx_ofd ?cx2 = acx_ofd cx @ c1"
      "performs J st V c1 (\<lambda>s. (fst s, snd s @ dec (sint (eval (fst s) e))))" .
  from Cons.IH [OF 1(1,2) _ _ _ _ Cons.prems(7) rest] Cons.prems(3-6) obtain c2 where
    2: "at_rest cx'" "acx_st cx' = st" "acx_ofd cx' = acx_ofd ?cx2 @ c2"
      "performs J st V c2 (\<lambda>s. (fst s, snd s @ write_text (fst s) es))" by auto
  have "performs J st V (c1 @ c2) (\<lambda>s. (fst s, snd s @ write_text (fst s) (e # es)))"
    using performs_append [OF 1(4) 2(4)] by (simp add: write_text_def)
  with 1(3) 2(1-3) show ?case by (intro exI [of _ "c1 @ c2"]) simp
qed

lemma newline_steps:
  "\<exists>m'. rt_call J ''write_newline@'' m = Some m' \<and> written m' = written m @ nl \<and> regs m' ''rbp'' = regs m ''rbp''
     \<and> regs m' ''rsp'' = regs m ''rsp'' \<and> (\<forall>a. regs m ''rsp'' \<le> a \<longrightarrow> mem m' a = mem m a)"
  by (simp add: rt_call_def Let_def set_reg_def linorder_not_less [symmetric])

lemma performs_newline: "performs J st V [Call ''write_newline@''] (\<lambda>s. (fst s, snd s @ nl))"
proof (rule performsI)
  fix P pre post fl m s assume P: "P = pre @ [Call ''write_newline@''] @ post" and s: "agrees st V m s"
  from newline_steps [of J m] obtain m' where m': "rt_call J ''write_newline@'' m = Some m'" "written m' = written m @ nl"
    "regs m' ''rbp'' = regs m ''rbp''" "regs m' ''rsp'' = regs m ''rsp''" "\<forall>a. regs m ''rsp'' \<le> a \<longrightarrow> mem m' a = mem m a"
    by blast
  have oc: "only_cells st V m m'" using m'(3-5) by (simp add: only_cells_def)
  have "frame_holds st m' (fst s) V"
    using agreesD(1,3) [OF s] m'(3,5) by (auto simp: frame_holds_def stack_below_def cells_def)
  then have "agrees st V m' (fst s, snd s @ nl)"
    using agreesD(2) [OF s] stack_below_kept [OF oc agreesD(3) [OF s]] m'(2) by (simp add: agrees_def)
  moreover have "nsteps J P 1 (length pre, fl, m) = Some (length pre + 1, None, m')"
    using cstep_at [of P pre "Call ''write_newline@''" post J "(fl, m)"] P m'(1) by simp
  ultimately show "\<exists>k fl' m'. nsteps J P k (length pre, fl, m) = Some (length pre + length [Call ''write_newline@''], fl', m')
      \<and> agrees st V m' (fst s, snd s @ nl) \<and> only_cells st V m m'"
    using oc by (intro exI [of _ 1] exI [of _ None] exI [of _ m']) simp
qed

text \<open>The names \<open>write\<close> and \<open>writeln\<close> stand for the built-in procedures.\<close>

definition builtin :: "stab \<Rightarrow> ast_path \<Rightarrow> bool" where
  "builtin st p \<longleftrightarrow> (\<exists>i t. stab_resolve_func st (last p) = Inr i \<and> STAB_TYPE st i = Inr t
     \<and> st_magic t = (if p = [''write''] then MAGIC_WRITE else MAGIC_WRITELN))"

lemma write_performs:
  assumes rest: "at_rest cx" "acx_st cx = st" and p: "writes p" "builtin st p"
    and args: "list_all arith args" "foldr (\<lambda>e. max (regs_needed e)) args 0 \<le> 14"
      "\<Union> (set (map vars_of args)) \<subseteq> V" "\<forall>x \<in> \<Union> (set (map vars_of args)). int_var st x"
    and V: "\<forall>x \<in> V. local_names st x" and r: "analyze_stmt cx (Some (STMT_PROC p args)) = Inr cx'"
  obtains code where "at_rest cx'" "acx_st cx' = st" "acx_ofd cx' = acx_ofd cx @ code"
    "performs J st V code (\<lambda>s. (fst s, snd s @ write_text (fst s) args @ newline_of p))"
proof -
  from p(2) obtain i t where it: "stab_resolve_func st (last p) = Inr i" "STAB_TYPE st i = Inr t"
    "st_magic t = (if p = [''write''] then MAGIC_WRITE else MAGIC_WRITELN)" unfolding builtin_def by blast
  then have nz: "st_magic t \<noteq> 0" by (simp add: MAGIC_WRITE_def MAGIC_WRITELN_def)
  from r obtain cty cx1 where c: "analyze_call cx p args = Inr (cty, cx1)" "cx' = reg_takeitback cx1 (re_reg cty)"
    by (rule procE)
  from c(1) have "analyze_magic cx (st_magic t) args = Inr cx1 \<and> cty = void_resu"
  proof (cases rule: analyze_callE)
    case (magic pty pt)
    then have "pt = t" using it(1,2) rest(2) by simp
    with magic(6,7) show ?thesis by blast
  next
    case (call pty pt ids cx1 r cx2)
    then have "pt = t" using it(1,2) rest(2) by simp
    with call(5) nz show ?thesis by blast
  qed
  then have m: "analyze_magic cx (st_magic t) args = Inr cx1" "cty = void_resu" by blast+
  from m(1) obtain cx0 where w: "magic_write cx args = Inr cx0"
    and cx1: "cx1 = emit (if st_magic t = MAGIC_WRITELN then [Call ''write_newline@''] else []) cx0"
    by (rule analyze_magicE) (use it(3) in \<open>simp_all add: MAGIC_WRITE_def MAGIC_WRITELN_def MAGIC_READ_def MAGIC_READLN_def split: if_splits\<close>)
  from magic_write_performs [OF rest args V w, of J] obtain c0 where
    0: "at_rest cx0" "acx_st cx0 = st" "acx_ofd cx0 = acx_ofd cx @ c0"
      "performs J st V c0 (\<lambda>s. (fst s, snd s @ write_text (fst s) args))" by blast
  let ?n = "if st_magic t = MAGIC_WRITELN then [Call ''write_newline@''] else []"
  have nl: "(st_magic t = MAGIC_WRITELN) = (p = [''writeln''])"
    using it(3) p(1) by (auto simp: writes_def MAGIC_WRITE_def MAGIC_WRITELN_def)
  have n: "performs J st V ?n (\<lambda>s. (fst s, snd s @ newline_of p))"
    using performs_newline performs_Nil by (simp add: nl newline_of_def)
  have "performs J st V (c0 @ ?n) (\<lambda>s. (fst s, snd s @ write_text (fst s) args @ newline_of p))"
    using performs_append [OF 0(4) n] by simp
  moreover have cx': "acx_st cx' = st" "acx_ofd cx' = acx_ofd cx @ c0 @ ?n"
    by (simp_all add: c(2) m(2) cx1 0 void_resu_def reg_takeitback_def Let_def)
  moreover have "at_rest cx'"
  proof -
    have "acx_wf cx'" by (rule acx_wf_cong [OF _ _ _ at_restD(1) [OF 0(1)]])
      (simp_all add: c(2) m(2) cx1 void_resu_def reg_takeitback_def Let_def)
    moreover have "rs_used (acx_rs cx') = replicate NUM_REGS False"
      using at_restD(3) [OF 0(1)] by (simp add: c(2) m(2) cx1 void_resu_def reg_takeitback_def Let_def NUM_REGS_def numeral_eq_Suc)
    ultimately show ?thesis using at_restD(2) [OF 0(1)] 0(2) cx'(1) by (simp add: at_rest_def)
  qed
  ultimately show thesis using that by blast
qed

section \<open>Statements\<close>

text \<open>The calls are of the built-in procedures, and what is written are integers.\<close>

definition calls_ok :: "stab \<Rightarrow> (ast_path \<times> ast_expr list) set \<Rightarrow> bool" where
  "calls_ok st C \<longleftrightarrow> (\<forall>(p, args) \<in> C. builtin st p \<and> (\<forall>x \<in> \<Union> (set (map vars_of args)). int_var st x))"

lemma calls_ok_Un [simp]: "calls_ok st (A \<union> B) \<longleftrightarrow> calls_ok st A \<and> calls_ok st B"
  by (simp add: calls_ok_def ball_Un)

lemma simple_keeps:
  "simple s \<Longrightarrow> stmt_regs s \<le> 14 \<Longrightarrow> \<forall>x \<in> stmt_vars s. local_names (acx_st cx) x \<Longrightarrow> at_rest cx \<Longrightarrow>
     calls_ok (acx_st cx) (stmt_calls s) \<Longrightarrow> analyze_stmt cx s = Inr cx' \<Longrightarrow> at_rest cx' \<and> acx_st cx' = acx_st cx"
  "simples ss \<Longrightarrow> stmts_regs ss \<le> 14 \<Longrightarrow> \<forall>x \<in> stmts_vars ss. local_names (acx_st cx) x \<Longrightarrow> at_rest cx \<Longrightarrow>
     calls_ok (acx_st cx) (stmts_calls ss) \<Longrightarrow> analyze_stmts cx ss = Inr cx' \<Longrightarrow> at_rest cx' \<and> acx_st cx' = acx_st cx"
proof (induction s and ss arbitrary: cx cx' and cx cx' rule: stmt_induct)
  case (assign l e)
  then obtain x where x: "l = EXPR_PATH [x]" by (auto simp: length_Suc_conv split: ast_expr.splits)
  note rest = at_restD [OF assign.prems(4)]
  from assign.prems x rest have "acx_st cx' = acx_st cx \<and> acx_rs cx' = acx_rs cx"
    using compile_assign [of e cx x cx'] by simp
  then show ?case
    using rest placeD(1) [OF place_stmt [OF rest(1,2) assign.prems(6)]] by (simp add: at_rest_def)
next
  case (ite c th el)
  from ite.prems(6) show ?case
  proof (rule iteE)
    fix cty cx1 cx2 cx3
    assume a: "analyze_expr cx c True = Inr (cty, cx1)"
      and th: "analyze_stmt (reg_takeitback (emit [Op2 ''cmp'' (Reg (r_name (re_reg cty))) (Imm 1),
        Jump ''jne'' (acx_label cx1)] (cx1\<lparr>acx_label := acx_label cx1 + 2\<rparr>)) (re_reg cty)) th = Inr cx2"
      and el: "analyze_stmt (emit [Jump ''jmp'' (acx_label cx1 + 1), Label (acx_label cx1)] cx2) el = Inr cx3"
      and cx': "cx' = emit [Label (acx_label cx1 + 1)] cx3"
    note r = rest_after_test [OF ite.prems(4) _ _ _ a, where code = "[Op2 ''cmp'' (Reg (r_name (re_reg cty))) (Imm 1),
        Jump ''jne'' (acx_label cx1)]" and l = "acx_label cx1 + 2"]
    from ite.IH(1) [OF _ _ _ _ _ th] r ite.prems(1-3,5) have 1: "at_rest cx2" "acx_st cx2 = acx_st cx" by simp_all
    from ite.IH(2) [OF _ _ _ _ _ el] 1 ite.prems(1-3,5) show ?thesis by (simp add: rest_emit cx')
  qed
next
  case (proc p args)
  from proc.prems(1,5) have p: "writes p" "builtin (acx_st cx) p" "list_all arith args"
    "\<forall>x \<in> \<Union> (set (map vars_of args)). int_var (acx_st cx) x" by (auto simp: calls_ok_def)
  from write_performs [OF proc.prems(4) HOL.refl p(1,2,3) _ subset_refl p(4) _ proc.prems(6)] proc.prems(2,3)
  show ?case by auto
next
  case (wdo c body)
  from wdo.prems(6) show ?case
  proof (rule wdoE)
    fix cty cx1 cx2
    let ?cx0 = "emit [Label (acx_label cx)] (cx\<lparr>acx_label := acx_label cx + 2\<rparr>)"
    assume a: "analyze_expr ?cx0 c True = Inr (cty, cx1)"
      and b: "analyze_stmt (reg_takeitback (emit [Op2 ''cmp'' (Reg (r_name (re_reg cty))) (Imm 1),
        Jump ''jne'' (acx_label cx + 1)] cx1) (re_reg cty)) body = Inr cx2"
      and cx': "cx' = emit [Jump ''jmp'' (acx_label cx), Label (acx_label cx + 1)] cx2"
    have "at_rest ?cx0" using wdo.prems(4) by (simp add: rest_emit)
    note r = rest_after_test [OF this _ _ _ a, where code = "[Op2 ''cmp'' (Reg (r_name (re_reg cty))) (Imm 1),
        Jump ''jne'' (acx_label cx + 1)]" and l = "acx_label cx1"]
    from wdo.IH [OF _ _ _ _ _ b] r wdo.prems(1-3,5) show ?thesis by (simp add: rest_emit cx')
  qed
next
  case (stmts ss)
  from stmts.IH [of cx cx'] stmts.prems show ?case by simp
next
  case (cons s ss)
  from cons.prems(6) obtain cx1 where s: "analyze_stmt cx s = Inr cx1" "analyze_stmts cx1 ss = Inr cx'" by auto
  from cons.IH(1) [OF _ _ _ _ _ s(1)] cons.prems(1-5) have "at_rest cx1" "acx_st cx1 = acx_st cx" by simp_all
  with cons.IH(2) [OF _ _ _ _ _ s(2)] cons.prems(1-5) show ?case by simp
qed simp_all

section \<open>Simulation\<close>

lemma sim_step: "cstep J P (a, fl, m) = Some (a1, fl1, m) \<Longrightarrow> sim J P (a1, fl1, m) b n st V res \<Longrightarrow> sim J P (a, fl, m) b n st V res"
  by (rule sim_prefix [of J P 1 _ "(a1, fl1, m)" _ n]) (simp_all add: only_cells_refl)

lemma label_step: "P = pre @ Label l # post \<Longrightarrow> cstep J P (length pre, fl, m) = Some (Suc (length pre), fl, m)"
  by (simp add: cstep_def)

lemma emitted: "analyze_stmt cx s = Inr cx' \<Longrightarrow> \<exists>code. acx_ofd cx' = acx_ofd cx @ code"
  by (drule analyze_stmt_flows(1)) (auto simp: flows_def flow_def)

lemma emitteds: "analyze_stmts cx ss = Inr cx' \<Longrightarrow> \<exists>code. acx_ofd cx' = acx_ofd cx @ code"
  by (drule analyze_stmt_flows(2)) (auto simp: flows_def flow_def)

lemma loop_code:
  assumes "analyze_expr (emit code0 (cx\<lparr>acx_label := l\<rparr>)) c True = Inr (cty, cx1)"
    and "analyze_stmt (reg_takeitback (emit code1 cx1) (re_reg cty)) body = Inr cx2"
    and "cx' = emit (i # code2) cx2"
  shows "\<exists>code. acx_ofd cx' = acx_ofd cx @ code \<and> code \<noteq> []"
proof -
  have "flow (emit code0 (cx\<lparr>acx_label := l\<rparr>)) cx1 [] []"
    using quiet_flow.analyze_frame(1) [OF assms(1)] by (simp add: quiet_flow_def)
  moreover have "flow (emit code1 cx1) (reg_takeitback (emit code1 cx1) (re_reg cty)) [] []"
    using quiet_flow.takeback by (simp add: quiet_flow_def)
  ultimately show ?thesis using emitted [OF assms(2)] by (auto simp: flow_def assms(3))
qed

lemma sim_stmt:
  assumes V: "\<forall>x \<in> V. local_names st x"
    and apart: "inj_on (\<lambda>x. word_of_int (var_off st x) :: 64 word) V"
  shows "simple s \<Longrightarrow> stmt_regs s \<le> 14 \<Longrightarrow> stmt_vars s \<subseteq> V \<Longrightarrow> at_rest cx \<Longrightarrow> acx_st cx = st \<Longrightarrow>
      analyze_stmt cx s = Inr cx' \<Longrightarrow> acx_ofd cx' = acx_ofd cx @ code \<Longrightarrow> P = pre @ code @ post \<Longrightarrow>
      distinct (labels_of P) \<Longrightarrow> agrees st V m x \<Longrightarrow> calls_ok st (stmt_calls s) \<Longrightarrow>
      sim J P (length pre, fl, m) (length pre + length code) n st V (srun n s x)"
    and "simples ss \<Longrightarrow> stmts_regs ss \<le> 14 \<Longrightarrow> stmts_vars ss \<subseteq> V \<Longrightarrow> at_rest cx \<Longrightarrow> acx_st cx = st \<Longrightarrow>
      analyze_stmts cx ss = Inr cx' \<Longrightarrow> acx_ofd cx' = acx_ofd cx @ code \<Longrightarrow> P = pre @ code @ post \<Longrightarrow>
      distinct (labels_of P) \<Longrightarrow> agrees st V m x \<Longrightarrow> calls_ok st (stmts_calls ss) \<Longrightarrow>
      sim J P (length pre, fl, m) (length pre + length code) n st V (sruns n ss x)"
proof (induction n s x and n ss x arbitrary: cx cx' code pre post fl m and cx cx' code pre post fl m
    rule: srun_sruns.induct)
  case (1 n x)
  then show ?case by (auto intro: sim_done)
next
  case (2 n l e s)
  from "2.prems"(1) obtain v where l: "l = EXPR_PATH [v]" and e: "arith e"
    by (auto simp: length_Suc_conv split: ast_expr.splits)
  note rest = at_restD [OF "2.prems"(4)]
  have sub: "v \<in> V" "vars_of e \<subseteq> V" using "2.prems"(3) by (auto simp: l)
  from compile_assign [OF e _ _ rest(1,2) _ "2.prems"(6) [unfolded l]] "2.prems"(2,5,7) rest(4) V sub
  have run: "frame_holds st m (fst s) (vars_of e) \<longrightarrow> (\<exists>m'. exec code m = Some m' \<and>
      mem m' = (mem m)(regs m ''rbp'' + word_of_int (var_off st v) := eval (fst s) e) \<and> regs m' ''rbp'' = regs m ''rbp'' \<and> regs m' ''rsp'' = regs m ''rsp'' \<and> written m' = written m)"
    by auto
  from run frame_holds_subset [OF agreesD(1) [OF "2.prems"(10)] sub(2)] obtain m' where
    m': "exec code m = Some m'" "mem m' = (mem m)(regs m ''rbp'' + word_of_int (var_off st v) := eval (fst s) e)"
      "regs m' ''rbp'' = regs m ''rbp''" "regs m' ''rsp'' = regs m ''rsp''" "written m' = written m" by blast
  from nsteps_exec [OF m'(1) "2.prems"(8)] obtain fl' where
    "nsteps J P (length code) (length pre, fl, m) = Some (length pre + length code, fl', m')" by blast
  moreover have oc: "only_cells st V m m'" using m'(2-4) sub(1) by (auto simp: only_cells_def cells_def)
  moreover have "frame_holds st m' ((fst s)(v := eval (fst s) e)) V"
    using agreesD(1) [OF "2.prems"(10)] m'(2,3) inj_onD [OF apart _ _ sub(1)] by (auto simp: frame_holds_def)
  then have "agrees st V m' ((fst s)(v := eval (fst s) e), snd s)"
    using agreesD(2) [OF "2.prems"(10)] stack_below_kept [OF oc agreesD(3) [OF "2.prems"(10)]] m'(5)
    by (simp add: agrees_def)
  ultimately show ?case by (auto simp: sim_def l)
next
  case (3 n c th el s)
  from "3.prems"(6) show ?case
  proof (rule iteE)
    fix cty :: resu and cx1 cx2 cx3 :: acx
    let ?l = "acx_label cx1" and ?i = "[Op2 ''cmp'' (Reg (r_name (re_reg cty))) (Imm 1), Jump ''jne'' (acx_label cx1)]"
    let ?cx1 = "reg_takeitback (emit ?i (cx1\<lparr>acx_label := ?l + 2\<rparr>)) (re_reg cty)"
    let ?j = "[Jump ''jmp'' (?l + 1), Label ?l]"
    assume a: "analyze_expr cx c True = Inr (cty, cx1)" and th: "analyze_stmt ?cx1 th = Inr cx2"
      and el: "analyze_stmt (emit ?j cx2) el = Inr cx3" and cx': "cx' = emit [Label (?l + 1)] cx3"
    have c: "test c" "regs_needed c \<le> 14" "\<forall>x \<in> vars_of c. local_names (acx_st cx) x" "vars_of c \<subseteq> V"
      and f: "simple th" "stmt_regs th \<le> 14" "stmt_vars th \<subseteq> V" "simple el" "stmt_regs el \<le> 14" "stmt_vars el \<subseteq> V"
      and calls: "calls_ok st (stmt_calls th)" "calls_ok st (stmt_calls el)"
      using "3.prems"(1-3,5,11) V by auto
    note t = compile_test [OF "3.prems"(4) c(1-3) a]
    from t obtain ct where ct: "acx_ofd cx1 = acx_ofd cx @ ct" by blast
    note r1 = rest_after_test [OF "3.prems"(4) c(1-3) a, where code = ?i and l = "?l + 2"]
    from simple_keeps(1) [OF f(1,2) _ r1(1) _ th] r1(2) f(3) V "3.prems"(5) calls(1)
    have r2: "at_rest (emit ?j cx2)" "acx_st (emit ?j cx2) = st" by (auto simp: rest_emit)
    have o1: "acx_ofd ?cx1 = acx_ofd cx @ ct @ ?i" using t by (simp add: ct reg_takeitback_def Let_def rbx_def)
    from emitted [OF th] obtain t where t: "acx_ofd cx2 = acx_ofd ?cx1 @ t" by blast
    from emitted [OF el] obtain e where e: "acx_ofd cx3 = acx_ofd (emit ?j cx2) @ e" by blast
    have code: "code = ct @ ?i @ t @ ?j @ e @ [Label (?l + 1)]"
      using "3.prems"(7) unfolding cx' by (simp add: e t o1)
    have P: "P = pre @ ct @ ?i @ (t @ ?j @ e @ [Label (?l + 1)] @ post)"
      "P = (pre @ ct @ ?i @ t @ [Jump ''jmp'' (?l + 1)]) @ Label ?l # (e @ [Label (?l + 1)] @ post)"
      "P = (pre @ ct @ ?i) @ t @ (?j @ e @ [Label (?l + 1)] @ post)"
      "P = (pre @ ct @ ?i @ t @ ?j) @ e @ ([Label (?l + 1)] @ post)"
      "P = (pre @ ct @ ?i @ t @ ?j @ e) @ Label (?l + 1) # post"
      "P = (pre @ ct @ ?i @ t) @ Jump ''jmp'' (?l + 1) # (Label ?l # e @ [Label (?l + 1)] @ post)"
      using "3.prems"(8) by (simp_all add: code)
    have "frame_holds (acx_st cx) m (fst s) (vars_of c)"
      using frame_holds_subset [OF agreesD(1) [OF "3.prems"(10)] c(4)] "3.prems"(5) by simp
    from branch [OF "3.prems"(4) c(1-3) a ct P(1,2) "3.prems"(9) this, of J fl] obtain k fl1 m1 where
      b: "nsteps J P (Suc k) (length pre, fl, m) = Some (if holds (fst s) c then length pre + length ct + 2
          else length (pre @ ct @ ?i @ t @ [Jump ''jmp'' (?l + 1)]), fl1, m1)"
      "same_store m m1" by blast
    note fr1 = agrees_same [OF b(2) "3.prems"(10)]
    let ?stop = "length (pre @ ct @ ?i @ t @ ?j @ e) + 1"
    have last: "cstep J P (length (pre @ ct @ ?i @ t @ ?j @ e), fl, m) = Some (?stop, fl, m)" for fl m
      using label_step [OF P(5)] by simp
    have "sim J P (if holds (fst s) c then length pre + length ct + 2
          else length (pre @ ct @ ?i @ t @ [Jump ''jmp'' (?l + 1)]), fl1, m1) ?stop n st V
        (srun n (if holds (fst s) c then th else el) s)"
    proof (cases "holds (fst s) c")
      case True
      note IH = "3.IH" [unfolded if_P [OF True]]
      have "sim J P (length (pre @ ct @ ?i), fl1, m1) ?stop n st V (srun n th s)"
      proof (rule sim_suffix [OF IH [OF f(1-3) r1(1) _ th t P(3) "3.prems"(9) fr1 calls(1)]])
        show "acx_st ?cx1 = st" using r1(2) "3.prems"(5) by simp
        show "\<exists>k fl'. nsteps J P k (length (pre @ ct @ ?i) + length t, fl, m) = Some (?stop, fl', m)" for fl m
          using jump_at [OF "3.prems"(9) P(5,6), of J fl m] last [of fl m]
          by (intro exI [of _ 2] exI [of _ fl]) (simp add: numeral_2_eq_2 add.assoc)
      qed simp
      then show ?thesis using True by simp
    next
      case False
      note IH = "3.IH" [unfolded if_not_P [OF False]]
      have last1: "\<exists>k fl'. nsteps J P k (length (pre @ ct @ ?i @ t @ ?j) + length e, fl, m) = Some (?stop, fl', m)" for fl m
        using last [of fl m] by (intro exI [of _ 1] exI [of _ fl]) (simp add: add.assoc)
      have "sim J P (length (pre @ ct @ ?i @ t @ ?j), fl1, m1) ?stop n st V (srun n el s)"
        by (rule sim_suffix [OF IH [OF f(4-6) r2 el e P(4) "3.prems"(9) fr1 calls(2)]]) (simp, rule last1)
      moreover have "cstep J P (length (pre @ ct @ ?i @ t @ [Jump ''jmp'' (?l + 1)]), fl1, m1) =
          Some (length (pre @ ct @ ?i @ t @ ?j), fl1, m1)"
        using label_step [OF P(2)] by simp
      ultimately show ?thesis using False sim_step by simp
    qed
    from sim_prefix [OF b(1) this, of n] show ?thesis
      using only_cells_same [OF b(2)] by (simp add: code ac_simps)
  qed
next
  case (4 n ss s)
  then show ?case by simp
next
  case (5 c body s)
  from "5.prems"(6) have "code \<noteq> []"
  proof (rule wdoE)
    fix cty :: resu and cx1 cx2 :: acx
    let ?i = "[Op2 ''cmp'' (Reg (r_name (re_reg cty))) (Imm 1), Jump ''jne'' (acx_label cx + 1)]"
    assume "analyze_expr (emit [Label (acx_label cx)] (cx\<lparr>acx_label := acx_label cx + 2\<rparr>)) c True = Inr (cty, cx1)"
      "analyze_stmt (reg_takeitback (emit ?i cx1) (re_reg cty)) body = Inr cx2"
      and cx': "cx' = emit [Jump ''jmp'' (acx_label cx), Label (acx_label cx + 1)] cx2"
    from loop_code [OF this] "5.prems"(7) show ?thesis by auto
  qed
  then show ?case by (simp add: sim_def) (rule exI [of _ 0], simp)
next
  case (6 n c body s)
  from "6.prems"(6) show ?case
  proof (rule wdoE)
    fix cty :: resu and cx1 cx2 :: acx
    let ?l = "acx_label cx" and ?i = "[Op2 ''cmp'' (Reg (r_name (re_reg cty))) (Imm 1), Jump ''jne'' (acx_label cx + 1)]"
    let ?cx0 = "emit [Label ?l] (cx\<lparr>acx_label := ?l + 2\<rparr>)" and ?cx1 = "reg_takeitback (emit ?i cx1) (re_reg cty)"
    let ?j = "[Jump ''jmp'' ?l, Label (?l + 1)]"
    assume a: "analyze_expr ?cx0 c True = Inr (cty, cx1)" and b: "analyze_stmt ?cx1 body = Inr cx2"
      and cx': "cx' = emit ?j cx2"
    have c: "test c" "regs_needed c \<le> 14" "\<forall>x \<in> vars_of c. local_names (acx_st ?cx0) x" "vars_of c \<subseteq> V"
      and f: "simple body" "stmt_regs body \<le> 14" "stmt_vars body \<subseteq> V"
      and calls: "calls_ok st (stmt_calls body)"
      using "6.prems"(1-3,5,11) V by auto
    have rest: "at_rest ?cx0" using "6.prems"(4) by (simp add: rest_emit)
    note t = compile_test [OF rest c(1-3) a]
    from t obtain ct where ct: "acx_ofd cx1 = acx_ofd ?cx0 @ ct" by blast
    from rest_after_test [OF rest c(1-3) a, where code = ?i and l = "acx_label cx1"] "6.prems"(5)
    have r1: "at_rest ?cx1" "acx_st ?cx1 = st" by simp_all
    have o1: "acx_ofd ?cx1 = acx_ofd cx @ [Label ?l] @ ct @ ?i" using t by (simp add: ct reg_takeitback_def Let_def rbx_def)
    from emitted [OF b] obtain t where t: "acx_ofd cx2 = acx_ofd ?cx1 @ t" by blast
    have code: "code = [Label ?l] @ ct @ ?i @ t @ ?j"
      using "6.prems"(7) unfolding cx' by (simp add: t o1)
    have P: "P = (pre @ [Label ?l]) @ ct @ ?i @ (t @ ?j @ post)"
      "P = (pre @ [Label ?l] @ ct @ ?i @ t @ [Jump ''jmp'' ?l]) @ Label (?l + 1) # post"
      "P = (pre @ [Label ?l] @ ct @ ?i) @ t @ (?j @ post)"
      "P = (pre @ [Label ?l] @ ct @ ?i @ t) @ Jump ''jmp'' ?l # (Label (?l + 1) # post)"
      "P = pre @ Label ?l # (ct @ ?i @ t @ ?j @ post)"
      using "6.prems"(8) by (simp_all add: code)
    let ?stop = "length pre + length code"
    have "frame_holds (acx_st ?cx0) m (fst s) (vars_of c)"
      using frame_holds_subset [OF agreesD(1) [OF "6.prems"(10)] c(4)] "6.prems"(5) by simp
    from branch [OF rest c(1-3) a ct P(1,2) "6.prems"(9) this, of J fl] obtain k fl1 m1 where
      br: "nsteps J P (Suc k) (length (pre @ [Label ?l]), fl, m) = Some (if holds (fst s) c
          then length (pre @ [Label ?l]) + length ct + 2
          else length (pre @ [Label ?l] @ ct @ ?i @ t @ [Jump ''jmp'' ?l]), fl1, m1)"
      "same_store m m1" by blast
    have "nsteps J P 1 (length pre, fl, m) = Some (length (pre @ [Label ?l]), fl, m)"
      using label_step [OF P(5)] by simp
    note head = nsteps_trans [OF this br(1)]
    note fr1 = agrees_same [OF br(2) "6.prems"(10)]
    have body: "sim J P (if holds (fst s) c then length (pre @ [Label ?l]) + length ct + 2
          else length (pre @ [Label ?l] @ ct @ ?i @ t @ [Jump ''jmp'' ?l]), fl1, m1) ?stop n st V
        (srun (Suc n) (Some (STMT_WDO c body)) s)"
    proof (cases "holds (fst s) c")
      case True
      have "sim J P (length (pre @ [Label ?l] @ ct @ ?i), fl1, m1) ?stop n st V
          (Option.bind (srun n body s) (srun n (Some (STMT_WDO c body))))"
      proof (rule sim_seq [OF "6.IH"(1) [OF True f r1 b t P(3) "6.prems"(9) fr1 calls]])
        fix s1 fl2 m2 assume e: "srun n body s = Some s1" "agrees st V m2 s1"
        have "cstep J P (length (pre @ [Label ?l] @ ct @ ?i) + length t, fl2, m2) = Some (length pre, fl2, m2)"
          using jump_at [OF "6.prems"(9) P(5,4), of J fl2 m2] by (simp add: add.assoc)
        then show "sim J P (length (pre @ [Label ?l] @ ct @ ?i) + length t, fl2, m2) ?stop n st V
            (srun n (Some (STMT_WDO c body)) s1)"
          by (rule sim_step) (rule "6.IH"(2) [OF True e(1) "6.prems"(1-9) e(2) "6.prems"(11)])
      qed (simp add: code)
      then show ?thesis using True by (simp add: add.assoc)
    next
      case False
      have "cstep J P (length (pre @ [Label ?l] @ ct @ ?i @ t @ [Jump ''jmp'' ?l]), fl1, m1) = Some (?stop, fl1, m1)"
        using label_step [OF P(2)] by (simp add: code)
      then have "sim J P (length (pre @ [Label ?l] @ ct @ ?i @ t @ [Jump ''jmp'' ?l]), fl1, m1) ?stop n st V (Some s)"
        by (rule sim_step) (rule sim_done [OF fr1])
      then show ?thesis using False by simp
    qed
    show ?thesis by (rule sim_prefix [OF head body]) (simp_all add: only_cells_same [OF br(2)])
  qed
next
  case (8 n p args s)
  from "8.prems"(1,11) have p: "writes p" "builtin st p" "list_all arith args"
    "\<forall>x \<in> \<Union> (set (map vars_of args)). int_var st x" by (auto simp: calls_ok_def)
  from write_performs [OF "8.prems"(4,5) p(1-3) _ _ p(4) V "8.prems"(6), of J] "8.prems"(2,3,7)
  have "performs J st V code (\<lambda>s. (fst s, snd s @ write_text (fst s) args @ newline_of p))" by auto
  from performsD [OF this "8.prems"(8,10), of fl] obtain k fl' m' where
    "nsteps J P k (length pre, fl, m) = Some (length pre + length code, fl', m')"
    "agrees st V m' (fst s, snd s @ write_text (fst s) args @ newline_of p)" "only_cells st V m m'" .
  then show ?case using p(1) by (auto simp: sim_def)
next
  case (9 n s)
  then show ?case by (auto intro: sim_done)
next
  case (10 n s ss st1)
  from "10.prems"(6) obtain cx1 where s: "analyze_stmt cx s = Inr cx1" "analyze_stmts cx1 ss = Inr cx'" by auto
  from emitted [OF s(1)] obtain c1 where c1: "acx_ofd cx1 = acx_ofd cx @ c1" by blast
  from emitteds [OF s(2)] obtain c2 where c2: "acx_ofd cx' = acx_ofd cx1 @ c2" by blast
  have code: "code = c1 @ c2" using "10.prems"(7) c1 c2 by simp
  have f: "simple s" "stmt_regs s \<le> 14" "stmt_vars s \<subseteq> V" "simples ss" "stmts_regs ss \<le> 14" "stmts_vars ss \<subseteq> V"
    and calls: "calls_ok st (stmt_calls s)" "calls_ok st (stmts_calls ss)"
    using "10.prems"(1-3,11) by simp_all
  have keep: "at_rest cx1" "acx_st cx1 = st" using simple_keeps(1) [OF f(1,2) _ "10.prems"(4) _ s(1)] f(3) V "10.prems"(5) calls(1) by auto
  have P: "P = pre @ c1 @ c2 @ post" "P = (pre @ c1) @ c2 @ post" using "10.prems"(8) code by simp_all
  have "sim J P (length pre, fl, m) (length pre + length code) n st V (Option.bind (srun n s st1) (sruns n ss))"
  proof (rule sim_seq [OF "10.IH"(1) [OF f(1-3) "10.prems"(4,5) s(1) c1 P(1) "10.prems"(9,10) calls(1)]])
    fix s1 fl1 m1 assume "srun n s st1 = Some s1" "agrees st V m1 s1"
    from "10.IH"(2) [OF this(1) f(4-6) keep s(2) c2 P(2) "10.prems"(9) this(2) calls(2), of fl1]
    show "sim J P (length pre + length c1, fl1, m1) (length pre + length code) n st V (sruns n ss s1)"
      by (simp add: code add.assoc)
  qed (simp add: code)
  then show ?case by simp
qed simp_all
section \<open>Running a statement\<close>

lemma apart_inj:
  assumes "\<forall>x \<in> V. \<forall>y \<in> V. x \<noteq> y \<longrightarrow> 8 \<le> \<bar>f x - f y\<bar> \<and> \<bar>f x - f y\<bar> < 2 ^ 63"
  shows "inj_on (\<lambda>x. word_of_int (f x) :: 64 word) V"
proof (rule inj_onI, rule ccontr)
  fix x y assume xy: "x \<in> V" "y \<in> V" "word_of_int (f x) = (word_of_int (f y) :: 64 word)" "x \<noteq> y"
  with assms have d: "8 \<le> \<bar>f x - f y\<bar>" "\<bar>f x - f y\<bar> < 2 ^ 63" by auto
  from xy(3) have "f x mod 2 ^ 64 = f y mod 2 ^ 64" by (simp add: word_of_int_eq_iff take_bit_eq_mod)
  then have "2 ^ 64 dvd f x - f y" by (simp add: mod_eq_dvd_iff)
  then have "2 ^ 64 dvd \<bar>f x - f y\<bar>" by simp
  then have "\<bar>f x - f y\<bar> = 0 \<or> 2 ^ 64 \<le> \<bar>f x - f y\<bar>" using zdvd_imp_le by fastforce
  with d show False by simp
qed

lemma never_ends:
  assumes "\<And>n. sim J P c (length P) n st V None"
  shows "\<exists>c'. nsteps J P k c = Some c' \<and> fst c' < length P"
proof -
  from assms [of "Suc k"] obtain j c1 where j: "Suc k \<le> j" "nsteps J P j c = Some c1" by (auto simp: sim_def)
  then have "k + Suc (j - Suc k) = j" by simp
  with j(2) nsteps_add [of J P k "Suc (j - Suc k)" c]
  have "Option.bind (nsteps J P k c) (nsteps J P (Suc (j - Suc k))) = Some c1" by simp
  then obtain c' where c': "nsteps J P k c = Some c'" "nsteps J P (Suc (j - Suc k)) c' = Some c1"
    by (cases "nsteps J P k c") auto
  then have "cstep J P c' \<noteq> None" by (auto split: Option.bind_splits)
  with c'(1) show ?thesis by (auto simp: cstep_def split: if_splits)
qed

text \<open>
  The code of a statement ends exactly if the statement does, in a state that agrees with the
  statement's; \<open>V\<close> is any set of local variables around those of the statement.
\<close>

lemma run_stmt:
  assumes s: "simple s" "stmt_regs s \<le> 14" "stmt_vars s \<subseteq> V" "calls_ok (acx_st cx) (stmt_calls s)"
    and V: "\<forall>x \<in> V. local_names (acx_st cx) x"
    and apart: "\<forall>x \<in> V. \<forall>y \<in> V. x \<noteq> y \<longrightarrow>
      8 \<le> \<bar>var_off (acx_st cx) x - var_off (acx_st cx) y\<bar> \<and> \<bar>var_off (acx_st cx) x - var_off (acx_st cx) y\<bar> < 2 ^ 63"
    and rest: "at_rest cx" and r: "analyze_stmt cx s = Inr cx'"
  obtains code where "acx_ofd cx' = acx_ofd cx @ code"
    "\<And>J m s0 fl n s1. agrees (acx_st cx) V m s0 \<Longrightarrow> srun n s s0 = Some s1 \<Longrightarrow>
      \<exists>k fl' m'. nsteps J code k (0, fl, m) = Some (length code, fl', m')
        \<and> agrees (acx_st cx) V m' s1 \<and> only_cells (acx_st cx) V m m'"
    "\<And>J m s0 fl k. agrees (acx_st cx) V m s0 \<Longrightarrow> (\<forall>n. srun n s s0 = None) \<Longrightarrow>
      \<exists>c. nsteps J code k (0, fl, m) = Some c \<and> fst c < length code"
proof -
  from analyze_stmt_flows(1) [OF r] obtain code where code: "acx_ofd cx' = acx_ofd cx @ code" "distinct (labels_of code)"
    unfolding flows_def flow_def closed_flow_def by blast
  have *: "sim J code (0, fl, m) (length code) n (acx_st cx) V (srun n s s0)"
    if "agrees (acx_st cx) V m s0" for J m s0 fl n
    using sim_stmt(1) [OF V apart_inj [OF apart] s(1-3) rest HOL.refl r code(1) _ code(2) that s(4), of "[]" "[]" J fl n] by simp
  have ends: "\<exists>k fl' m'. nsteps J code k (0, fl, m) = Some (length code, fl', m')
      \<and> agrees (acx_st cx) V m' s1 \<and> only_cells (acx_st cx) V m m'"
    if "agrees (acx_st cx) V m s0" "srun n s s0 = Some s1" for J m s0 fl n s1
    using * [OF that(1), of J fl n] that(2) by (simp add: sim_def)
  have runs: "\<exists>c. nsteps J code k (0, fl, m) = Some c \<and> fst c < length code"
    if "agrees (acx_st cx) V m s0" "\<forall>n. srun n s s0 = None" for J m s0 fl k
    by (rule never_ends) (use * [OF that(1), of J fl] that(2) in simp)
  show thesis by (rule that [OF code(1) ends runs])
qed

end
