(* ===== verification/Startup.thy ===== *)
theory Startup
  imports Simulation
begin

text \<open>
  What is in place when the body of a program is analysed: the built-in procedures of its libraries,
  its integer variables one after the other, and no register in use.
\<close>

section \<open>The built-in procedures\<close>

definition has_magic :: "stab \<Rightarrow> string \<Rightarrow> int \<Rightarrow> bool" where
  "has_magic st n w \<longleftrightarrow> (\<exists>i. env_of sc_funcs st n = Some i \<and> st_magic (type_nth st i) = w)"

lemma has_magic_builtin:
  assumes "stab_wf st" and "writes p" and "has_magic st ''write'' MAGIC_WRITE" "has_magic st ''writeln'' MAGIC_WRITELN"
  shows "builtin st p"
proof -
  from assms(2-4) obtain i where i: "env_of sc_funcs st (last p) = Some i"
    "st_magic (type_nth st i) = (if p = [''write''] then MAGIC_WRITE else MAGIC_WRITELN)"
    by (auto simp: has_magic_def writes_def)
  then have "stab_resolve_func st (last p) = Inr i" by (simp add: resolve_env(2) [OF assms(1)])
  moreover have "STAB_TYPE st i = Inr (type_nth st i)"
    by (rule STAB_TYPE_ok [OF assms(1) env_of_ok(2) [OF assms(1) i(1)]])
  ultimately show ?thesis using i(2) by (auto simp: builtin_def)
qed

lemma has_magic_ext:
  assumes "stab_wf st" "stab_ext st st'" "env_of sc_funcs st' n = env_of sc_funcs st n" "has_magic st n w"
  shows "has_magic st' n w"
  using assms(3,4) ext_type_nth [OF assms(2) env_of_ok(2) [OF assms(1)]] by (auto simp: has_magic_def)

lemma add_magic:
  assumes wf: "stab_wf st" and ne: "chain st \<noteq> []" and r: "stab_add_magic_func st w = Inr st'"
    and n: "n = (if w = MAGIC_READLN then ''readln'' else if w = MAGIC_READ then ''read''
      else if w = MAGIC_WRITELN then ''writeln'' else ''write'')"
  shows "has_magic st' n w" and "\<And>m v. m \<noteq> n \<Longrightarrow> has_magic st m v \<Longrightarrow> has_magic st' m v"
    and "stab_wf st'" "chain st' \<noteq> []"
proof -
  let ?t = "\<lparr>st_ty = R_FUNCTION SUB_FUNCTION None 0 False, st_name = n, st_size = 0, st_align = 0, st_magic = w\<rparr>"
  have "rtype_wf (nvars st) (ntypes st) (st_ty ?t)"
    using ntypes_ge [OF wf] by (simp add: rtype_wf_def ref_ok_def)
  from push_type_wf [OF wf this] obtain s1 where
    s1: "push_type st ?t = Inr (ntypes st, s1)" "stab_wf s1" "stab_ext st s1" "chain s1 = chain st"
      "pv_list (types s1) = pv_list (types st) @ [?t]" "scopes s1 = scopes st" by auto
  have f1: "env_of sc_funcs s1 = env_of sc_funcs st" using s1(4,6) by (simp add: env_of_def scope_nth_def)
  have i: "id_ok (ntypes s1) (ntypes st)" using arg_cong [OF s1(5), of length] by (simp add: id_ok_def)
  from bind_func_wf [OF s1(2) _ i, of n] s1(4) ne obtain s2 where
    s2: "bind_func s1 n (ntypes st) = Inr s2" "stab_wf s2" "stab_ext s1 s2"
      "env_of sc_funcs s2 = (env_of sc_funcs s1)(n \<mapsto> ntypes st)" by auto
  have st': "st' = s2" using r s1(1) s2(1) by (auto simp: stab_add_magic_func_def n magic_defs split: if_splits)
  have "type_nth s2 (ntypes st) = ?t"
    using ext_type_nth [OF s2(3) i] s1(5) by (simp add: type_nth_def nth_append)
  then show "has_magic st' n w" by (simp add: has_magic_def st' s2(4))
  show "has_magic st' m v" if "m \<noteq> n" "has_magic st m v" for m v
    by (rule has_magic_ext [OF wf _ _ that(2)]) (use that(1) stab_ext_trans [OF s1(3) s2(3)] in \<open>simp_all add: st' s2(4) f1\<close>)
  show "stab_wf st'" "chain st' \<noteq> []" using s2(2) stab_ext_chain [OF s2(3)] s1(4) ne by (simp_all add: st')
qed

abbreviation has_write :: "acx \<Rightarrow> bool" where
  "has_write cx \<equiv> has_magic (acx_st cx) ''write'' MAGIC_WRITE \<and> has_magic (acx_st cx) ''writeln'' MAGIC_WRITELN"

lemma register_output_write:
  assumes "stab_wf (acx_st cx)" "chain (acx_st cx) \<noteq> []" "register_output cx = Inr cx'"
  shows "has_write cx'"
proof -
  from assms(3) obtain s1 s2 where s: "stab_add_magic_func (acx_st cx) MAGIC_WRITELN = Inr s1"
    "stab_add_magic_func s1 MAGIC_WRITE = Inr s2" "cx' = cx\<lparr>acx_st := s2\<rparr>" by (auto simp: register_output_def)
  note 1 = add_magic [OF assms(1,2) s(1) HOL.refl, unfolded magic_defs, simplified]
  note 2 = add_magic [OF 1(3,4) s(2) HOL.refl, unfolded magic_defs, simplified]
  show ?thesis using 1(1) 2(1,2) by (simp add: s(3) magic_defs)
qed

lemma register_input_write:
  assumes "stab_wf (acx_st cx)" "chain (acx_st cx) \<noteq> []" "register_input cx = Inr cx'" "has_write cx"
  shows "has_write cx'"
proof -
  from assms(3) obtain s1 s2 where s: "stab_add_magic_func (acx_st cx) MAGIC_READLN = Inr s1"
    "stab_add_magic_func s1 MAGIC_READ = Inr s2" "cx' = cx\<lparr>acx_st := s2\<rparr>" by (auto simp: register_input_def)
  note 1 = add_magic [OF assms(1,2) s(1) HOL.refl, unfolded magic_defs, simplified]
  note 2 = add_magic [OF 1(3,4) s(2) HOL.refl, unfolded magic_defs, simplified]
  show ?thesis using assms(4) 1(2) 2(2) by (simp add: s(3) magic_defs)
qed

lemma do_imports_write:
  "acx_wf cx \<Longrightarrow> chain (acx_st cx) \<noteq> [] \<Longrightarrow> do_imports cx ns = Inr cx' \<Longrightarrow>
   has_write cx \<or> ''output'' \<in> set ns \<Longrightarrow> has_write cx'"
proof (induction ns arbitrary: cx)
  case (Cons n ns)
  from Cons.prems(3) obtain cx1 where 1: "do_imports cx [n] = Inr cx1" and rest: "do_imports cx1 ns = Inr cx'"
    by (auto split: if_splits)
  note i = do_imports_inside [OF Cons.prems(1,2) 1]
  note wf = acx_wfD(1) [OF Cons.prems(1)] Cons.prems(2)
  have "has_write cx1 \<or> ''output'' \<in> set ns"
    using 1 Cons.prems(4) register_output_write [OF wf] register_input_write [OF wf] by (auto split: if_splits)
  with Cons.IH [OF insideD(2) [OF i] _ rest] insideD(5) [OF i] Cons.prems(2) show ?case by simp
qed simp

lemma stab_add_type_funcs:
  assumes "stab_wf st" and "chain st \<noteq> []" and "stab_add_type st n ty = Inr st'"
  shows "env_of sc_funcs st' = env_of sc_funcs st"
proof -
  from assms(3) obtain i s1 where r: "stab_resolve_type st n (Some ty) = Inr (i, s1)"
    and k: "keeps_name ty" and b: "bind_type s1 n i = Inr st'"
    by (auto simp: stab_add_type_def split: if_splits)
  from k r have "stab_resolve_complex_type st n ty = Inr (i, s1)"
    by (auto simp: keeps_name_def split: ast_type.splits)
  from resolve_grows(2) [OF assms(1,2) this] have g: "grows st s1" "id_ok (ntypes s1) i" by auto
  from bind_type_wf [OF growsD(1) [OF g(1)] _ g(2), of n] b growsD(3,5) [OF g(1)] assms(2) show ?thesis by simp
qed

lemma add_types_write:
  "acx_wf cx \<Longrightarrow> chain (acx_st cx) \<noteq> [] \<Longrightarrow> add_types cx ts = Inr cx' \<Longrightarrow> has_write cx \<Longrightarrow> has_write cx'"
proof (induction ts arbitrary: cx)
  case (Cons t ts)
  from Cons.prems(3) obtain cx1 where 1: "add_types cx [t] = Inr cx1" and rest: "add_types cx1 ts = Inr cx'" by auto
  from 1 obtain st where st: "stab_add_type (acx_st cx) (td_name t) (td_type t) = Inr st" "cx1 = cx\<lparr>acx_st := st\<rparr>" by auto
  note wf = acx_wfD(1) [OF Cons.prems(1)] Cons.prems(2)
  note i = add_types_inside [OF Cons.prems(1,2) 1]
  note k = stab_add_type_ext_wf [OF wf st(1)]
  note f = stab_add_type_funcs [OF wf st(1)]
  have "has_write cx1"
    using has_magic_ext [OF wf(1) ext_wfD(2) [OF k(1)]] f Cons.prems(4) by (simp add: st(2))
  with Cons.IH [OF insideD(2) [OF i] _ rest] insideD(5) [OF i] Cons.prems(2) show ?case by simp
qed simp

lemma add_decls_write:
  "acx_wf cx \<Longrightarrow> chain (acx_st cx) \<noteq> [] \<Longrightarrow> add_decls cx ds p b = Inr (off, cx') \<Longrightarrow> has_write cx \<Longrightarrow> has_write cx'"
proof (induction ds arbitrary: cx p)
  case (Cons d ds)
  from Cons.prems(3) obtain o1 st where st: "stab_add_decls (acx_st cx) d (Some p) b = Inr (o1, st)"
    and rest: "add_decls (cx\<lparr>acx_st := st\<rparr>) ds (case o1 of None \<Rightarrow> p | Some q \<Rightarrow> q) b = Inr (off, cx')" by auto
  note wf = acx_wfD(1) [OF Cons.prems(1)] Cons.prems(2)
  note g = stab_add_decls_grows [OF wf st]
  have i: "inside cx (cx\<lparr>acx_st := st\<rparr>)" by (rule inside_ext [OF Cons.prems(1) grows_ext_wf [OF g]])
  have "has_write (cx\<lparr>acx_st := st\<rparr>)"
    using has_magic_ext [OF wf(1) growsD(2) [OF g]] growsD(3) [OF g] Cons.prems(4) by simp
  with Cons.IH [OF insideD(2) [OF i] _ rest] insideD(5) [OF i] Cons.prems(2) show ?case by simp
qed simp

section \<open>Declarations\<close>

text \<open>Declarations change the symbol table of the context and nothing else.\<close>

lemma declarations_rs:
  "do_imports cx ns = Inr cx' \<Longrightarrow> acx_rs cx' = acx_rs cx"
  "add_types cx ts = Inr cx' \<Longrightarrow> acx_rs cx' = acx_rs cx"
  "add_decls cx ds off b = Inr (off', cx') \<Longrightarrow> acx_rs cx' = acx_rs cx"
proof -
  show "do_imports cx ns = Inr cx' \<Longrightarrow> acx_rs cx' = acx_rs cx"
    by (induction ns arbitrary: cx) (fastforce simp: register_input_def register_output_def split: if_splits)+
  show "add_types cx ts = Inr cx' \<Longrightarrow> acx_rs cx' = acx_rs cx"
    by (induction ts arbitrary: cx) fastforce+
  show "add_decls cx ds off b = Inr (off', cx') \<Longrightarrow> acx_rs cx' = acx_rs cx"
    by (induction ds arbitrary: cx off) fastforce+
qed

lemma globals_parts:
  assumes st: "stab_new = Inr st" and g: "analyze_globals (initial_acx st) prog = Inr (off, cx)"
  obtains cx0 where "at_rest cx0" "add_decls cx0 (p_decls prog) 0 True = Inr (off, cx)" "at_rest cx"
    "''output'' \<in> set (p_args prog) \<longrightarrow> has_write cx"
proof -
  from stab_new_wf obtain st' where st': "stab_new = Inr st'" "stab_wf st'" "chain st' = []" "pv_list (vars st') = []"
    by blast
  have eq: "st' = st" by (rule Inr_inject) (rule trans [OF sym [OF st'(1)] st])
  note st_wf = st'(2-4) [unfolded eq]
  let ?cx = "initial_acx st"
  from g obtain cxa cxb cxc where a: "enter ?cx = Inr cxa" "do_imports cxa (p_args prog) = Inr cxb"
    "add_types cxb (p_types prog) = Inr cxc" "add_decls cxc (p_decls prog) 0 True = Inr (off, cx)"
    by (auto simp: analyze_globals_def)
  have ia: "acx_wf cxa" "chain (acx_st cxa) \<noteq> []" "acx_rs cxa = reg_init"
    using a(1) stab_enter_wf [OF st_wf(1)] initial_acx_wf [OF st_wf(1,3)]
    by (auto simp: acx_wf_def display_ok_def initial_acx_def elim!: enterE)
  have ib: "inside cxa cxb" by (rule do_imports_inside [OF ia(1,2) a(2)])
  have ic: "inside cxb cxc"
    by (rule add_types_inside [OF insideD(2) [OF ib] _ a(3)]) (simp add: insideD(5) [OF ib] ia(2))
  have c: "acx_wf cxc" "chain (acx_st cxc) \<noteq> []" using insideD(2,5) [OF inside_trans [OF ib ic]] ia(2) by simp_all
  have rs: "rs_used (acx_rs cxc) = replicate NUM_REGS False"
    using declarations_rs(1) [OF a(2)] declarations_rs(2) [OF a(3)] ia(3) by (simp add: reg_init_def)
  have "at_rest cxc" using c rs by (simp add: at_rest_def)
  moreover have "at_rest cx"
    using globals_wf(1,2) [OF st g] declarations_rs(3) [OF a(4)] rs by (simp add: at_rest_def)
  moreover have "has_write cx" if "''output'' \<in> set (p_args prog)"
    by (rule add_decls_write [OF c a(4)], rule add_types_write [OF insideD(2) [OF ib] _ a(3)])
      (use that do_imports_write [OF ia(1,2) a(2)] insideD(5) [OF ib] ia(2) in simp_all)
  ultimately show thesis using that a(4) by blast
qed

text \<open>Integer variables lie one after the other, eight bytes apart.\<close>

lemma integer_size:
  assumes "stab_wf st"
  shows "st_size (type_nth st INTEGER_TYPE_IDX) = 8"
proof -
  have "type_nth st INTEGER_TYPE_IDX = basic_types ! 0"
    using stab_wfD(9) [OF assms] by (metis type_nth_def INTEGER_TYPE_IDX_def nat_0 nth_take zero_less_numeral)
  then show ?thesis by (simp add: basic_types_def basic_type_def)
qed

definition placed :: "stab \<Rightarrow> string list \<Rightarrow> int \<Rightarrow> bool" where
  "placed st names p \<longleftrightarrow> (\<forall>i < length names. local_names st (names ! i) \<and> int_var st (names ! i)
     \<and> var_off st (names ! i) = p + 8 * int i)"

definition same_locals :: "stab \<Rightarrow> stab \<Rightarrow> bool" where
  "same_locals st st' \<longleftrightarrow> (\<forall>x. local_names st x \<longrightarrow> local_names st' x \<and> (int_var st' x \<longleftrightarrow> int_var st x)
     \<and> var_off st' x = var_off st x)"

lemma placed_same: "placed st names p \<Longrightarrow> same_locals st st' \<Longrightarrow> placed st' names p"
  by (simp add: placed_def same_locals_def)

lemma same_locals_trans: "same_locals a b \<Longrightarrow> same_locals b c \<Longrightarrow> same_locals a c"
  by (simp add: same_locals_def)

lemma placed_append:
  assumes "placed st xs p" and "placed st ys (p + 8 * int (length xs))"
  shows "placed st (xs @ ys) p"
  unfolding placed_def
proof (intro allI impI)
  fix i assume i: "i < length (xs @ ys)"
  show "local_names st ((xs @ ys) ! i) \<and> int_var st ((xs @ ys) ! i) \<and> var_off st ((xs @ ys) ! i) = p + 8 * int i"
  proof (cases "i < length xs")
    case False
    with i have "i - length xs < length ys" by simp
    with assms(2) False show ?thesis by (simp add: placed_def nth_append of_nat_diff)
  qed (use assms(1) in \<open>simp add: placed_def nth_append\<close>)
qed

lemma integer_decl:
  assumes wf: "stab_wf st" "chain st \<noteq> []" and r: "stab_add_decls st (Decls ns TYPE_INTEGER) (Some p) True = Inr (o1, st')"
    and p: "0 \<le> p" "p + 8 * int (length ns) < 2 ^ 31"
  shows "distinct ns" "o1 = Some (p + 8 * int (length ns))" "\<forall>n \<in> set ns. \<not> local_names st n"
    and "local_names st' = (\<lambda>m. m \<in> set ns \<or> local_names st m)" "placed st' ns p" "same_locals st st'"
proof -
  from r have a: "add_names st ns INTEGER_TYPE_IDX (Some p) True = Inr (o1, st')" by (simp add: stab_add_decls_def)
  have s: "(8 :: int) = (if True then 1 else -1) * st_size (type_nth st INTEGER_TYPE_IDX)"
    by (simp add: integer_size [OF wf(1)])
  note n = add_names_spec [OF wf ref_ok_basic(1) [OF wf(1)] a s]
  show "distinct ns" "\<forall>n \<in> set ns. \<not> local_names st n" "local_names st' = (\<lambda>m. m \<in> set ns \<or> local_names st m)"
    by (fact n)+
  have place: "place 8 p i = p + 8 * int i" if "i \<le> length ns" for i
    using place_in_range [of p i 8] p that by (simp add: mult.commute)
  show "o1 = Some (p + 8 * int (length ns))" using n(5) place by simp
  have "var_nth st' (nvars st + int i) = new_var (ns ! i) INTEGER_TYPE_IDX (p + 8 * int i)" if "i < length ns" for i
    using n(4) that place [of i] by (simp add: var_nth_def nat_add_distrib nth_append)
  then show "placed st' ns p" using n(3,6) by (simp add: placed_def var_off_def int_var_def te_var_Some new_var_def)
  show "same_locals st st'"
    unfolding same_locals_def
  proof (intro allI impI)
    fix x assume x: "local_names st x"
    with n(2) have "x \<notin> set ns" by blast
    then have e: "env_of sc_vars st' x = env_of sc_vars st x" using n(7) by simp
    have "var_nth st' i = var_nth st i" if "env_of sc_vars st x = Some i" for i
      using env_of_ok(1) [OF wf(1) that] n(4) by (simp add: var_nth_def id_ok_def nth_append nat_less_iff)
    then show "local_names st' x \<and> (int_var st' x \<longleftrightarrow> int_var st x) \<and> var_off st' x = var_off st x"
      using x n(3) by (cases "env_of sc_vars st x") (auto simp: var_off_def int_var_def te_var_Some e)
  qed
qed

lemma integer_decls:
  "acx_wf cx \<Longrightarrow> chain (acx_st cx) \<noteq> [] \<Longrightarrow> \<forall>d \<in> set ds. d_type d = TYPE_INTEGER \<Longrightarrow>
   add_decls cx ds p True = Inr (off, cx') \<Longrightarrow> names = concat (map d_names ds) \<Longrightarrow> 0 \<le> p \<Longrightarrow>
   p + 8 * int (length names) < 2 ^ 31 \<Longrightarrow>
   distinct names \<and> off = p + 8 * int (length names) \<and> (\<forall>n \<in> set names. \<not> local_names (acx_st cx) n)
    \<and> placed (acx_st cx') names p \<and> same_locals (acx_st cx) (acx_st cx')"
proof (induction ds arbitrary: cx p names)
  case Nil
  then show ?case by (simp add: placed_def same_locals_def)
next
  case (Cons d ds)
  obtain ns where d: "d = Decls ns TYPE_INTEGER" using Cons.prems(3) by (cases d) auto
  let ?ns = "concat (map d_names ds)"
  from Cons.prems(4) obtain o1 st where st: "stab_add_decls (acx_st cx) (Decls ns TYPE_INTEGER) (Some p) True = Inr (o1, st)"
    and rest: "add_decls (cx\<lparr>acx_st := st\<rparr>) ds (case o1 of None \<Rightarrow> p | Some q \<Rightarrow> q) True = Inr (off, cx')"
    by (auto simp: d)
  have fits: "p + 8 * int (length ns) < 2 ^ 31" using Cons.prems(5,7) by (simp add: d)
  note wf = acx_wfD(1) [OF Cons.prems(1)]
  note n = integer_decl [OF wf Cons.prems(2) st Cons.prems(6) fits]
  have i: "inside cx (cx\<lparr>acx_st := st\<rparr>)"
    by (rule inside_ext [OF Cons.prems(1) grows_ext_wf [OF stab_add_decls_grows [OF wf Cons.prems(2) st]]])
  have "chain (acx_st (cx\<lparr>acx_st := st\<rparr>)) \<noteq> []" using insideD(5) [OF i] Cons.prems(2) by simp
  from Cons.IH [OF insideD(2) [OF i] this _ rest HOL.refl] Cons.prems(3,5-7)
  have IH: "distinct ?ns" "off = p + 8 * int (length ns) + 8 * int (length ?ns)" "\<forall>n \<in> set ?ns. \<not> local_names st n"
    "placed (acx_st cx') ?ns (p + 8 * int (length ns))" "same_locals st (acx_st cx')"
    by (simp_all add: n(2) d algebra_simps)
  have "placed (acx_st cx') (ns @ ?ns) p"
    by (rule placed_append [OF placed_same [OF n(5) IH(5)] IH(4)])
  moreover have "same_locals (acx_st cx) (acx_st cx')" by (rule same_locals_trans [OF n(6) IH(5)])
  moreover have "distinct (ns @ ?ns)" "\<forall>n \<in> set (ns @ ?ns). \<not> local_names (acx_st cx) n"
    using n(1,3,4) IH(1,3) by auto
  ultimately show ?case using IH(2) Cons.prems(5) by (simp add: d)
qed

text \<open>The display of the main program takes one register at a time and gives it back.\<close>

lemma init_display_rest:
  "at_rest cx \<Longrightarrow> init_display cx es = Inr cx' \<Longrightarrow> at_rest cx' \<and> acx_st cx' = acx_st cx"
proof (induction es arbitrary: cx)
  case (Cons e es)
  obtain n i where e: "e = (n, i)" by fastforce
  from Cons.prems(2) obtain v where v: "STAB_VAR (acx_st cx) i = Inr v" by (auto simp: e)
  show ?case
  proof (cases "sv_captured v")
    case True
    obtain r cx1 where g: "reg_gimme cx = (r, cx1)" by fastforce
    note rest = at_restD [OF Cons.prems(1)]
    from gimme_free [OF acx_wfD(3) [OF rest(1)]] rest(4) g obtain j where
      j: "j < NUM_REGS" "\<not> rs_used (acx_rs cx) ! j" "r = \<lparr>r_name = REGS ! j, r_which = j, r_need_restore = False\<rparr>"
      "cx1 = cx\<lparr>acx_rs := (acx_rs cx)\<lparr>rs_used := (rs_used (acx_rs cx))[j := True]\<rparr>\<rparr>" by auto
    let ?code = "[Op2 ''lea'' (Reg (r_name r)) (RbpOff (sv_stack_base_offset v)), Op2 ''mov'' (slot v) (Reg (r_name r))]"
    have "(rs_used (acx_rs cx))[j := True, j := False] = rs_used (acx_rs cx)"
      using list_update_release j(1,2) acx_wfD(3) [OF rest(1)] by simp
    then have "reg_takeitback (emit ?code cx1) r = emit ?code cx"
      by (simp add: j(3,4) reg_takeitback_def Let_def emit_def)
    with Cons.prems True v g have "init_display (emit ?code cx) es = Inr cx'" by (simp add: e)
    with Cons.IH [of "emit ?code cx"] Cons.prems(1) show ?thesis by (simp add: rest_emit)
  next
    case False
    with Cons v show ?thesis by (simp add: e)
  qed
qed simp

section \<open>The body of a program\<close>

lemma main_parts:
  assumes m: "analyze_main cx off body = Inr cx'" and rest: "at_rest cx"
  obtains cx2 cx3 post where "at_rest cx2" "acx_st cx2 = acx_st cx" "analyze_stmt cx2 body = Inr cx3"
    "acx_ofd cx' = acx_ofd cx3 @ post"
proof -
  let ?pro = "emit [Verbatim (''global main'' @ nl @ ''main:'' @ nl @ ''mov rbp, rsp'' @ nl),
                     Verbatim ('';'' @ nl), Op2 ''sub'' (Reg ''rsp'') (Imm off)] cx"
  from m obtain i sc cx2 cx3 where "top_scope (acx_st cx) = Inr (i, sc)" and d: "init_display ?pro (hforeach (sc_vars sc)) = Inr cx2"
    and b: "analyze_stmt (cx2\<lparr>acx_toplevel := True\<rparr>) body = Inr cx3"
    and cx': "cx' = emit [Verbatim (''; and we're done!'' @ nl), Op2 ''mov'' (Reg ''rax'') (Imm 60),
                 Op2 ''xor'' (Reg ''rdi'') (Reg ''rdi''), Op0 ''syscall''] cx3"
    by (auto simp: analyze_main_def Let_def)
  have "at_rest ?pro" using rest by (simp add: rest_emit)
  from init_display_rest [OF this d] have "at_rest (cx2\<lparr>acx_toplevel := True\<rparr>)" "acx_st cx2 = acx_st cx"
    by (auto simp: at_rest_def elim!: acx_wf_cong [rotated 3])
  with b cx' show thesis using that by simp
qed

lemma simple_calls:
  "simple s \<Longrightarrow> \<forall>(p, args) \<in> stmt_calls s. writes p \<and> \<Union> (set (map vars_of args)) \<subseteq> stmt_vars s"
  "simples ss \<Longrightarrow> \<forall>(p, args) \<in> stmts_calls ss. writes p \<and> \<Union> (set (map vars_of args)) \<subseteq> stmts_vars ss"
  by (induction s and ss rule: stmt_induct) fastforce+

text \<open>The values of the variables in memory, above the stack, and the text written.\<close>

definition in_memory :: "string list \<Rightarrow> mach \<Rightarrow> state \<Rightarrow> bool" where
  "in_memory names m s \<longleftrightarrow> (\<forall>i < length names. mem m (regs m ''rbp'' + 8 * of_nat i) = fst s (names ! i)
       \<and> regs m ''rsp'' \<le> regs m ''rbp'' + 8 * of_nat i)
     \<and> 8 \<le> regs m ''rsp'' \<and> written m = snd s"

lemma agrees_in_memory: "placed st names 0 \<Longrightarrow> agrees st (set names) m s \<longleftrightarrow> in_memory names m s"
  by (simp add: agrees_def in_memory_def frame_holds_def stack_below_def cells_def placed_def all_set_conv_all_nth)
    blast

lemma placed_apart:
  assumes "placed st names 0" and "8 * int (length names) < 2 ^ 31"
  shows "\<forall>x \<in> set names. \<forall>y \<in> set names. x \<noteq> y \<longrightarrow>
      8 \<le> \<bar>var_off st x - var_off st y\<bar> \<and> \<bar>var_off st x - var_off st y\<bar> < 2 ^ 63"
proof (intro ballI impI)
  fix x y assume xy: "x \<in> set names" "y \<in> set names" "x \<noteq> y"
  then obtain i j where ij: "i < length names" "x = names ! i" "j < length names" "y = names ! j" "i \<noteq> j"
    by (auto simp: in_set_conv_nth)
  then have b: "int i < 268435456" "int j < 268435456" "int i \<noteq> int j" using assms(2) by simp_all
  then have "8 \<le> \<bar>8 * int i - 8 * int j\<bar>" "\<bar>8 * int i - 8 * int j\<bar> < 2147483648" by linarith+
  then have "8 \<le> \<bar>8 * int i - 8 * int j\<bar>" "\<bar>8 * int i - 8 * int j\<bar> < 2 ^ 63" by simp_all
  then show "8 \<le> \<bar>var_off st x - var_off st y\<bar> \<and> \<bar>var_off st x - var_off st y\<bar> < 2 ^ 63"
    using assms(1) ij by (simp add: placed_def)
qed

end
