(* ===== verification/Execution.thy ===== *)
theory Execution
  imports Startup
begin

text \<open>
  The properties of running code: whole statements, and programs without subprograms whose
  variables are integers.
\<close>

section \<open>Statements\<close>


text \<open>\<open>begin k := 0; while k < n do k := k + 1 end\<close> in the body of the function \<open>f\<close>.\<close>

definition demo_loop :: "ast_stmt option" where
  "demo_loop = Some (STMT_STMTS [Some (STMT_ASSIGN (path ''k'') (EXPR_LIT ''0'')),
     Some (STMT_WDO (EXPR_BIN (path ''k'') (Ch CHR ''<'') (path ''n''))
       (Some (STMT_ASSIGN (path ''k'') (EXPR_BIN (path ''k'') (Ch CHR ''+'') (EXPR_LIT ''1'')))))])"

lemma var_offI:
  assumes "stab_wf st" and "stab_resolve_var st x = Inr i" and "i \<noteq> -1" and "STAB_VAR st i = Inr v"
  shows "var_off st x = sv_stack_base_offset v"
  using resolve_env(1) [OF assms(1), of x] assms(2-3) STAB_VAR_Inr(2) [OF assms(1,4)]
  by (cases "env_of sc_vars st x") (auto simp: var_off_def)

definition place_of :: "stab \<Rightarrow> string \<Rightarrow> int result" where
  "place_of st x = bindr (stab_resolve_var st x) (\<lambda>i. if i = -1 then Inl Abort else
     bindr (STAB_VAR st i) (\<lambda>v. Inr (sv_stack_base_offset v)))"

lemma place_of_off: "stab_wf st \<Longrightarrow> place_of st x = Inr off \<Longrightarrow> var_off st x = off"
  by (auto simp: place_of_def var_offI split: if_splits)

lemma demo_places: "place_of (acx_st demo_body_cx) ''k'' = Inr 0" "place_of (acx_st demo_body_cx) ''n'' = Inr 16"
  by code_simp+

lemma demo_none_used: "rs_used (acx_rs demo_body_cx) = replicate NUM_REGS False"
  by code_simp

lemma demo_loop_ok: "is_ok (analyze_stmt demo_body_cx demo_loop)"
  by code_simp

lemma demo_loop_facts: "simple demo_loop" "stmt_regs demo_loop = 3" "stmt_vars demo_loop = {''k'', ''n''}"
  "calls_ok st (stmt_calls demo_loop)"
  by (auto simp: demo_loop_def path_def ast_path_new_def arith_fun_def is_digit_def calls_ok_def)

lemma demo_loop_order: "(0 :: 64 word) <s 3" "(1 :: 64 word) <s 3" "(2 :: 64 word) <s 3" "\<not> (3 :: 64 word) <s 3"
  by code_simp+

lemma demo_loop_runs: "env ''n'' = 3 \<Longrightarrow> srun (Suc (Suc (Suc (Suc 0)))) demo_loop (env, w) = Some (env(''k'' := 3), w)"
  by (simp add: demo_loop_def path_def ast_path_new_def arith_fun_def is_digit_def digits_value_def rel_op_def
      demo_loop_order)


section \<open>Programs\<close>


text \<open>
  \<open>program p(output); var k, n: integer;
  begin n := 3; k := 0; while k < n do begin writeln(k); k := k + 1 end end\<close>
\<close>

definition count_body :: "ast_stmt option" where
  "count_body = Some (STMT_STMTS [Some (STMT_PROC (ast_path_new ''writeln'') [path ''k'']),
     Some (STMT_ASSIGN (path ''k'') (EXPR_BIN (path ''k'') (Ch CHR ''+'') (EXPR_LIT ''1'')))])"

definition count_prog :: ast_program where
  "count_prog = ast_program_new ''p'' [''output''] [ast_decls_new [''k'', ''n''] TYPE_INTEGER] [] []
     (Some (STMT_STMTS [Some (STMT_ASSIGN (path ''n'') (EXPR_LIT ''3'')), Some (STMT_ASSIGN (path ''k'') (EXPR_LIT ''0'')),
       Some (STMT_WDO (EXPR_BIN (path ''k'') (Ch CHR ''<'') (path ''n'')) count_body)]))"

lemma count_prog_ok: "is_ok (analyze count_prog)"
  by code_simp

lemmas count_defs = path_def ast_path_new_def arith_fun_def is_digit_def digits_value_def

lemma count_prog_fields:
  "p_subprogs count_prog = []" "p_decls count_prog = [Decls [''k'', ''n''] TYPE_INTEGER]" "p_args count_prog = [''output'']"
  "p_body count_prog = Some (STMT_STMTS [Some (STMT_ASSIGN (path ''n'') (EXPR_LIT ''3'')),
     Some (STMT_ASSIGN (path ''k'') (EXPR_LIT ''0'')),
     Some (STMT_WDO (EXPR_BIN (path ''k'') (Ch CHR ''<'') (path ''n'')) count_body)])"
  by (simp_all add: count_prog_def ast_program_new_def ast_decls_new_def)

lemma count_prog_body:
  "simple (p_body count_prog)" "stmt_regs (p_body count_prog) = 3" "stmt_vars (p_body count_prog) = {''k'', ''n''}"
  by (auto simp: count_prog_fields count_body_def writes_def count_defs)

lemma count_text: "dec 0 = ''0''" "dec 1 = ''1''" "dec 2 = ''2''"
  by code_simp+

lemma count_prog_runs:
  "srun (Suc (Suc (Suc (Suc 0)))) (p_body count_prog) (env, w) =
     Some (env(''n'' := 3, ''k'' := 3), w @ ''0'' @ nl @ ''1'' @ nl @ ''2'' @ nl)"
  by (simp add: count_prog_fields count_body_def writes_def write_text_def newline_of_def rel_op_def demo_loop_order
      count_text count_defs)


end
