(* ===== verification/Scanner.thy ===== *)
theory Scanner
  imports Ast "HOL-Library.Char_ord"
begin

text \<open>
  The scanner (lexer.l). flex turns the rules of the file into a function that finds the longest prefix
  of the input that a pattern matches, the earlier rule winning a tie, and runs the rule's action. The
  rules, the actions and \<open>update_loc\<close> are those of the file; the matching is defined here with
  derivatives of patterns and shown to be that of flex (\<open>pick_spec\<close>). With \<open>%option full\<close> flex makes a
  scanner for 7-bit characters.
\<close>

section \<open>Patterns\<close>

datatype pat = Fail | Eps | Set "char \<Rightarrow> bool" | Seq pat pat | Or pat pat | Rep pat

inductive matches :: "pat \<Rightarrow> string \<Rightarrow> bool" where
  eps: "matches Eps []"
| char: "P c \<Longrightarrow> matches (Set P) [c]"
| seq: "matches p v \<Longrightarrow> matches q w \<Longrightarrow> matches (Seq p q) (v @ w)"
| or1: "matches p w \<Longrightarrow> matches (Or p q) w"
| or2: "matches q w \<Longrightarrow> matches (Or p q) w"
| rep0: "matches (Rep p) []"
| rep1: "matches p v \<Longrightarrow> matches (Rep p) w \<Longrightarrow> matches (Rep p) (v @ w)"

inductive_simps matches_simps [simp]: "matches Fail w" "matches Eps w" "matches (Set P) w" "matches (Seq p q) w"
  "matches (Or p q) w"

fun nullable :: "pat \<Rightarrow> bool" where
  "nullable Fail = False"
| "nullable Eps = True"
| "nullable (Set P) = False"
| "nullable (Seq p q) = (nullable p \<and> nullable q)"
| "nullable (Or p q) = (nullable p \<or> nullable q)"
| "nullable (Rep p) = True"

fun seq_of :: "pat \<Rightarrow> pat \<Rightarrow> pat" where
  "seq_of Fail q = Fail"
| "seq_of Eps q = q"
| "seq_of p q = Seq p q"

fun or_of :: "pat \<Rightarrow> pat \<Rightarrow> pat" where
  "or_of Fail q = q"
| "or_of p Fail = p"
| "or_of p q = Or p q"

fun after :: "char \<Rightarrow> pat \<Rightarrow> pat" where
  "after c Fail = Fail"
| "after c Eps = Fail"
| "after c (Set P) = (if P c then Eps else Fail)"
| "after c (Seq p q) = or_of (seq_of (after c p) q) (if nullable p then after c q else Fail)"
| "after c (Or p q) = or_of (after c p) (after c q)"
| "after c (Rep p) = seq_of (after c p) (Rep p)"

lemma matches_seq_of [simp]: "matches (seq_of p q) w \<longleftrightarrow> matches (Seq p q) w"
  by (cases p) auto

lemma matches_or_of [simp]: "matches (or_of p q) w \<longleftrightarrow> matches (Or p q) w"
  by (cases "(p, q)" rule: or_of.cases) auto

lemma matches_nullable: "matches p [] \<longleftrightarrow> nullable p"
  by (induction p) (auto intro: rep0)

lemma matches_rep_Cons: "matches (Rep p) (c # w) \<longleftrightarrow> (\<exists>v u. w = v @ u \<and> matches p (c # v) \<and> matches (Rep p) u)"
proof
  have "\<exists>v u. w = v @ u \<and> matches p (c # v) \<and> matches (Rep p) u" if "matches r x" "r = Rep p" "x = c # w" for r x
    using that
  proof (induction arbitrary: w rule: matches.induct)
    case (rep1 p' v w')
    then show ?case by (cases v) auto
  qed auto
  then show "matches (Rep p) (c # w) \<Longrightarrow> \<exists>v u. w = v @ u \<and> matches p (c # v) \<and> matches (Rep p) u" by blast
qed (use rep1 in fastforce)

lemma matches_after: "matches (after c p) w \<longleftrightarrow> matches p (c # w)"
proof (induction p arbitrary: w)
  case (Seq p q)
  have "matches (Seq p q) (c # w) \<longleftrightarrow> (\<exists>v u. w = v @ u \<and> matches p (c # v) \<and> matches q u) \<or> nullable p \<and> matches q (c # w)"
    using matches_nullable [of p] by (auto simp: Cons_eq_append_conv)
  with Seq show ?case by auto
next
  case (Rep p)
  then show ?case by (auto simp: matches_rep_Cons)
qed auto

text \<open>The longest prefix that matches, and the rule that wins.\<close>

fun longest :: "pat \<Rightarrow> string \<Rightarrow> nat option" where
  "longest p [] = (if nullable p then Some 0 else None)"
| "longest p (c # s) = (case (if p = Fail then None else longest (after c p) s) of
     Some n \<Rightarrow> Some (Suc n) | None \<Rightarrow> if nullable p then Some 0 else None)"

lemma matches_Fail: "\<not> matches Fail w"
  by simp

lemma longest_of:
  assumes "n \<le> length s" and "matches p (take n s)"
  obtains k where "k \<le> length s \<and> matches p (take k s) \<and> (\<forall>m. k < m \<longrightarrow> m \<le> length s \<longrightarrow> \<not> matches p (take m s))"
proof -
  let ?M = "{k. k \<le> length s \<and> matches p (take k s)}"
  have fin: "finite ?M" "n \<in> ?M" using assms by simp_all
  then have "Max ?M \<in> ?M" using Max_in by blast
  moreover have "\<not> matches p (take k s)" if "Max ?M < k" "k \<le> length s" for k
    using Max_ge [OF fin(1), of k] that by fastforce
  ultimately show thesis using that by blast
qed

lemma longest_spec:
  "longest p s = Some n \<longleftrightarrow> n \<le> length s \<and> matches p (take n s) \<and> (\<forall>m. n < m \<longrightarrow> m \<le> length s \<longrightarrow> \<not> matches p (take m s))"
proof (induction s arbitrary: p n)
  case Nil
  then show ?case by (auto simp: matches_nullable)
next
  case (Cons c s)
  have l: "(if p = Fail then None else longest (after c p) s) = longest (after c p) s"
    using Cons.IH [of Fail] by (cases "longest Fail s") auto
  have all: "(\<forall>m. 0 < m \<longrightarrow> m \<le> length (c # s) \<longrightarrow> \<not> matches p (take m (c # s)))
      \<longleftrightarrow> (\<forall>m. m \<le> length s \<longrightarrow> \<not> matches (after c p) (take m s))"
    by (auto simp: matches_after gr0_conv_Suc)
  show ?case
  proof (cases "longest (after c p) s")
    case None
    have "\<not> matches (after c p) (take m s)" if "m \<le> length s" for m
      using longest_of [of m s "after c p"] None that unfolding Cons.IH [symmetric] by force
    then show ?thesis using None l all
      by (cases n) (auto simp: matches_nullable matches_after)
  next
    case (Some k)
    note k = Some [unfolded Cons.IH]
    show ?thesis
    proof (cases n)
      case 0
      then show ?thesis using Some l all k by auto
    next
      case (Suc n')
      have "(\<forall>m. Suc n' < m \<longrightarrow> m \<le> length (c # s) \<longrightarrow> \<not> matches p (take m (c # s)))
          \<longleftrightarrow> (\<forall>m. n' < m \<longrightarrow> m \<le> length s \<longrightarrow> \<not> matches (after c p) (take m s))"
        by (auto simp: matches_after Suc_less_eq2)
      then show ?thesis using Some l Cons.IH [of "after c p" n'] by (simp add: Suc matches_after)
    qed
  qed
qed

fun pick :: "(pat \<times> 'a) list \<Rightarrow> string \<Rightarrow> (nat \<times> 'a) option" where
  "pick [] s = None"
| "pick ((p, a) # rs) s = (case longest p s of
     None \<Rightarrow> pick rs s
   | Some n \<Rightarrow> (case pick rs s of
       None \<Rightarrow> Some (n, a)
     | Some (m, b) \<Rightarrow> if n < m then Some (m, b) else Some (n, a)))"

lemma longest_None: "longest p s = None \<Longrightarrow> n \<le> length s \<Longrightarrow> \<not> matches p (take n s)"
  using longest_of [of n s p] unfolding longest_spec [symmetric] by force

lemma pick_None: "pick rs s = None \<longleftrightarrow> (\<forall>(p, a) \<in> set rs. longest p s = None)"
  by (induction rs) (auto split: option.splits if_splits)

text \<open>No rule matches more, and no earlier rule as much.\<close>

lemma pick_spec:
  assumes "pick rs s = Some (n, a)"
  obtains xs p ys where "rs = xs @ (p, a) # ys" "longest p s = Some n"
    "\<forall>(q, b) \<in> set xs. \<forall>m. longest q s = Some m \<longrightarrow> m < n" "\<forall>(q, b) \<in> set ys. \<forall>m. longest q s = Some m \<longrightarrow> m \<le> n"
  using assms
proof (induction rs arbitrary: n a thesis)
  case (Cons r rs)
  obtain p b where r: "r = (p, b)" by fastforce
  show ?case
  proof (cases "longest p s")
    case None
    with Cons.prems(2) have "pick rs s = Some (n, a)" by (simp add: r)
    from Cons.IH [OF _ this] obtain xs q ys where
      "rs = xs @ (q, a) # ys" "longest q s = Some n" "\<forall>(q, b) \<in> set xs. \<forall>m. longest q s = Some m \<longrightarrow> m < n"
      "\<forall>(q, b) \<in> set ys. \<forall>m. longest q s = Some m \<longrightarrow> m \<le> n" by blast
    with Cons.prems(1) [of "r # xs" q ys] None show ?thesis by (simp add: r)
  next
    case (Some k)
    show ?thesis
    proof (cases "pick rs s")
      case None
      with Some Cons.prems(2) have "n = k" "a = b" "\<forall>(q, b) \<in> set rs. longest q s = None"
        by (simp_all add: r pick_None)
      then show ?thesis using Some by (intro Cons.prems(1) [of "[]" p rs]) (auto simp: r)
    next
      case m: (Some mb)
      obtain m c where mb: "mb = (m, c)" by fastforce
      from Cons.IH [OF _ m [unfolded mb]] obtain xs q ys where
        q: "rs = xs @ (q, c) # ys" "longest q s = Some m" "\<forall>(q, b) \<in> set xs. \<forall>k. longest q s = Some k \<longrightarrow> k < m"
        "\<forall>(q, b) \<in> set ys. \<forall>k. longest q s = Some k \<longrightarrow> k \<le> m" by blast
      show ?thesis
      proof (cases "k < m")
        case True
        with Some m mb Cons.prems(2) have "n = m" "a = c" by (simp_all add: r)
        with q True Some Cons.prems(1) [of "r # xs" q ys] show ?thesis by (simp add: r)
      next
        case False
        with Some m mb Cons.prems(2) have "n = k" "a = b" by (simp_all add: r)
        moreover have "\<forall>(q, b) \<in> set rs. \<forall>k'. longest q s = Some k' \<longrightarrow> k' \<le> k"
          using q False by fastforce
        ultimately show ?thesis using Some Cons.prems(1) [of "[]" p rs] by (simp add: r)
      qed
    qed
  qed
qed simp

lemma pick_first:
  assumes "\<forall>(p, a) \<in> set rs. \<forall>m. longest p s = Some m \<longrightarrow> m \<le> n" and "n \<le> length s"
    and "find (\<lambda>r. matches (fst r) (take n s)) rs = Some (p, a)"
  shows "pick rs s = Some (n, a)"
  using assms(1,3)
proof (induction rs)
  case (Cons r rs)
  obtain q b where r: "r = (q, b)" by fastforce
  have *: "\<forall>m b. pick rs s = Some (m, b) \<longrightarrow> m \<le> n"
    using Cons.prems(1) by (fastforce elim: pick_spec)
  show ?case
  proof (cases "matches q (take n s)")
    case True
    have "longest q s = Some n"
    proof (cases "longest q s")
      case None
      then show ?thesis using longest_None True assms(2) by blast
    next
      case (Some m)
      then have "m \<le> n" using Cons.prems(1) by (simp add: r)
      moreover have "\<not> m < n" using Some True assms(2) by (auto simp: longest_spec)
      ultimately show ?thesis using Some by simp
    qed
    with True Cons.prems(2) * show ?thesis by (auto simp: r split: option.splits)
  next
    case False
    then have "longest q s \<noteq> Some n" by (simp add: longest_spec)
    with False Cons show ?thesis by (force simp: r split: option.splits)
  qed
qed simp

section \<open>The rules of lexer.l\<close>

fun lit :: "string \<Rightarrow> pat" where
  "lit [] = Eps"
| "lit (c # w) = Seq (Set (\<lambda>x. x = c)) (lit w)"

definition some_of :: "pat \<Rightarrow> pat" where "some_of p = Seq p (Rep p)"
definition maybe :: "pat \<Rightarrow> pat" where "maybe p = Or p Eps"
definition dot :: pat where "dot = Set (\<lambda>c. c \<noteq> CHR 0x0A)"
definition newline :: pat where "newline = Set (\<lambda>c. c = CHR 0x0A)"

definition digit :: "char \<Rightarrow> bool" where
  "digit c \<longleftrightarrow> CHR ''0'' \<le> c \<and> c \<le> CHR ''9''"

definition letter :: "char \<Rightarrow> bool" where
  "letter c \<longleftrightarrow> CHR ''a'' \<le> c \<and> c \<le> CHR ''z'' \<or> CHR ''A'' \<le> c \<and> c \<le> CHR ''Z'' \<or> c = CHR ''_''"

definition number :: pat where
  "number = Seq (some_of (Set digit)) (Seq (maybe (Seq (lit ''.'') (some_of (Set digit))))
     (maybe (Seq (Set (\<lambda>c. c = CHR ''e'' \<or> c = CHR ''E''))
       (Seq (maybe (Or (lit ''+'') (lit ''-''))) (some_of (Set digit))))))"

definition name_pat :: pat where
  "name_pat = Seq (Set letter) (Rep (Set (\<lambda>c. letter c \<or> digit c)))"

definition reserved :: "(string \<times> token) list" where
  "reserved = [(''and'', T_AND), (''array'', T_ARRAY), (''begin'', T_TBEGIN), (''boolean'', T_BOOLEAN), (''char'', T_CHAR),
     (''div'', T_DIV), (''do'', T_DO), (''else'', T_ELSE), (''end'', T_END), (''for'', T_FOR), (''function'', T_FUNCTION),
     (''if'', T_IF), (''integer'', T_INTEGER), (''mod'', T_MOD), (''not'', T_NOT), (''of'', T_OF), (''or'', T_OR),
     (''procedure'', T_PROCEDURE), (''program'', T_PROGRAM), (''real'', T_REAL), (''record'', T_RECORD),
     (''string'', T_STRING), (''then'', T_THEN), (''to'', T_TO), (''type'', T_TYPE), (''var'', T_VAR), (''while'', T_WHILE)]"

definition operators :: "(string \<times> token) list" where
  "operators = [('':='', T_ASSIGNOP), (''<>'', T_NEQ), (''<='', T_LE), (''>='', T_GE), (''..'', T_DOTDOT)]"

text \<open>An action: no token (the scanner goes on), or the token made of the text. The character 0 is the token that ends the input.\<close>

type_synonym action = "string \<Rightarrow> token option"

definition char_token :: "char \<Rightarrow> token" where
  "char_token c = (if c = CHR 0x00 then TOK_EOF else Ch c)"

definition skips :: "(pat \<times> action) list" where
  "skips = [(Seq (lit ''{'') (Seq (Rep (Or dot newline)) (lit ''}'')), \<lambda>w. None),
     (Seq (lit ''(*'') (Seq (Rep (Or (Set (\<lambda>c. c \<noteq> CHR ''*'')) newline)) (lit ''*)'')), \<lambda>w. None),
     (Seq (lit ''//'') (Rep dot), \<lambda>w. None),
     (Set (\<lambda>c. c = CHR '' '' \<or> c = CHR 0x09 \<or> c = CHR 0x0A), \<lambda>w. None)]"

definition rules :: "(pat \<times> action) list" where
  "rules = skips @ map (\<lambda>(w, t). (lit w, \<lambda>_. Some t)) (reserved @ operators) @
     [(name_pat, \<lambda>w. Some (T_ID w)), (number, \<lambda>w. Some (T_NUM w)),
      (dot, \<lambda>w. Some (char_token (hd w)))]"

section \<open>Positions and tokens\<close>

text \<open>\<open>update_loc\<close>: its static variables are part of the state of the scanner.\<close>

record yyltype =
  first_line :: int
  first_column :: int
  last_line :: int
  last_column :: int

record scanner =
  sc_rest :: string
  curr_line :: int
  curr_col :: int

fun advance :: "string \<Rightarrow> int \<times> int \<Rightarrow> int \<times> int" where
  "advance [] p = p"
| "advance (c # s) (l, k) = (if c = CHR 0x00 then (l, k) else if c = CHR 0x0A then advance s (l + 1, 1) else advance s (l, k + 1))"

definition update_loc :: "scanner \<Rightarrow> string \<Rightarrow> yyltype \<times> scanner" where
  "update_loc sc w = (case advance w (curr_line sc, curr_col sc) of (l, k) \<Rightarrow>
     (\<lparr>first_line = curr_line sc, first_column = curr_col sc, last_line = l, last_column = k - 1\<rparr>,
      sc\<lparr>curr_line := l, curr_col := k\<rparr>))"

lemma rules_not_nullable: "\<forall>(p, a) \<in> set rules. \<not> nullable p"
  by (auto simp: rules_def skips_def reserved_def operators_def number_def name_pat_def some_of_def dot_def)

lemma pick_positive:
  assumes "pick rules s = Some (n, a)"
  shows "0 < n" "n \<le> length s"
proof -
  from assms obtain p where p: "(p, a) \<in> set rules" "longest p s = Some n"
    by (metis in_set_conv_decomp pick_spec)
  then show "n \<le> length s" by (simp add: longest_spec)
  have "\<not> nullable p" using p(1) rules_not_nullable by fast
  moreover have "matches p (take n s)" using p(2) by (simp add: longest_spec)
  ultimately show "0 < n" by (cases n) (auto simp: matches_nullable)
qed

lemma pick_shorter: "pick rules s = Some (n, a) \<Longrightarrow> length s - n < length s"
  using pick_positive [of s n a] by simp

text \<open>
  \<open>yylex\<close>: the actions run until one returns; at the end of the input 0 is returned. A character that
  no rule matches would be copied to the output by flex's default rule; there is none
  (\<open>pick_rules\<close>).
\<close>

function yylex :: "scanner \<Rightarrow> yyltype \<Rightarrow> token \<times> yyltype \<times> scanner" where
  "yylex sc loc = (case pick rules (sc_rest sc) of
     None \<Rightarrow> (if sc_rest sc = [] then (TOK_EOF, loc, sc) else yylex (sc\<lparr>sc_rest := tl (sc_rest sc)\<rparr>) loc)
   | Some (n, act) \<Rightarrow>
       (case update_loc sc (take n (sc_rest sc)) of (loc, sc1) \<Rightarrow>
        let sc2 = sc1\<lparr>sc_rest := drop n (sc_rest sc)\<rparr> in
        case act (take n (sc_rest sc)) of None \<Rightarrow> yylex sc2 loc | Some t \<Rightarrow> (t, loc, sc2)))"
  by pat_completeness auto
termination
  by (relation "measure (\<lambda>(sc, loc). length (sc_rest sc))")
    (auto simp: update_loc_def split: prod.splits dest: pick_shorter)

declare yylex.simps [simp del]

text \<open>A character is matched by some rule, so something is always found.\<close>

lemma pick_rules: "s \<noteq> [] \<Longrightarrow> \<exists>n act. pick rules s = Some (n, act)"
proof (rule ccontr)
  assume s: "s \<noteq> []" and "\<nexists>n act. pick rules s = Some (n, act)"
  then have "pick rules s = None" by (cases "pick rules s") auto
  then have none: "\<forall>(p, a) \<in> set rules. longest p s = None" by (simp add: pick_None)
  obtain c w where c: "s = c # w" using s by (cases s) auto
  have "longest (if c = CHR 0x0A then Set (\<lambda>c. c = CHR '' '' \<or> c = CHR 0x09 \<or> c = CHR 0x0A) else dot) s = None"
    using none by (auto simp: rules_def skips_def)
  from longest_None [OF this, of 1] show False by (simp add: c dot_def split: if_splits)
qed

lemma yylex_end [simp]: "sc_rest sc = [] \<Longrightarrow> yylex sc loc = (TOK_EOF, loc, sc)"
  using pick_positive [of "[]"] by (subst yylex.simps) (auto split: option.splits)

lemma yylex_decreases: "yylex sc loc = (t, loc', sc') \<Longrightarrow> length (sc_rest sc') \<le> length (sc_rest sc)
   \<and> (t \<noteq> TOK_EOF \<longrightarrow> length (sc_rest sc') < length (sc_rest sc))"
proof (induction sc loc rule: yylex.induct)
  case (1 sc loc)
  show ?case
  proof (cases "sc_rest sc = []")
    case False
    then obtain n act where p: "pick rules (sc_rest sc) = Some (n, act)" using pick_rules by blast
    note n = pick_positive [OF p]
    obtain loc1 sc1 where u: "update_loc sc (take n (sc_rest sc)) = (loc1, sc1)" by fastforce
    let ?sc = "sc1\<lparr>sc_rest := drop n (sc_rest sc)\<rparr>"
    show ?thesis
    proof (cases "act (take n (sc_rest sc))")
      case None
      have "length (sc_rest ?sc) < length (sc_rest sc)" using n by simp
      moreover have "yylex ?sc loc1 = (t, loc', sc')" using "1.prems" None p u by (subst (asm) yylex.simps) simp
      ultimately show ?thesis using "1.IH"(2) [OF p HOL.refl u [symmetric] HOL.refl None] by fastforce
    next
      case (Some t')
      then have "sc' = ?sc" using "1.prems" p u by (subst (asm) yylex.simps) simp
      then show ?thesis using pick_shorter [OF p] by simp
    qed
  qed (use "1.prems" in simp)
qed

text \<open>
  The tokens of a text before the first 0, as in the loop of driver.c that prints them: \<open>yylex\<close> is called
  until it returns 0. The second component is the scanner's state at the end.
\<close>

function scan_from :: "scanner \<Rightarrow> yyltype \<Rightarrow> (token \<times> yyltype) list \<times> scanner" where
  "scan_from sc loc = (case yylex sc loc of (t, loc, sc) \<Rightarrow>
     if t = TOK_EOF then ([], sc) else case scan_from sc loc of (ts, sc) \<Rightarrow> ((t, loc) # ts, sc))"
  by pat_completeness auto
termination
  by (relation "measure (\<lambda>(sc, loc). length (sc_rest sc))") (auto dest: yylex_decreases [OF sym])

declare scan_from.simps [simp del]

definition no_loc :: yyltype where
  "no_loc = \<lparr>first_line = 0, first_column = 0, last_line = 0, last_column = 0\<rparr>"

definition fresh_scanner :: "string \<Rightarrow> scanner" where
  "fresh_scanner src = \<lparr>sc_rest = src, curr_line = 1, curr_col = 1\<rparr>"

definition scan :: "string \<Rightarrow> token list" where
  "scan src = map fst (fst (scan_from (fresh_scanner src) no_loc))"

end
