(* ===== verification/Scanning.thy ===== *)
theory Scanning
  imports Scanner
begin

text \<open>
  The properties of the scanner: it implements the reading of rules that flex documents, finds the
  tokens of a text written with blanks between them, keeps track of positions, and takes everything up
  to the last closing brace of a text for one comment.
\<close>

section \<open>One lexeme at a time\<close>

text \<open>The tokens of a text without their positions.\<close>

function tokens_of :: "string \<Rightarrow> token list" where
  "tokens_of s = (case pick rules s of None \<Rightarrow> [] | Some (n, act) \<Rightarrow>
     (case act (take n s) of
        None \<Rightarrow> tokens_of (drop n s)
      | Some t \<Rightarrow> if t = TOK_EOF then [] else t # tokens_of (drop n s)))"
  by pat_completeness auto
termination
  by (relation "measure length") (auto dest: pick_shorter)

declare tokens_of.simps [simp del]

lemma pick_end [simp]: "pick rules [] = None"
  using pick_positive [of "[]"] by (cases "pick rules []") auto

lemma tokens_of_Nil [simp]: "tokens_of [] = []"
  by (simp add: tokens_of.simps)

lemma update_loc_rest [simp]: "update_loc sc w = (loc, sc1) \<Longrightarrow> sc_rest sc1 = sc_rest sc"
  by (auto simp: update_loc_def split: prod.splits)

text \<open>One call of \<open>yylex\<close>: it stops at the first action that returns a token.\<close>

lemma yylex_tokens:
  "yylex sc loc = (t, loc', sc') \<Longrightarrow>
   tokens_of (sc_rest sc) = (if t = TOK_EOF then [] else t # tokens_of (sc_rest sc'))"
proof (induction sc loc rule: yylex.induct)
  case (1 sc loc)
  show ?case
  proof (cases "sc_rest sc = []")
    case False
    then obtain n act where p: "pick rules (sc_rest sc) = Some (n, act)" using pick_rules by blast
    obtain loc1 sc1 where u: "update_loc sc (take n (sc_rest sc)) = (loc1, sc1)" by fastforce
    let ?sc = "sc1\<lparr>sc_rest := drop n (sc_rest sc)\<rparr>"
    have t: "tokens_of (sc_rest sc) = (case act (take n (sc_rest sc)) of
        None \<Rightarrow> tokens_of (drop n (sc_rest sc))
      | Some t \<Rightarrow> if t = TOK_EOF then [] else t # tokens_of (drop n (sc_rest sc)))"
      using p by (subst tokens_of.simps) simp
    show ?thesis
    proof (cases "act (take n (sc_rest sc))")
      case None
      have "yylex ?sc loc1 = (t, loc', sc')" using "1.prems" None p u by (subst (asm) yylex.simps) simp
      from "1.IH"(2) [OF p HOL.refl u [symmetric] HOL.refl None this] None t show ?thesis by simp
    next
      case (Some t')
      then have "sc' = ?sc" "t' = t" using "1.prems" p u by (subst (asm) yylex.simps, simp)+
      then show ?thesis using Some t by simp
    qed
  qed (use "1.prems" in simp)
qed

lemma scan_from_tokens: "map fst (fst (scan_from sc loc)) = tokens_of (sc_rest sc)"
proof (induction sc loc rule: scan_from.induct)
  case (1 sc loc)
  obtain t loc1 sc1 where y: "yylex sc loc = (t, loc1, sc1)" by (cases "yylex sc loc") auto
  show ?case
  proof (cases "t = TOK_EOF")
    case True
    then show ?thesis using y yylex_tokens [OF y] by (subst scan_from.simps) simp
  next
    case False
    obtain ts sc2 where "scan_from sc1 loc1 = (ts, sc2)" by fastforce
    with 1 [OF y [symmetric] HOL.refl False] yylex_tokens [OF y] y False show ?thesis
      by (subst scan_from.simps) simp
  qed
qed

lemma scan_tokens: "scan s = tokens_of s"
  by (simp add: scan_def scan_from_tokens fresh_scanner_def)

section \<open>What flex promises\<close>

lemma find_behind: "find P xs = None \<Longrightarrow> find P (xs @ ys) = find P ys"
  by (induction xs) (auto split: if_splits)

text \<open>
  At \<open>s\<close> the action \<open>a\<close> is run on \<open>n\<close> characters: a rule matches them, no rule matches more, and no
  earlier rule matches them too.
\<close>

definition chosen :: "string \<Rightarrow> nat \<Rightarrow> action \<Rightarrow> bool" where
  "chosen s n a \<longleftrightarrow> n \<le> length s \<and> (\<exists>xs p ys. rules = xs @ (p, a) # ys \<and> matches p (take n s)
     \<and> (\<forall>(q, b) \<in> set rules. \<forall>m. n < m \<longrightarrow> m \<le> length s \<longrightarrow> \<not> matches q (take m s))
     \<and> (\<forall>(q, b) \<in> set xs. \<not> matches q (take n s)))"

lemma longest_unless:
  "\<forall>m. longest q s = Some m \<longrightarrow> m \<le> n \<Longrightarrow> n < k \<Longrightarrow> k \<le> length s \<Longrightarrow> \<not> matches q (take k s)"
proof
  assume *: "\<forall>m. longest q s = Some m \<longrightarrow> m \<le> n" "n < k" "k \<le> length s" "matches q (take k s)"
  from longest_of [OF *(3,4)] obtain j where j: "longest q s = Some j" unfolding longest_spec by metis
  with * have "j < k" by fastforce
  with j * show False by (simp add: longest_spec)
qed

lemma pick_chosen: "pick rules s = Some (n, a) \<longleftrightarrow> chosen s n a"
proof
  assume "pick rules s = Some (n, a)"
  then obtain xs p ys where p: "rules = xs @ (p, a) # ys" "longest p s = Some n"
    "\<forall>(q, b) \<in> set xs. \<forall>m. longest q s = Some m \<longrightarrow> m < n" "\<forall>(q, b) \<in> set ys. \<forall>m. longest q s = Some m \<longrightarrow> m \<le> n"
    by (rule pick_spec)
  have "\<forall>m. longest q s = Some m \<longrightarrow> m \<le> n" if "(q, b) \<in> set rules" for q b
  proof -
    from that [unfolded p(1)] consider "(q, b) \<in> set xs" | "q = p" | "(q, b) \<in> set ys" by fastforce
    then show ?thesis
    proof cases
      case 1
      with p(3) show ?thesis by (fast dest: less_imp_le)
    next
      case 3
      with p(4) show ?thesis by fast
    qed (use p(2) in simp)
  qed
  then have "\<forall>(q, b) \<in> set rules. \<forall>m. n < m \<longrightarrow> m \<le> length s \<longrightarrow> \<not> matches q (take m s)"
    using longest_unless [of _ s n] by blast
  moreover have "\<not> matches q (take n s)" if "(q, b) \<in> set xs" for q b
  proof
    assume "matches q (take n s)"
    moreover have "n \<le> length s" using p(2) by (simp add: longest_spec)
    ultimately obtain k where k: "longest q s = Some k"
      using longest_of [of n s q] unfolding longest_spec [symmetric] by metis
    then have "k < n" using p(3) that by fast
    with k \<open>matches q (take n s)\<close> \<open>n \<le> length s\<close> show False by (simp add: longest_spec)
  qed
  moreover have "n \<le> length s" "matches p (take n s)" using p(2) by (simp_all add: longest_spec)
  ultimately show "chosen s n a" unfolding chosen_def using p(1) by blast
next
  assume "chosen s n a"
  then obtain xs p ys where p: "n \<le> length s" "rules = xs @ (p, a) # ys" "matches p (take n s)"
    "\<forall>(q, b) \<in> set rules. \<forall>m. n < m \<longrightarrow> m \<le> length s \<longrightarrow> \<not> matches q (take m s)"
    "\<forall>(q, b) \<in> set xs. \<not> matches q (take n s)" by (auto simp: chosen_def)
  have most: "\<forall>(q, b) \<in> set rules. \<forall>m. longest q s = Some m \<longrightarrow> m \<le> n"
    using p(4) by (fastforce simp: longest_spec not_le [symmetric])
  have first: "find (\<lambda>r. matches (fst r) (take n s)) rules = Some (p, a)"
  proof -
    have "find (\<lambda>r. matches (fst r) (take n s)) xs = None" using p(5) by (auto simp: find_None_iff)
    then show ?thesis using p(3) by (simp add: p(2) find_behind)
  qed
  show "pick rules s = Some (n, a)" by (rule pick_first [OF most p(1) first])
qed

inductive tokenizes :: "string \<Rightarrow> token list \<Rightarrow> bool" where
  at_end: "tokenizes [] []"
| skipped: "chosen s n a \<Longrightarrow> a (take n s) = None \<Longrightarrow> tokenizes (drop n s) ts \<Longrightarrow> tokenizes s ts"
| stops: "chosen s n a \<Longrightarrow> a (take n s) = Some TOK_EOF \<Longrightarrow> tokenizes s []"
| token: "chosen s n a \<Longrightarrow> a (take n s) = Some t \<Longrightarrow> t \<noteq> TOK_EOF \<Longrightarrow> tokenizes (drop n s) ts \<Longrightarrow> tokenizes s (t # ts)"

text \<open>C16. The scanner gives every text exactly one list of tokens, the one that flex's reading of the
  rules gives: always the longest match, of the first rule that has it, until the input ends or an
  action returns 0.\<close>

theorem scan_tokenizes: "tokenizes s ts \<longleftrightarrow> scan s = ts"
proof
  show "scan s = ts" if "tokenizes s ts"
    unfolding scan_tokens using that
    by induction (subst tokens_of.simps, simp add: pick_chosen [symmetric])+
  have "tokenizes s (tokens_of s)" for s
  proof (induction s rule: tokens_of.induct)
    case (1 s)
    show ?case
    proof (cases "pick rules s")
      case None
      then have "s = []" using pick_rules by force
      then show ?thesis by (simp add: at_end)
    next
      case (Some na)
      obtain n act where p: "pick rules s = Some (n, act)" using Some by (cases na) auto
      note c = p [unfolded pick_chosen]
      have t: "tokens_of s = (case act (take n s) of None \<Rightarrow> tokens_of (drop n s)
          | Some t \<Rightarrow> if t = TOK_EOF then [] else t # tokens_of (drop n s))"
        using p by (subst tokens_of.simps) simp
      show ?thesis
      proof (cases "act (take n s)")
        case None
        with skipped [OF c None "1.IH"(1) [OF p HOL.refl None]] t show ?thesis by simp
      next
        case (Some t')
        with stops [OF c] token [OF c Some _ "1.IH"(2) [OF p HOL.refl Some]] t show ?thesis by simp
      qed
    qed
  qed
  then show "tokenizes s ts" if "scan s = ts" using that by (auto simp: scan_tokens)
qed

section \<open>Comments\<close>

lemma matches_lit [simp]: "matches (lit k) w \<longleftrightarrow> w = k"
  by (induction k arbitrary: w) auto

text \<open>The words of a pattern all of whose characters satisfy \<open>P\<close>.\<close>

fun over :: "(char \<Rightarrow> bool) \<Rightarrow> pat \<Rightarrow> bool" where
  "over P (Set Q) = (\<forall>c. Q c \<longrightarrow> P c)"
| "over P (Seq p q) = (over P p \<and> over P q)"
| "over P (Or p q) = (over P p \<and> over P q)"
| "over P (Rep p) = over P p"
| "over P _ = True"

lemma over_matches: "matches p w \<Longrightarrow> over P p \<Longrightarrow> list_all P w"
  by (induction rule: matches.induct) auto

lemma matches_rep_set: "matches (Rep (Set P)) w \<longleftrightarrow> list_all P w"
proof
  show "matches (Rep (Set P)) w \<Longrightarrow> list_all P w"
    using over_matches [of "Rep (Set P)" w P] by simp
  show "list_all P w \<Longrightarrow> matches (Rep (Set P)) w"
  proof (induction w)
    case (Cons c w)
    then show ?case using rep1 [of "Set P" "[c]" w] by simp
  qed (simp add: rep0)
qed

lemma matches_rep_any: "matches (Rep (Or (Set P) (Set Q))) w \<longleftrightarrow> list_all (\<lambda>c. P c \<or> Q c) w"
proof
  show "matches (Rep (Or (Set P) (Set Q))) w \<Longrightarrow> list_all (\<lambda>c. P c \<or> Q c) w"
    using over_matches [of "Rep (Or (Set P) (Set Q))" w "\<lambda>c. P c \<or> Q c"] by simp
  show "list_all (\<lambda>c. P c \<or> Q c) w \<Longrightarrow> matches (Rep (Or (Set P) (Set Q))) w"
  proof (induction w)
    case (Cons c w)
    then show ?case using rep1 [of "Or (Set P) (Set Q)" "[c]" w] by simp
  qed (simp add: rep0)
qed

text \<open>A rule matches something that starts with a brace only if it is the rule of comments or the one of characters.\<close>

lemma brace_rules:
  assumes "(q, b) \<in> set rules" and "matches q (CHR ''{'' # w)"
  shows "(\<exists>v. w = v @ ''}'') \<or> w = []"
  using assms by (auto simp: rules_def skips_def reserved_def operators_def number_def name_pat_def some_of_def dot_def letter_def digit_def)

lemma rule_brace: "(fst (skips ! 0), \<lambda>w. None) \<in> set rules" "rules = (fst (skips ! 0), \<lambda>w. None) # tl rules"
  by (simp_all add: rules_def skips_def)

lemma rule_brace_matches: "matches (fst (skips ! 0)) (''{'' @ a @ ''}'')"
proof -
  have "list_all (\<lambda>c. c \<noteq> CHR 0x0A \<or> c = CHR 0x0A) a" by (induction a) auto
  then have "matches (Rep (Or dot newline)) a" unfolding dot_def newline_def matches_rep_any .
  then show ?thesis by (auto simp: skips_def)
qed

text \<open>C20. A comment in braces ends at the last closing brace of the text, not at the next one: everything
  between, further comments and the program text around them, is skipped.\<close>

theorem comment_to_last_brace:
  assumes "CHR ''}'' \<notin> set b"
  shows "scan (''{'' @ a @ ''}'' @ b) = scan b"
proof -
  let ?s = "''{'' @ a @ ''}'' @ b" and ?n = "length (''{'' @ a @ ''}'')"
  have "m \<le> ?n" if "(q, c) \<in> set rules" "longest q ?s = Some m" for q c m
  proof (rule ccontr)
    assume m: "\<not> m \<le> ?n"
    have "take m (u @ b) = u @ take (m - length u) b" if "\<not> m \<le> length u" for u :: string using that by simp
    from this [OF m] have t: "take m ?s = CHR ''{'' # a @ ''}'' @ take (m - ?n) b" by simp
    have le: "m \<le> length ?s" and "matches q (take m ?s)" using that(2) unfolding longest_spec by blast+
    then have "matches q (CHR ''{'' # a @ ''}'' @ take (m - ?n) b)" unfolding t by blast
    with brace_rules [OF that(1)] have "\<exists>v. a @ ''}'' @ take (m - ?n) b = v @ ''}''" by fastforce
    then have "last (a @ ''}'' @ take (m - ?n) b) = CHR ''}''" by fastforce
    moreover have "take (m - ?n) b \<noteq> []" using m le by (cases b) auto
    ultimately have "CHR ''}'' \<in> set (take (m - ?n) b)" by (metis append_is_Nil_conv last_appendR last_in_set)
    with assms show False by (auto dest: in_set_takeD)
  qed
  moreover have "take ?n ?s = ''{'' @ a @ ''}''" by simp
  then have "find (\<lambda>r. matches (fst r) (take ?n ?s)) rules = Some (fst (skips ! 0), \<lambda>w. None)"
    using rule_brace_matches [of a] by (subst rule_brace(2)) simp
  ultimately have "pick rules ?s = Some (?n, \<lambda>w. None)" by (intro pick_first) auto
  then show ?thesis unfolding scan_tokens by (subst tokens_of.simps) simp
qed

theorem comment_to_last_brace_witness:
  "scan ''{ count } n := 3 { stop } .'' = [Ch CHR ''.'']"
proof -
  have "scan ''.'' = [Ch CHR ''.'']" "scan '' .'' = scan ''.''" unfolding scan_tokens by code_simp+
  then show ?thesis using comment_to_last_brace [of "'' .''" "'' count } n := 3 { stop ''"] by simp
qed

section \<open>Positions\<close>

text \<open>The position behind a text: lines and columns count from 1.\<close>

definition position :: "string \<Rightarrow> int \<times> int" where
  "position w = (1 + int (length (filter (\<lambda>c. c = CHR 0x0A) w)), 1 + int (length (takeWhile (\<lambda>c. c \<noteq> CHR 0x0A) (rev w))))"

lemma advance_position: "CHR 0x00 \<notin> set w \<Longrightarrow> advance w (position v) = position (v @ w)"
proof (induction w arbitrary: v)
  case (Cons c w)
  have "advance (c # w) (position v) = advance w (position (v @ [c]))"
    using Cons.prems by (auto simp: position_def)
  with Cons.IH [of "v @ [c]"] Cons.prems show ?case by simp
qed simp

lemma pick_rule: "pick rules s = Some (n, a) \<Longrightarrow> \<exists>p. (p, a) \<in> set rules \<and> matches p (take n s)"
  unfolding pick_chosen chosen_def by (metis in_set_conv_decomp)

lemma zero_token: "(p, a) \<in> set rules \<Longrightarrow> matches p w \<Longrightarrow> a w = Some TOK_EOF \<Longrightarrow> CHR 0x00 \<in> set w"
  by (auto simp: rules_def skips_def reserved_def operators_def char_token_def dot_def split: if_splits)

text \<open>What is true of a token: its rule was chosen at \<open>k\<close>, and its location is that of its first and last character.\<close>

definition token_at :: "string \<Rightarrow> string \<Rightarrow> nat \<Rightarrow> nat \<Rightarrow> token \<Rightarrow> yyltype \<Rightarrow> bool" where
  "token_at v s k n t loc \<longleftrightarrow> k + n \<le> length s \<and> (\<exists>act. chosen (drop k s) n act \<and> act (take n (drop k s)) = Some t)
     \<and> (first_line loc, first_column loc) = position (v @ take k s)
     \<and> (last_line loc, last_column loc + 1) = position (v @ take (k + n) s)"

lemma token_at_later: "token_at (v @ take n s) (drop n s) k m t loc \<Longrightarrow> n \<le> length s \<Longrightarrow> token_at v s (n + k) m t loc"
  unfolding token_at_def drop_drop add.commute [of k n] append_assoc take_add [symmetric] add.assoc by auto

lemma update_loc_position:
  assumes "(curr_line sc, curr_col sc) = position v" and "CHR 0x00 \<notin> set w" and "update_loc sc w = (loc, sc1)"
  shows "(first_line loc, first_column loc) = position v" "(last_line loc, last_column loc + 1) = position (v @ w)"
    "(curr_line sc1, curr_col sc1) = position (v @ w)"
proof -
  obtain l k where p: "position (v @ w) = (l, k)" by fastforce
  then have "advance w (curr_line sc, curr_col sc) = (l, k)" unfolding assms(1) advance_position [OF assms(2)] .
  then show "(first_line loc, first_column loc) = position v" "(last_line loc, last_column loc + 1) = position (v @ w)"
    "(curr_line sc1, curr_col sc1) = position (v @ w)"
    using assms(3) unfolding p assms(1) [symmetric] by (auto simp: update_loc_def)
qed

lemma yylex_positions:
  "yylex sc loc = (t, loc', sc') \<Longrightarrow> (curr_line sc, curr_col sc) = position v \<Longrightarrow> CHR 0x00 \<notin> set (sc_rest sc) \<Longrightarrow>
   \<exists>j. j \<le> length (sc_rest sc) \<and> sc_rest sc' = drop j (sc_rest sc)
     \<and> (curr_line sc', curr_col sc') = position (v @ take j (sc_rest sc))
     \<and> (if t = TOK_EOF then j = length (sc_rest sc) else \<exists>k n. token_at v (sc_rest sc) k n t loc')"
proof (induction sc loc arbitrary: v rule: yylex.induct)
  case (1 sc loc)
  let ?s = "sc_rest sc"
  show ?case
  proof (cases "?s = []")
    case False
    then obtain n act where p: "pick rules ?s = Some (n, act)" using pick_rules by blast
    note n = pick_positive [OF p]
    obtain loc1 sc1 where u: "update_loc sc (take n ?s) = (loc1, sc1)" by fastforce
    let ?sc = "sc1\<lparr>sc_rest := drop n ?s\<rparr>"
    have no: "CHR 0x00 \<notin> set (take n ?s)" "CHR 0x00 \<notin> set (drop n ?s)"
      using "1.prems"(3) by (auto dest: in_set_takeD in_set_dropD)
    note loc = update_loc_position [OF "1.prems"(2) no(1) u]
    show ?thesis
    proof (cases "act (take n ?s)")
      case None
      have y: "yylex ?sc loc1 = (t, loc', sc')" using "1.prems"(1) None p u by (subst (asm) yylex.simps) simp
      have sc: "sc_rest ?sc = drop n ?s" "(curr_line ?sc, curr_col ?sc) = position (v @ take n ?s)"
        "CHR 0x00 \<notin> set (sc_rest ?sc)" using loc(3) no(2) by simp_all
      from "1.IH"(2) [OF p HOL.refl u [symmetric] HOL.refl None y sc(2,3), unfolded sc(1)]
      obtain j where j: "j \<le> length (drop n ?s)" "sc_rest sc' = drop j (drop n ?s)"
        "(curr_line sc', curr_col sc') = position ((v @ take n ?s) @ take j (drop n ?s))"
        "if t = TOK_EOF then j = length (drop n ?s) else \<exists>k m. token_at (v @ take n ?s) (drop n ?s) k m t loc'" by blast
      have "if t = TOK_EOF then n + j = length ?s else \<exists>k m. token_at v ?s k m t loc'"
        using j(4) n(2) token_at_later [OF _ n(2), of v] by (simp split: if_splits) blast
      moreover have "sc_rest sc' = drop (n + j) ?s" using j(2) by (simp add: add.commute)
      moreover have "(curr_line sc', curr_col sc') = position (v @ take (n + j) ?s)" using j(3) by (simp add: take_add)
      moreover have "n + j \<le> length ?s" using n(2) j(1) by simp
      ultimately show ?thesis by blast
    next
      case (Some t')
      have "sc' = ?sc" "t = t'" "loc' = loc1" using "1.prems"(1) Some p u by (subst (asm) yylex.simps, simp)+
      moreover have "t' \<noteq> TOK_EOF"
        using Some pick_rule [OF p] zero_token no(1) by blast
      moreover have "token_at v ?s 0 n t' loc1"
        using n Some p loc(1,2) by (auto simp: token_at_def pick_chosen)
      ultimately show ?thesis using loc(3) n by (intro exI [of _ n]) auto
    qed
  qed (use "1.prems" in simp)
qed

lemma scan_positions:
  "scan_from sc loc = (ts, sc') \<Longrightarrow> (curr_line sc, curr_col sc) = position v \<Longrightarrow> CHR 0x00 \<notin> set (sc_rest sc) \<Longrightarrow>
   (\<forall>(t, loc) \<in> set ts. \<exists>k n. token_at v (sc_rest sc) k n t loc)
     \<and> (curr_line sc', curr_col sc') = position (v @ sc_rest sc)"
proof (induction sc loc arbitrary: v ts rule: scan_from.induct)
  case (1 sc loc)
  obtain t loc1 sc1 where y: "yylex sc loc = (t, loc1, sc1)" by (cases "yylex sc loc") auto
  from yylex_positions [OF y "1.prems"(2,3)] obtain j where j: "j \<le> length (sc_rest sc)" "sc_rest sc1 = drop j (sc_rest sc)"
    "(curr_line sc1, curr_col sc1) = position (v @ take j (sc_rest sc))"
    "if t = TOK_EOF then j = length (sc_rest sc) else \<exists>k n. token_at v (sc_rest sc) k n t loc1" by blast
  show ?case
  proof (cases "t = TOK_EOF")
    case True
    then have "ts = []" "sc' = sc1" using "1.prems"(1) y by (subst (asm) scan_from.simps, simp)+
    then show ?thesis using j True by simp
  next
    case False
    obtain us sc2 where us: "scan_from sc1 loc1 = (us, sc2)" by fastforce
    have ts: "ts = (t, loc1) # us" "sc' = sc2" using "1.prems"(1) y us False by (subst (asm) scan_from.simps, simp)+
    have "CHR 0x00 \<notin> set (sc_rest sc1)" using "1.prems"(3) j(2) by (auto dest: in_set_dropD)
    note IH = "1.IH" [OF y [symmetric] HOL.refl False us [folded ts(2)] j(3) this, unfolded j(2)]
    have "\<exists>k n. token_at v (sc_rest sc) k n t2 loc2" if "(t2, loc2) \<in> set us" for t2 loc2
      using conjunct1 [OF IH] that token_at_later [OF _ j(1), of v] by blast
    moreover have "\<exists>k n. token_at v (sc_rest sc) k n t loc1" using j(4) False by simp
    moreover have "(curr_line sc', curr_col sc') = position (v @ sc_rest sc)" using conjunct2 [OF IH] by simp
    ultimately show ?thesis by (simp add: ts(1)) blast
  qed
qed

text \<open>C21. The location of a token is that of its first and its last character, counted from the position
  the scanner starts at; at the end it is at the position behind the text. As it does not go back to
  line 1, a second scan of the text reports the positions of the text written twice.\<close>

theorem token_positions:
  assumes "CHR 0x00 \<notin> set src"
    and "scan_from \<lparr>sc_rest = src, curr_line = fst (position v), curr_col = snd (position v)\<rparr> loc = (ts, sc)"
  shows "(\<forall>(t, loc) \<in> set ts. \<exists>k n. token_at v src k n t loc) \<and> (curr_line sc, curr_col sc) = position (v @ src)"
  using scan_positions [OF assms(2), of v] assms(1) by simp

theorem token_positions_witness:
  "snd (scan_from \<lparr>sc_rest = ''x'', curr_line = 2, curr_col = 1\<rparr> no_loc) =
     \<lparr>sc_rest = [], curr_line = 2, curr_col = 2\<rparr>"
proof -
  let ?sc = "\<lparr>sc_rest = ''x'', curr_line = fst (position [CHR 0x0A]), curr_col = snd (position [CHR 0x0A])\<rparr>"
  obtain ts sc where r: "scan_from ?sc no_loc = (ts, sc)" by fastforce
  have "CHR 0x00 \<notin> set ''x''" by simp
  from token_positions [OF this r] have "(curr_line sc, curr_col sc) = position (CHR 0x0A # ''x'')" by simp
  moreover have "sc_rest (snd (scan_from ?sc no_loc)) = []" by code_simp
  ultimately show ?thesis using r by (cases sc) (simp add: position_def)
qed

section \<open>Writing and scanning tokens\<close>

definition spell :: "token \<Rightarrow> string" where
  "spell t = (case t of T_ID w \<Rightarrow> w | T_NUM w \<Rightarrow> w | Ch c \<Rightarrow> [c]
     | _ \<Rightarrow> (case find (\<lambda>e. snd e = t) (reserved @ operators) of None \<Rightarrow> [] | Some e \<Rightarrow> fst e))"

text \<open>The tokens a text can hold: names that are not reserved, numbers, and characters with no other use.\<close>

definition scannable :: "token \<Rightarrow> bool" where
  "scannable t \<longleftrightarrow> (case t of
       T_ID w \<Rightarrow> w \<noteq> [] \<and> letter (hd w) \<and> list_all (\<lambda>c. letter c \<or> digit c) w \<and> w \<notin> set (map fst reserved)
     | T_NUM w \<Rightarrow> nullable (fold after w number)
     | Ch c \<Rightarrow> \<not> letter c \<and> \<not> digit c \<and> c \<notin> set [CHR 0x00, CHR 0x09, CHR 0x0A, CHR '' '', CHR ''{'']
     | TOK_EOF \<Rightarrow> False
     | _ \<Rightarrow> True)"

lemma matches_fold: "matches p w \<longleftrightarrow> nullable (fold after w p)"
  by (induction w arbitrary: p) (simp_all add: matches_nullable matches_after [symmetric])

text \<open>Texts that no rule continues over a blank.\<close>

definition closed_word :: "string \<Rightarrow> bool" where
  "closed_word w \<longleftrightarrow> w \<noteq> [] \<and> CHR '' '' \<notin> set w \<and> hd w \<noteq> CHR ''{'' \<and> (hd w = CHR ''('' \<longrightarrow> w = ''('')
     \<and> (hd w = CHR ''/'' \<longrightarrow> w = ''/'')"

lemma no_blank_rules: "\<forall>(p, a) \<in> set (drop 4 rules). over (\<lambda>c. c \<noteq> CHR '' '') p \<or> p = dot"
  by (auto simp: rules_def skips_def reserved_def operators_def number_def name_pat_def some_of_def maybe_def letter_def digit_def)

lemma rules_split: "rules = skips @ drop 4 rules"
  by (simp add: rules_def skips_def)

lemma closed_word_longest:
  assumes w: "closed_word w" and r: "(p, a) \<in> set rules" and l: "longest p (w @ '' '' @ rest) = Some m"
  shows "m \<le> length w"
proof (rule ccontr)
  assume m: "\<not> m \<le> length w"
  then have "m - length w = Suc (m - Suc (length w))" by simp
  with m have "take m (w @ CHR '' '' # rest) = w @ CHR '' '' # take (m - Suc (length w)) rest" by simp
  with l obtain r where x: "matches p (w @ CHR '' '' # r)" by (auto simp: longest_spec)
  from w obtain c v where c: "w = c # v" by (cases w) (auto simp: closed_word_def)
  from r rules_split consider "(p, a) \<in> set skips" | "(p, a) \<in> set (drop 4 rules)" by (metis Un_iff set_append)
  then show False
  proof cases
    case 1
    with x w c show False by (cases v) (auto simp: skips_def closed_word_def)
  next
    case 2
    with no_blank_rules have "over (\<lambda>c. c \<noteq> CHR '' '') p \<or> p = dot" by fast
    then show False using x over_matches [OF x, of "\<lambda>c. c \<noteq> CHR '' ''"] c by (auto simp: dot_def)
  qed
qed

lemma tokens_of_word:
  assumes w: "closed_word w" and f: "find (\<lambda>r. matches (fst r) w) rules = Some (p, a)" and a: "a w = Some t" "t \<noteq> TOK_EOF"
  shows "tokens_of (w @ '' '' @ rest) = t # tokens_of rest"
proof -
  have "pick rules (w @ '' '' @ rest) = Some (length w, a)"
    by (rule pick_first) (use closed_word_longest [OF w] f in auto)
  then have "tokens_of (w @ '' '' @ rest) = t # tokens_of ('' '' @ rest)"
    using a by (subst tokens_of.simps) simp
  moreover have "pick rules ('' '' @ rest) = Some (1, \<lambda>w. None)"
  proof (rule pick_first)
    have "find (\<lambda>r. matches (fst r) '' '') rules = Some (Set (\<lambda>c. c = CHR '' '' \<or> c = CHR 0x09 \<or> c = CHR 0x0A), \<lambda>w. None)"
      by (simp add: rules_def skips_def)
    then show "find (\<lambda>r. matches (fst r) (take 1 ('' '' @ rest))) rules =
      Some (Set (\<lambda>c. c = CHR '' '' \<or> c = CHR 0x09 \<or> c = CHR 0x0A), \<lambda>w. None)" by simp
    have "m \<le> 1" if r: "(p, a) \<in> set rules" "longest p ('' '' @ rest) = Some m" for p a m
    proof (rule ccontr)
      assume "\<not> m \<le> 1"
      then obtain k where "m = Suc (Suc k)" by (cases m; cases "m - 1") auto
      moreover from r(2) have "matches p (take m ('' '' @ rest))" "m \<le> length ('' '' @ rest)"
        unfolding longest_spec by blast+
      ultimately obtain v where x: "matches p (CHR '' '' # v)" "v \<noteq> []" by (cases rest) auto
      from r(1) rules_split consider "(p, a) \<in> set skips" | "(p, a) \<in> set (drop 4 rules)" by (metis Un_iff set_append)
      then show False
      proof cases
        case 2
        with no_blank_rules have "over (\<lambda>c. c \<noteq> CHR '' '') p \<or> p = dot" by fast
        then show False using x over_matches [OF x(1), of "\<lambda>c. c \<noteq> CHR '' ''"] by (auto simp: dot_def)
      qed (use x in \<open>auto simp: skips_def\<close>)
    qed
    then show "\<forall>(p, a) \<in> set rules. \<forall>m. longest p ('' '' @ rest) = Some m \<longrightarrow> m \<le> 1" by blast
  qed simp
  ultimately show ?thesis by (subst (asm) (2) tokens_of.simps) simp
qed

lemma matches_set_seq: "matches (Seq (Set P) q) (c # w) \<longleftrightarrow> P c \<and> matches q w"
  using seq [of "Set P" "[c]" q w] by (auto simp: char)

lemma matches_ident: "matches name_pat w \<longleftrightarrow> w \<noteq> [] \<and> letter (hd w) \<and> list_all (\<lambda>c. letter c \<or> digit c) w"
  by (cases w) (auto simp: name_pat_def matches_set_seq matches_rep_set matches_nullable simp del: matches_simps)

lemma find_words:
  "find (\<lambda>r. matches (fst r) w) (map (\<lambda>(k, t). (lit k, f t)) L) = None \<longleftrightarrow> w \<notin> set (map fst L)"
  by (induction L) auto

lemma matches_number:
  assumes "matches number w"
  shows "w \<noteq> []" "digit (hd w)" "CHR '' '' \<notin> set w"
proof -
  from assms obtain c v where w: "w = c # v" "digit c" by (auto simp: number_def name_pat_def some_of_def)
  then show "w \<noteq> []" "digit (hd w)" by simp_all
  have "list_all (\<lambda>c. c \<noteq> CHR '' '') w"
    by (rule over_matches [OF assms]) (auto simp: number_def name_pat_def some_of_def maybe_def digit_def)
  then show "CHR '' '' \<notin> set w" by (auto simp: list_all_iff)
qed

text \<open>No skipped text starts like a word.\<close>

lemma find_skips: "closed_word w \<Longrightarrow> hd w \<notin> set [CHR 0x09, CHR 0x0A, CHR '' ''] \<Longrightarrow> find (\<lambda>r. matches (fst r) w) skips = None"
  by (cases w) (auto simp: skips_def closed_word_def)

lemma reserved_words: "w \<in> set (map fst reserved) \<Longrightarrow> letter (hd w) \<and> 1 < length w"
  "w \<in> set (map fst operators) \<Longrightarrow> \<not> letter (hd w) \<and> \<not> digit (hd w) \<and> 1 < length w"
  by (auto simp: reserved_def operators_def letter_def digit_def)

lemma letter_not_digit: "letter c \<Longrightarrow> \<not> digit c"
  by (auto simp: letter_def digit_def less_eq_char_def)

lemma find_rest:
  assumes "closed_word w" and "hd w \<notin> set [CHR 0x09, CHR 0x0A, CHR '' '']" and "w \<notin> set (map fst (reserved @ operators))"
  shows "find (\<lambda>r. matches (fst r) w) rules = find (\<lambda>r. matches (fst r) w)
     [(name_pat, \<lambda>w. Some (T_ID w)), (number, \<lambda>w. Some (T_NUM w)),
      (dot, \<lambda>w. Some (char_token (hd w)))]"
  using find_skips [OF assms(1,2)] assms(3) unfolding rules_def by (simp add: find_behind find_words)

lemma find_word:
  "(w, t) \<in> set L \<Longrightarrow> distinct (map fst L) \<Longrightarrow>
   find (\<lambda>r. matches (fst r) w) (map (\<lambda>(k, t). (lit k, f t)) L @ R) = Some (lit w, f t)"
  by (induction L) force+

lemma spelled_word:
  assumes "(w, t) \<in> set (reserved @ operators)"
  shows "closed_word w" "find (\<lambda>r. matches (fst r) w) rules = Some (lit w, \<lambda>_. Some t)" "spell t = w"
proof -
  have w: "w \<noteq> [] \<and> CHR '' '' \<notin> set w \<and> hd w \<notin> set [CHR ''{'', CHR ''('', CHR ''/'', CHR 0x09, CHR 0x0A]"
    using assms by (auto simp: reserved_def operators_def)
  then show c: "closed_word w" by (auto simp: closed_word_def)
  have "hd w \<noteq> CHR '' ''" using w by (cases w) auto
  then have "find (\<lambda>r. matches (fst r) w) skips = None" using w by (intro find_skips [OF c]) auto
  moreover have "distinct (map fst (reserved @ operators))" by code_simp
  ultimately show "find (\<lambda>r. matches (fst r) w) rules = Some (lit w, \<lambda>_. Some t)"
    using find_word [OF assms, of "\<lambda>t _. Some t"] unfolding rules_def by (simp add: find_behind)
  show "spell t = w" using assms by (auto simp: reserved_def operators_def spell_def)
qed

lemma tokens_of_spelled:
  assumes "scannable t"
  shows "tokens_of (spell t @ '' '' @ rest) = t # tokens_of rest"
proof -
  have "closed_word (spell t) \<and> (\<exists>p a. find (\<lambda>r. matches (fst r) (spell t)) rules = Some (p, a) \<and> a (spell t) = Some t)"
  proof (cases "\<exists>w. (w, t) \<in> set (reserved @ operators)")
    case True
    then obtain w where w: "(w, t) \<in> set (reserved @ operators)" by blast
    from spelled_word [OF w] show ?thesis by simp
  next
    case False
    then consider w where "t = T_ID w" | w where "t = T_NUM w" | c where "t = Ch c"
      using assms by (cases t) (auto simp: reserved_def operators_def scannable_def)
    then show ?thesis
    proof cases
      case 1
      then have w: "w \<noteq> []" "letter (hd w)" "list_all (\<lambda>c. letter c \<or> digit c) w" "w \<notin> set (map fst reserved)"
        using assms by (simp_all add: scannable_def)
      have "hd w \<notin> set [CHR 0x09, CHR 0x0A, CHR '' '']" "closed_word w"
        using w by (auto simp: closed_word_def letter_def digit_def list_all_iff)
      moreover have "w \<notin> set (map fst (reserved @ operators))" using w reserved_words(2) [of w] by auto
      ultimately show ?thesis using find_rest [of w] w by (simp add: 1 spell_def matches_ident)
    next
      case 2
      then have w: "matches number w" using assms by (simp add: scannable_def matches_fold)
      note n = matches_number [OF w]
      have "\<not> letter (hd w)" using n(2) letter_not_digit by blast
      moreover have "hd w \<notin> set [CHR 0x09, CHR 0x0A, CHR '' '']" "closed_word w"
        using n by (auto simp: closed_word_def digit_def)
      moreover have "w \<notin> set (map fst (reserved @ operators))"
        using n(2) \<open>\<not> letter (hd w)\<close> reserved_words [of w] by auto
      ultimately show ?thesis using find_rest [of w] w by (simp add: 2 spell_def matches_ident)
    next
      case 3
      then have c: "\<not> letter c" "\<not> digit c" "c \<notin> set [CHR 0x00, CHR 0x09, CHR 0x0A, CHR '' '', CHR ''{'']"
        using assms by (simp_all add: scannable_def)
      have "closed_word [c]" using c by (auto simp: closed_word_def)
      moreover have "\<not> matches number [c]" using matches_number(2) [of "[c]"] c(2) by auto
      moreover have "[c] \<notin> set (map fst (reserved @ operators))" using reserved_words [of "[c]"] by auto
      ultimately show ?thesis
        using find_rest [of "[c]"] c by (simp add: 3 spell_def matches_ident dot_def char_token_def)
    qed
  qed
  moreover have "t \<noteq> TOK_EOF" using assms by (auto simp: scannable_def)
  ultimately show ?thesis using tokens_of_word by blast
qed

definition unscan :: "token list \<Rightarrow> string" where
  "unscan ts = concat (map (\<lambda>t. spell t @ '' '') ts)"

lemma scan_spelled: "list_all scannable ts \<Longrightarrow> scan (unscan ts) = ts"
  unfolding scan_tokens by (induction ts) (simp_all add: unscan_def tokens_of_spelled [simplified])

text \<open>C17. Scanning undoes writing: a list of tokens, written with a blank behind each, is scanned to itself. A name is
  not taken for a reserved word, a number not cut, and no operator or comment starts by accident.\<close>

theorem scan_unscan:
  assumes "list_all scannable ts"
  shows "scan (unscan ts) = ts"
  using assms by (rule scan_spelled)

theorem scan_unscan_witness:
  "scan (unscan [T_WHILE, T_ID ''doit'', T_LE, T_NUM ''3.5e-2'', Ch CHR ''('']) = [T_WHILE, T_ID ''doit'', T_LE, T_NUM ''3.5e-2'', Ch CHR ''('']"
  by (rule scan_unscan) code_simp

end
