(* ===== verification/Grammar.thy ===== *)
theory Grammar
  imports Scanning
begin

text \<open>
  The grammar (parser.y). A datatype per nonterminal has a constructor per production; \<open>yield\<close> gives
  the tokens of a parse tree and \<open>act\<close> the value its semantic actions compute with the constructor functions
  of ast.c. The tables that bison makes of the grammar are not modelled: \<open>derives\<close> says that a program
  is the value of a parse tree of the tokens of a text.
\<close>

section \<open>Nonterminals without expressions\<close>

datatype identifier_list = ID1 string | ID_SNOC identifier_list string

datatype optional_identifier_list = IDS identifier_list | NO_IDS

datatype standard_type = S_INTEGER | S_REAL | S_STRING | S_BOOLEAN | S_CHAR

datatype type_tree =
    STANDARD standard_type
  | ARRAY_OF string string standard_type
  | POINTER_TO type_tree
  | NAMED string
  | RECORD_OF record_fields
and record_fields = NO_FIELDS | FIELDS record_fields string type_tree

datatype type_declarations = NO_TYPES | TYPES type_declarations string type_tree

datatype declarations = NO_DECLS | DECLS declarations identifier_list type_tree

datatype parameter_list = PARAM1 identifier_list type_tree | PARAM_SNOC parameter_list identifier_list type_tree

datatype arguments = ARGS parameter_list | NO_ARGS

datatype path_tree = PATH_ID string | PATH_DOT path_tree string

text \<open>The tokens of a tree, and the values of its actions.\<close>

abbreviation ch :: "char \<Rightarrow> token list" where "ch c \<equiv> [Ch c]"

fun ids_yield :: "identifier_list \<Rightarrow> token list" where
  "ids_yield (ID1 n) = [T_ID n]"
| "ids_yield (ID_SNOC ns n) = ids_yield ns @ ch CHR '','' @ [T_ID n]"

fun ids_act :: "identifier_list \<Rightarrow> string list" where
  "ids_act (ID1 n) = [n]"
| "ids_act (ID_SNOC ns n) = ids_act ns @ [n]"

fun opt_ids_yield :: "optional_identifier_list \<Rightarrow> token list" where
  "opt_ids_yield (IDS ns) = ids_yield ns"
| "opt_ids_yield NO_IDS = []"

fun opt_ids_act :: "optional_identifier_list \<Rightarrow> string list" where
  "opt_ids_act (IDS ns) = ids_act ns"
| "opt_ids_act NO_IDS = []"

fun standard_yield :: "standard_type \<Rightarrow> token list" where
  "standard_yield S_INTEGER = [T_INTEGER]"
| "standard_yield S_REAL = [T_REAL]"
| "standard_yield S_STRING = [T_STRING]"
| "standard_yield S_BOOLEAN = [T_BOOLEAN]"
| "standard_yield S_CHAR = [T_CHAR]"

fun standard_act :: "standard_type \<Rightarrow> ast_type option result" where
  "standard_act S_INTEGER = ast_type_new TYPE_INTEGER_T []"
| "standard_act S_REAL = ast_type_new TYPE_REAL_T []"
| "standard_act S_STRING = ast_type_new TYPE_STRING_T []"
| "standard_act S_BOOLEAN = ast_type_new TYPE_BOOLEAN_T []"
| "standard_act S_CHAR = ast_type_new TYPE_CHAR_T []"

fun type_yield :: "type_tree \<Rightarrow> token list"
  and fields_yield :: "record_fields \<Rightarrow> token list" where
  "type_yield (STANDARD t) = standard_yield t"
| "type_yield (ARRAY_OF l u t) = [T_ARRAY] @ ch CHR ''['' @ [T_NUM l, T_DOTDOT, T_NUM u] @ ch CHR '']'' @ [T_OF] @ standard_yield t"
| "type_yield (POINTER_TO t) = ch CHR ''^'' @ type_yield t"
| "type_yield (NAMED n) = [T_ID n]"
| "type_yield (RECORD_OF fs) = [T_RECORD] @ fields_yield fs @ [T_END]"
| "fields_yield NO_FIELDS = []"
| "fields_yield (FIELDS fs n t) = fields_yield fs @ [T_ID n] @ ch CHR '':'' @ type_yield t @ ch CHR '';''"

text \<open>A list or record that holds a null type pointer has no value in the model (\<open>nonnull_type\<close>).\<close>

fun type_act :: "type_tree \<Rightarrow> ast_type option result"
  and fields_act :: "record_fields \<Rightarrow> ast_record_field list result" where
  "type_act (STANDARD t) = standard_act t"
| "type_act (ARRAY_OF l u t) = bindr (standard_act t) (\<lambda>t. ast_type_new TYPE_ARRAY_T [VStr l, VStr u, VType t])"
| "type_act (POINTER_TO t) = bindr (type_act t) (\<lambda>t. ast_type_new TYPE_POINTER_T [VType t])"
| "type_act (NAMED n) = ast_type_new TYPE_REF_T [VStr n]"
| "type_act (RECORD_OF fs) = bindr (fields_act fs) (\<lambda>fs. ast_type_new TYPE_RECORD_T [VFields fs])"
| "fields_act NO_FIELDS = Inr []"
| "fields_act (FIELDS fs n t) = bindr (fields_act fs) (\<lambda>fs. bindr (bindr (type_act t) nonnull_type) (\<lambda>t.
     Inr (fs @ [ast_record_field_new n t])))"

definition typed_act :: "type_tree \<Rightarrow> ast_type result" where
  "typed_act t = bindr (type_act t) nonnull_type"

fun types_yield :: "type_declarations \<Rightarrow> token list" where
  "types_yield NO_TYPES = []"
| "types_yield (TYPES ts n t) = types_yield ts @ [T_TYPE, T_ID n] @ ch CHR ''='' @ type_yield t @ ch CHR '';''"

fun types_act :: "type_declarations \<Rightarrow> ast_type_decl list result" where
  "types_act NO_TYPES = Inr []"
| "types_act (TYPES ts n t) = bindr (types_act ts) (\<lambda>ts. bindr (typed_act t) (\<lambda>t. Inr (ts @ [ast_type_decl_new n t])))"

fun decls_yield :: "declarations \<Rightarrow> token list" where
  "decls_yield NO_DECLS = []"
| "decls_yield (DECLS ds ns t) = decls_yield ds @ [T_VAR] @ ids_yield ns @ ch CHR '':'' @ type_yield t @ ch CHR '';''"

fun decls_act :: "declarations \<Rightarrow> ast_decls list result" where
  "decls_act NO_DECLS = Inr []"
| "decls_act (DECLS ds ns t) = bindr (decls_act ds) (\<lambda>ds. bindr (typed_act t) (\<lambda>t. Inr (ds @ [ast_decls_new (ids_act ns) t])))"

fun params_yield :: "parameter_list \<Rightarrow> token list" where
  "params_yield (PARAM1 ns t) = ids_yield ns @ ch CHR '':'' @ type_yield t"
| "params_yield (PARAM_SNOC ps ns t) = params_yield ps @ ch CHR '';'' @ ids_yield ns @ ch CHR '':'' @ type_yield t"

fun params_act :: "parameter_list \<Rightarrow> ast_decls list result" where
  "params_act (PARAM1 ns t) = bindr (typed_act t) (\<lambda>t. Inr [ast_decls_new (ids_act ns) t])"
| "params_act (PARAM_SNOC ps ns t) = bindr (params_act ps) (\<lambda>ps. bindr (typed_act t) (\<lambda>t. Inr (ps @ [ast_decls_new (ids_act ns) t])))"

fun args_yield :: "arguments \<Rightarrow> token list" where
  "args_yield (ARGS ps) = ch CHR ''('' @ params_yield ps @ ch CHR '')''"
| "args_yield NO_ARGS = []"

fun args_act :: "arguments \<Rightarrow> ast_decls list result" where
  "args_act (ARGS ps) = params_act ps"
| "args_act NO_ARGS = Inr []"

fun path_yield :: "path_tree \<Rightarrow> token list" where
  "path_yield (PATH_ID n) = [T_ID n]"
| "path_yield (PATH_DOT p n) = path_yield p @ ch CHR ''.'' @ [T_ID n]"

fun path_act :: "path_tree \<Rightarrow> ast_path" where
  "path_act (PATH_ID n) = ast_path_new n"
| "path_act (PATH_DOT p n) = ast_path_append (path_act p) n"

section \<open>Expressions\<close>

datatype sign = S_PLUS | S_MINUS
datatype relop = R_EQ | R_NEQ | R_LT | R_GT | R_LE | R_GE
datatype addop = A_PLUS | A_MINUS | A_OR
datatype mulop = M_TIMES | M_SLASH | M_DIV | M_MOD | M_AND

fun sign_act :: "sign \<Rightarrow> token" where
  "sign_act S_PLUS = Ch CHR ''+''"
| "sign_act S_MINUS = Ch CHR ''-''"

fun relop_act :: "relop \<Rightarrow> token" where
  "relop_act R_EQ = Ch CHR ''=''"
| "relop_act R_NEQ = T_NEQ"
| "relop_act R_LT = Ch CHR ''<''"
| "relop_act R_GT = Ch CHR ''>''"
| "relop_act R_LE = T_LE"
| "relop_act R_GE = T_GE"

fun addop_act :: "addop \<Rightarrow> token" where
  "addop_act A_PLUS = Ch CHR ''+''"
| "addop_act A_MINUS = Ch CHR ''-''"
| "addop_act A_OR = T_OR"

fun mulop_act :: "mulop \<Rightarrow> token" where
  "mulop_act M_TIMES = Ch CHR ''*''"
| "mulop_act M_SLASH = Ch CHR ''/''"
| "mulop_act M_DIV = T_DIV"
| "mulop_act M_MOD = T_MOD"
| "mulop_act M_AND = T_AND"

datatype expression = SIMPLE simple_expression | REL simple_expression relop simple_expression
and simple_expression = A_TERM term_tree | SIGNED sign term_tree | ADD simple_expression addop term_tree
and term_tree = FACTOR factor | MUL term_tree mulop factor
and factor = APP path_tree expression_list | NUM string | PAR expression | NOT_OF factor | LVALUE lvalue | ADDRESS factor
and lvalue = PATH path_tree | INDEX path_tree expression | DEREF path_tree
and expression_list = ONE expression | MORE expression_list expression | NO_EXPRS

text \<open>The token of an operator is the value of its nonterminal.\<close>

fun expr_yield :: "expression \<Rightarrow> token list"
  and simple_yield :: "simple_expression \<Rightarrow> token list"
  and term_yield :: "term_tree \<Rightarrow> token list"
  and factor_yield :: "factor \<Rightarrow> token list"
  and lvalue_yield :: "lvalue \<Rightarrow> token list"
  and exprs_yield :: "expression_list \<Rightarrow> token list" where
  "expr_yield (SIMPLE e) = simple_yield e"
| "expr_yield (REL l op r) = simple_yield l @ [relop_act op] @ simple_yield r"
| "simple_yield (A_TERM t) = term_yield t"
| "simple_yield (SIGNED s t) = [sign_act s] @ term_yield t"
| "simple_yield (ADD e op t) = simple_yield e @ [addop_act op] @ term_yield t"
| "term_yield (FACTOR f) = factor_yield f"
| "term_yield (MUL t op f) = term_yield t @ [mulop_act op] @ factor_yield f"
| "factor_yield (APP p es) = path_yield p @ ch CHR ''('' @ exprs_yield es @ ch CHR '')''"
| "factor_yield (NUM n) = [T_NUM n]"
| "factor_yield (PAR e) = ch CHR ''('' @ expr_yield e @ ch CHR '')''"
| "factor_yield (NOT_OF f) = [T_NOT] @ factor_yield f"
| "factor_yield (LVALUE l) = lvalue_yield l"
| "factor_yield (ADDRESS f) = ch CHR ''@'' @ factor_yield f"
| "lvalue_yield (PATH p) = path_yield p"
| "lvalue_yield (INDEX p e) = path_yield p @ ch CHR ''['' @ expr_yield e @ ch CHR '']''"
| "lvalue_yield (DEREF p) = path_yield p @ ch CHR ''^''"
| "exprs_yield (ONE e) = expr_yield e"
| "exprs_yield (MORE es e) = exprs_yield es @ ch CHR '','' @ expr_yield e"
| "exprs_yield NO_EXPRS = []"

fun expr_act :: "expression \<Rightarrow> ast_expr result"
  and simple_act :: "simple_expression \<Rightarrow> ast_expr result"
  and term_act :: "term_tree \<Rightarrow> ast_expr result"
  and factor_act :: "factor \<Rightarrow> ast_expr result"
  and lvalue_act :: "lvalue \<Rightarrow> ast_expr result"
  and exprs_act :: "expression_list \<Rightarrow> ast_expr list result" where
  "expr_act (SIMPLE e) = simple_act e"
| "expr_act (REL l op r) = bindr (simple_act l) (\<lambda>l. bindr (simple_act r) (\<lambda>r.
     ast_expr_new EXPR_BIN_T [VExpr l, VTok (relop_act op), VExpr r]))"
| "simple_act (A_TERM t) = term_act t"
| "simple_act (SIGNED s t) = bindr (term_act t) (\<lambda>t. ast_expr_new EXPR_UN_T [VTok (sign_act s), VExpr t])"
| "simple_act (ADD e op t) = bindr (simple_act e) (\<lambda>e. bindr (term_act t) (\<lambda>t.
     ast_expr_new EXPR_BIN_T [VExpr e, VTok (addop_act op), VExpr t]))"
| "term_act (FACTOR f) = factor_act f"
| "term_act (MUL t op f) = bindr (term_act t) (\<lambda>t. bindr (factor_act f) (\<lambda>f.
     ast_expr_new EXPR_BIN_T [VExpr t, VTok (mulop_act op), VExpr f]))"
| "factor_act (APP p es) = bindr (exprs_act es) (\<lambda>es. ast_expr_new EXPR_APP_T [VPath (path_act p), VExprs es])"
| "factor_act (NUM n) = ast_expr_new EXPR_LIT_T [VStr n]"
| "factor_act (PAR e) = expr_act e"
| "factor_act (NOT_OF f) = bindr (factor_act f) (\<lambda>f. ast_expr_new EXPR_UN_T [VTok T_NOT, VExpr f])"
| "factor_act (LVALUE l) = lvalue_act l"
| "factor_act (ADDRESS f) = bindr (factor_act f) (\<lambda>f. ast_expr_new EXPR_ADDROF_T [VExpr f])"
| "lvalue_act (PATH p) = ast_expr_new EXPR_PATH_T [VPath (path_act p)]"
| "lvalue_act (INDEX p e) = bindr (expr_act e) (\<lambda>e. ast_expr_new EXPR_IDX_T [VPath (path_act p), VExpr e])"
| "lvalue_act (DEREF p) = bindr (ast_expr_new EXPR_PATH_T [VPath (path_act p)]) (\<lambda>e. ast_expr_new EXPR_DEREF_T [VExpr e])"
| "exprs_act (ONE e) = bindr (expr_act e) (\<lambda>e. Inr [e])"
| "exprs_act (MORE es e) = bindr (exprs_act es) (\<lambda>es. bindr (expr_act e) (\<lambda>e. Inr (es @ [e])))"
| "exprs_act NO_EXPRS = Inr []"

section \<open>Statements\<close>

datatype procedure_statement = PROC path_tree | PROC_ARGS path_tree expression_list

datatype statement =
    ASSIGN lvalue expression
  | PROC_STATEMENT procedure_statement
  | COMPOUND optional_statements
  | IF_THEN expression statement
  | IF_THEN_ELSE expression statement statement
  | WHILE_DO expression statement
  | FOR_TO string expression expression statement
and optional_statements = STATEMENTS statement_list | NO_STATEMENTS
and statement_list = LAST statement | AND_THEN statement_list statement

fun proc_yield :: "procedure_statement \<Rightarrow> token list" where
  "proc_yield (PROC p) = path_yield p"
| "proc_yield (PROC_ARGS p es) = path_yield p @ ch CHR ''('' @ exprs_yield es @ ch CHR '')''"

fun proc_act :: "procedure_statement \<Rightarrow> ast_stmt result" where
  "proc_act (PROC p) = ast_stmt_new STMT_PROC_T [VPath (path_act p), VExprs []]"
| "proc_act (PROC_ARGS p es) = bindr (exprs_act es) (\<lambda>es. ast_stmt_new STMT_PROC_T [VPath (path_act p), VExprs es])"

fun stmt_yield :: "statement \<Rightarrow> token list"
  and compound_yield :: "optional_statements \<Rightarrow> token list"
  and stmts_yield :: "statement_list \<Rightarrow> token list" where
  "stmt_yield (ASSIGN l e) = lvalue_yield l @ [T_ASSIGNOP] @ expr_yield e"
| "stmt_yield (PROC_STATEMENT p) = proc_yield p"
| "stmt_yield (COMPOUND ss) = compound_yield ss"
| "stmt_yield (IF_THEN c th) = [T_IF] @ expr_yield c @ [T_THEN] @ stmt_yield th"
| "stmt_yield (IF_THEN_ELSE c th el) = [T_IF] @ expr_yield c @ [T_THEN] @ stmt_yield th @ [T_ELSE] @ stmt_yield el"
| "stmt_yield (WHILE_DO c s) = [T_WHILE] @ expr_yield c @ [T_DO] @ stmt_yield s"
| "stmt_yield (FOR_TO i a b s) = [T_FOR, T_ID i, T_ASSIGNOP] @ expr_yield a @ [T_TO] @ expr_yield b @ [T_DO] @ stmt_yield s"
| "compound_yield (STATEMENTS ss) = [T_TBEGIN] @ stmts_yield ss @ [T_END]"
| "compound_yield NO_STATEMENTS = [T_TBEGIN, T_END]"
| "stmts_yield (LAST s) = stmt_yield s"
| "stmts_yield (AND_THEN ss s) = stmts_yield ss @ ch CHR '';'' @ stmt_yield s"

text \<open>The value of a compound statement without statements is null.\<close>

definition stmt_value :: "stmt_tag \<Rightarrow> va_arg list \<Rightarrow> ast_stmt option result" where
  "stmt_value tag args = bindr (ast_stmt_new tag args) (\<lambda>s. Inr (Some s))"

fun stmt_act :: "statement \<Rightarrow> ast_stmt option result"
  and compound_act :: "optional_statements \<Rightarrow> ast_stmt option result"
  and stmts_act :: "statement_list \<Rightarrow> ast_stmt option list result" where
  "stmt_act (ASSIGN l e) = bindr (lvalue_act l) (\<lambda>l. bindr (expr_act e) (\<lambda>e. stmt_value STMT_ASSIGN_T [VExpr l, VExpr e]))"
| "stmt_act (PROC_STATEMENT p) = bindr (proc_act p) (\<lambda>s. Inr (Some s))"
| "stmt_act (COMPOUND ss) = compound_act ss"
| "stmt_act (IF_THEN c th) = bindr (expr_act c) (\<lambda>c. bindr (stmt_act th) (\<lambda>th.
     stmt_value STMT_ITE_T [VExpr c, VStmt th, VStmt None]))"
| "stmt_act (IF_THEN_ELSE c th el) = bindr (expr_act c) (\<lambda>c. bindr (stmt_act th) (\<lambda>th. bindr (stmt_act el) (\<lambda>el.
     stmt_value STMT_ITE_T [VExpr c, VStmt th, VStmt el])))"
| "stmt_act (WHILE_DO c s) = bindr (expr_act c) (\<lambda>c. bindr (stmt_act s) (\<lambda>s. stmt_value STMT_WDO_T [VExpr c, VStmt s]))"
| "stmt_act (FOR_TO i a b s) = bindr (expr_act a) (\<lambda>a. bindr (expr_act b) (\<lambda>b. bindr (stmt_act s) (\<lambda>s.
     stmt_value STMT_FOR_T [VStr i, VExpr a, VExpr b, VStmt s])))"
| "compound_act (STATEMENTS ss) = bindr (stmts_act ss) (\<lambda>ss. stmt_value STMT_STMTS_T [VStmts ss])"
| "compound_act NO_STATEMENTS = Inr None"
| "stmts_act (LAST s) = bindr (stmt_act s) (\<lambda>s. Inr [s])"
| "stmts_act (AND_THEN ss s) = bindr (stmts_act ss) (\<lambda>ss. bindr (stmt_act s) (\<lambda>s. Inr (ss @ [s])))"

text \<open>
  \<open>%precedence\<close>: with an ELSE ahead the parser reads on, so the statement before an ELSE does not end in
  an IF without one.
\<close>

fun dangling :: "statement \<Rightarrow> bool" where
  "dangling (IF_THEN c th) = True"
| "dangling (IF_THEN_ELSE c th el) = dangling el"
| "dangling (WHILE_DO c s) = dangling s"
| "dangling (FOR_TO i a b s) = dangling s"
| "dangling _ = False"

fun resolved :: "statement \<Rightarrow> bool"
  and resolved_compound :: "optional_statements \<Rightarrow> bool"
  and resolved_stmts :: "statement_list \<Rightarrow> bool" where
  "resolved (COMPOUND ss) = resolved_compound ss"
| "resolved (IF_THEN c th) = resolved th"
| "resolved (IF_THEN_ELSE c th el) = (\<not> dangling th \<and> resolved th \<and> resolved el)"
| "resolved (WHILE_DO c s) = resolved s"
| "resolved (FOR_TO i a b s) = resolved s"
| "resolved _ = True"
| "resolved_compound (STATEMENTS ss) = resolved_stmts ss"
| "resolved_compound NO_STATEMENTS = True"
| "resolved_stmts (LAST s) = resolved s"
| "resolved_stmts (AND_THEN ss s) = (resolved_stmts ss \<and> resolved s)"

section \<open>Subprograms and programs\<close>

datatype subprogram_declaration =
    FUN string arguments standard_type subprogram_declarations type_declarations declarations optional_statements
  | PROCEDURE string arguments subprogram_declarations type_declarations declarations optional_statements
and subprogram_declarations = NO_SUBPROGRAMS | SUBPROGRAMS subprogram_declarations subprogram_declaration

fun sub_yield :: "subprogram_declaration \<Rightarrow> token list"
  and subs_yield :: "subprogram_declarations \<Rightarrow> token list" where
  "sub_yield (FUN n as t subs ts ds b) = [T_FUNCTION, T_ID n] @ args_yield as @ ch CHR '':'' @ standard_yield t @ ch CHR '';''
     @ subs_yield subs @ types_yield ts @ decls_yield ds @ compound_yield b"
| "sub_yield (PROCEDURE n as subs ts ds b) = [T_PROCEDURE, T_ID n] @ args_yield as @ ch CHR '';''
     @ subs_yield subs @ types_yield ts @ decls_yield ds @ compound_yield b"
| "subs_yield NO_SUBPROGRAMS = []"
| "subs_yield (SUBPROGRAMS ss s) = subs_yield ss @ sub_yield s @ ch CHR '';''"

fun sub_act :: "subprogram_declaration \<Rightarrow> ast_subdecl result"
  and subs_act :: "subprogram_declarations \<Rightarrow> ast_subdecl list result" where
  "sub_act (FUN n as t subs ts ds b) = bindr (args_act as) (\<lambda>as. bindr (standard_act t) (\<lambda>t. bindr (subs_act subs) (\<lambda>subs.
     bindr (types_act ts) (\<lambda>ts. bindr (decls_act ds) (\<lambda>ds. bindr (compound_act b) (\<lambda>b.
     bindr (bindr (ast_type_new TYPE_FUNCTION_T [VSub SUB_FUNCTION, VDecls as, VType t]) nonnull_type) (\<lambda>sig.
     Inr (ast_subprogram_decl sig n subs ts ds b))))))))"
| "sub_act (PROCEDURE n as subs ts ds b) = bindr (args_act as) (\<lambda>as. bindr (subs_act subs) (\<lambda>subs.
     bindr (types_act ts) (\<lambda>ts. bindr (decls_act ds) (\<lambda>ds. bindr (compound_act b) (\<lambda>b.
     bindr (bindr (ast_type_new TYPE_FUNCTION_T [VSub SUB_PROCEDURE, VDecls as, VType None]) nonnull_type) (\<lambda>sig.
     Inr (ast_subprogram_decl sig n subs ts ds b)))))))"
| "subs_act NO_SUBPROGRAMS = Inr []"
| "subs_act (SUBPROGRAMS ss s) = bindr (subs_act ss) (\<lambda>ss. bindr (sub_act s) (\<lambda>s. Inr (ss @ [s])))"

datatype program_tree =
  PROGRAM string optional_identifier_list type_declarations declarations subprogram_declarations optional_statements

fun program_yield :: "program_tree \<Rightarrow> token list" where
  "program_yield (PROGRAM n ns ts ds subs b) = [T_PROGRAM, T_ID n] @ ch CHR ''('' @ opt_ids_yield ns @ ch CHR '')'' @ ch CHR '';''
     @ types_yield ts @ decls_yield ds @ subs_yield subs @ compound_yield b @ ch CHR ''.''"

fun program_act :: "program_tree \<Rightarrow> ast_program result" where
  "program_act (PROGRAM n ns ts ds subs b) = bindr (types_act ts) (\<lambda>ts. bindr (decls_act ds) (\<lambda>ds. bindr (subs_act subs) (\<lambda>subs.
     bindr (compound_act b) (\<lambda>b. Inr (ast_program_new n (opt_ids_act ns) ds ts subs b)))))"

fun resolved_sub :: "subprogram_declaration \<Rightarrow> bool"
  and resolved_subs :: "subprogram_declarations \<Rightarrow> bool" where
  "resolved_sub (FUN n as t subs ts ds b) = (resolved_subs subs \<and> resolved_compound b)"
| "resolved_sub (PROCEDURE n as subs ts ds b) = (resolved_subs subs \<and> resolved_compound b)"
| "resolved_subs NO_SUBPROGRAMS = True"
| "resolved_subs (SUBPROGRAMS ss s) = (resolved_subs ss \<and> resolved_sub s)"

fun resolved_program :: "program_tree \<Rightarrow> bool" where
  "resolved_program (PROGRAM n ns ts ds subs b) = (resolved_subs subs \<and> resolved_compound b)"

text \<open>The programs a text can be read as.\<close>

definition derives :: "string \<Rightarrow> ast_program \<Rightarrow> bool" where
  "derives src p \<longleftrightarrow> (\<exists>t. program_yield t = scan src \<and> resolved_program t \<and> program_act t = Inr p)"

end
