(* ===== verification/Parsing.thy ===== *)
theory Parsing
  imports Grammar
begin

text \<open>
  Which trees the grammar builds. \<open>parseable\<close> describes the programs that some text can be read as;
  every semantic action passes its constructor function arguments of the kinds it reads, and
  every parseable program has a text, which is written and read back.
\<close>

section \<open>The trees of the grammar\<close>

definition a_name :: "string \<Rightarrow> bool" where "a_name n = scannable (T_ID n)"
definition a_number :: "string \<Rightarrow> bool" where "a_number n = scannable (T_NUM n)"

text \<open>Tokens with a text have one that the scanner can read.\<close>

definition token_ok :: "token \<Rightarrow> bool" where
  "token_ok t = (case t of T_ID n \<Rightarrow> a_name n | T_NUM n \<Rightarrow> a_number n | _ \<Rightarrow> True)"

definition path_ok :: "ast_path \<Rightarrow> bool" where
  "path_ok p \<longleftrightarrow> p \<noteq> [] \<and> list_all a_name p"

definition binary_op :: "token \<Rightarrow> bool" where
  "binary_op op \<longleftrightarrow> is_relop op \<or> op \<in> set [Ch CHR ''+'', Ch CHR ''-'', T_OR, Ch CHR ''*'', Ch CHR ''/'', T_DIV, T_MOD, T_AND]"

fun expr_ok :: "ast_expr \<Rightarrow> bool" where
  "expr_ok (EXPR_APP p es) = (path_ok p \<and> list_all expr_ok es)"
| "expr_ok (EXPR_BIN l op r) = (binary_op op \<and> expr_ok l \<and> expr_ok r)"
| "expr_ok (EXPR_DEREF e) = (case e of EXPR_PATH p \<Rightarrow> path_ok p | _ \<Rightarrow> False)"
| "expr_ok (EXPR_IDX p e) = (path_ok p \<and> expr_ok e)"
| "expr_ok (EXPR_LIT n) = a_number n"
| "expr_ok (EXPR_PATH p) = path_ok p"
| "expr_ok (EXPR_UN op e) = (op \<in> set [Ch CHR ''+'', Ch CHR ''-'', T_NOT] \<and> expr_ok e)"
| "expr_ok (EXPR_ADDROF e) = expr_ok e"

fun lvalue_shape :: "ast_expr \<Rightarrow> bool" where
  "lvalue_shape (EXPR_PATH p) = True"
| "lvalue_shape (EXPR_IDX p e) = True"
| "lvalue_shape (EXPR_DEREF e) = True"
| "lvalue_shape _ = False"

fun stmt_shape :: "ast_stmt option \<Rightarrow> bool" and stmts_shape :: "ast_stmt option list \<Rightarrow> bool" where
  "stmt_shape None = True"
| "stmt_shape (Some (STMT_ASSIGN l e)) = (lvalue_shape l \<and> expr_ok l \<and> expr_ok e)"
| "stmt_shape (Some (STMT_FOR i a b s)) = (a_name i \<and> expr_ok a \<and> expr_ok b \<and> stmt_shape s)"
| "stmt_shape (Some (STMT_ITE c th el)) = (expr_ok c \<and> stmt_shape th \<and> stmt_shape el)"
| "stmt_shape (Some (STMT_PROC p es)) = (path_ok p \<and> list_all expr_ok es)"
| "stmt_shape (Some (STMT_STMTS ss)) = (ss \<noteq> [] \<and> stmts_shape ss)"
| "stmt_shape (Some (STMT_WDO c s)) = (expr_ok c \<and> stmt_shape s)"
| "stmts_shape [] = True"
| "stmts_shape (s # ss) = (stmt_shape s \<and> stmts_shape ss)"

definition body_ok :: "ast_stmt option \<Rightarrow> bool" where
  "body_ok s \<longleftrightarrow> stmt_shape s \<and> (case s of None \<Rightarrow> True | Some (STMT_STMTS ss) \<Rightarrow> True | _ \<Rightarrow> False)"

definition standard :: "ast_type \<Rightarrow> bool" where
  "standard t \<longleftrightarrow> t \<in> {TYPE_INTEGER, TYPE_REAL, TYPE_STRING, TYPE_BOOLEAN, TYPE_CHAR}"

fun type_ok :: "ast_type \<Rightarrow> bool" and field_ok :: "ast_record_field \<Rightarrow> bool" where
  "type_ok (TYPE_ARRAY l u t) = (a_number l \<and> a_number u \<and> standard t)"
| "type_ok (TYPE_POINTER t) = type_ok t"
| "type_ok (TYPE_REF n) = a_name n"
| "type_ok (TYPE_RECORD fs) = list_all field_ok fs"
| "type_ok t = standard t"
| "field_ok (Field n t) = (a_name n \<and> type_ok t)"

definition decls_ok :: "ast_decls \<Rightarrow> bool" where
  "decls_ok d \<longleftrightarrow> d_names d \<noteq> [] \<and> list_all a_name (d_names d) \<and> type_ok (d_type d)"

definition type_decl_ok :: "ast_type_decl \<Rightarrow> bool" where
  "type_decl_ok d \<longleftrightarrow> a_name (td_name d) \<and> type_ok (td_type d)"

definition head_ok :: "ast_type \<Rightarrow> bool" where
  "head_ok t = (case t of
     TYPE_FUNCTION SUB_FUNCTION args (Some r) \<Rightarrow> list_all decls_ok args \<and> standard r
   | TYPE_FUNCTION SUB_PROCEDURE args None \<Rightarrow> list_all decls_ok args
   | _ \<Rightarrow> False)"

fun subdecl_ok :: "ast_subdecl \<Rightarrow> bool" where
  "subdecl_ok (Subdecl h n ds subs ts b) = (head_ok h \<and> a_name n \<and> list_all decls_ok ds \<and> list_all subdecl_ok subs
     \<and> list_all type_decl_ok ts \<and> body_ok b)"

definition parseable :: "ast_program \<Rightarrow> bool" where
  "parseable p \<longleftrightarrow> a_name (p_name p) \<and> list_all a_name (p_args p) \<and> list_all decls_ok (p_decls p)
     \<and> list_all subdecl_ok (p_subprogs p) \<and> list_all type_decl_ok (p_types p) \<and> body_ok (p_body p)"

section \<open>The value of a tree\<close>

text \<open>The tokens of a text can be read.\<close>

lemma action_kinds:
  assumes "(p, a) \<in> set rules" and "a w = Some t"
  shows "t = T_ID n \<Longrightarrow> p = name_pat \<and> n = w" and "t = T_NUM n \<Longrightarrow> p = number \<and> n = w"
  using assms by (auto simp: rules_def skips_def reserved_def operators_def char_token_def split: if_splits)

lemma pick_most:
  assumes "pick rules s = Some (n, a)"
  shows "n \<le> length s" "\<forall>(q, b) \<in> set rules. \<forall>m. longest q s = Some m \<longrightarrow> m \<le> n"
proof -
  from assms have c: "n \<le> length s" "\<forall>(q, b) \<in> set rules. \<forall>m. n < m \<longrightarrow> m \<le> length s \<longrightarrow> \<not> matches q (take m s)"
    unfolding pick_chosen chosen_def by blast+
  then show "n \<le> length s" "\<forall>(q, b) \<in> set rules. \<forall>m. longest q s = Some m \<longrightarrow> m \<le> n"
    by (fastforce simp: longest_spec not_le [symmetric])+
qed

lemma picked_token_ok:
  assumes p: "pick rules s = Some (n, a)" and t: "a (take n s) = Some t"
  shows "token_ok t"
proof -
  from pick_rule [OF p] obtain q where q: "(q, a) \<in> set rules" "matches q (take n s)" by blast
  have "a_name m" if m: "t = T_ID m" for m
  proof -
    have n: "q = name_pat" "m = take n s" using action_kinds(1) [OF q(1) t m] by simp_all
    have "m \<notin> set (map fst reserved)"
    proof
      assume "m \<in> set (map fst reserved)"
      then obtain k where "(m, k) \<in> set (reserved @ operators)" by fastforce
      from spelled_word(2) [OF this] have "pick rules s = Some (n, \<lambda>_. Some k)"
        by (intro pick_first [OF pick_most(2,1) [OF p]]) (simp add: n(2))
      with p have "a = (\<lambda>_. Some k)" by simp
      with t m have "k = T_ID m" by simp
      with \<open>(m, k) \<in> set (reserved @ operators)\<close> show False by (auto simp: reserved_def operators_def)
    qed
    then show ?thesis using q(2) unfolding n(1) n(2) [symmetric] by (simp add: a_name_def scannable_def matches_ident)
  qed
  moreover have "a_number m" if m: "t = T_NUM m" for m
    using action_kinds(2) [OF q(1) t m] q(2) by (simp add: a_number_def scannable_def matches_fold)
  ultimately show ?thesis by (cases t) (simp_all add: token_ok_def)
qed

lemma scan_tokens_ok: "list_all token_ok (scan s)"
  unfolding scan_tokens
proof (induction s rule: tokens_of.induct)
  case (1 s)
  show ?case
  proof (cases "pick rules s")
    case None
    then show ?thesis by (subst tokens_of.simps) simp
  next
    case (Some na)
    obtain n act where p: "pick rules s = Some (n, act)" using Some by (cases na) auto
    show ?thesis
    proof (cases "act (take n s)")
      case None
      with "1.IH"(1) [OF p HOL.refl None] p show ?thesis by (subst tokens_of.simps) simp
    next
      case (Some t)
      with "1.IH"(2) [OF p HOL.refl Some] picked_token_ok [OF p Some] p show ?thesis
        by (subst tokens_of.simps) simp
    qed
  qed
qed

text \<open>Semantic actions succeed, with a parseable value.\<close>

lemmas constructors = ast_expr_new_def ast_stmt_new_def ast_type_new_def stmt_value_def nonnull_type_def

lemma token_ok_simps [simp]: "token_ok (Ch c)" "token_ok (T_ID n) = a_name n" "token_ok (T_NUM n) = a_number n"
  by (simp_all add: token_ok_def)

lemma ids_value: "list_all token_ok (ids_yield ns) \<Longrightarrow> ids_act ns \<noteq> [] \<and> list_all a_name (ids_act ns)"
  by (induction ns) auto

lemma path_value: "list_all token_ok (path_yield p) \<Longrightarrow> path_ok (path_act p)"
  by (induction p) (auto simp: path_ok_def ast_path_new_def ast_path_append_def)

lemma standard_value: "\<exists>a. standard_act t = Inr (Some a) \<and> standard a"
  by (cases t) (simp_all add: constructors standard_def)

lemma standard_type_ok: "standard t \<Longrightarrow> type_ok t"
  by (auto simp: standard_def)

lemma type_value:
  "list_all token_ok (type_yield t) \<Longrightarrow> \<exists>a. type_act t = Inr (Some a) \<and> type_ok a"
  "list_all token_ok (fields_yield fs) \<Longrightarrow> \<exists>as. fields_act fs = Inr as \<and> list_all field_ok as"
proof (induction t and fs)
  case (STANDARD t)
  with standard_value [of t] show ?case by (auto intro: standard_type_ok)
next
  case (ARRAY_OF l u t)
  with standard_value [of t] show ?case by (auto simp: constructors)
qed (auto simp: constructors ast_record_field_new_def)

lemma typed_value: "list_all token_ok (type_yield t) \<Longrightarrow> \<exists>a. typed_act t = Inr a \<and> type_ok a"
  using type_value(1) [of t] by (auto simp: typed_act_def nonnull_type_def)

lemma types_value: "list_all token_ok (types_yield ts) \<Longrightarrow> \<exists>a. types_act ts = Inr a \<and> list_all type_decl_ok a"
  by (induction ts) (auto simp: type_decl_ok_def ast_type_decl_new_def dest: typed_value)

lemma decls_value: "list_all token_ok (decls_yield ds) \<Longrightarrow> \<exists>a. decls_act ds = Inr a \<and> list_all decls_ok a"
  by (induction ds) (auto simp: decls_ok_def ast_decls_new_def dest!: typed_value ids_value)

lemma params_value: "list_all token_ok (params_yield ps) \<Longrightarrow> \<exists>a. params_act ps = Inr a \<and> list_all decls_ok a"
  by (induction ps) (auto simp: decls_ok_def ast_decls_new_def dest!: typed_value ids_value)

lemma args_value: "list_all token_ok (args_yield as) \<Longrightarrow> \<exists>a. args_act as = Inr a \<and> list_all decls_ok a"
  by (cases as) (auto dest: params_value)

lemma op_values:
  "binary_op (relop_act r)" "binary_op (addop_act a)" "binary_op (mulop_act m)"
  "sign_act s \<in> set [Ch CHR ''+'', Ch CHR ''-'', T_NOT]"
proof -
  show "binary_op (relop_act r)" by (cases r) (simp_all add: binary_op_def)
  show "binary_op (addop_act a)" by (cases a) (simp_all add: binary_op_def)
  show "binary_op (mulop_act m)" by (cases m) (simp_all add: binary_op_def)
  show "sign_act s \<in> set [Ch CHR ''+'', Ch CHR ''-'', T_NOT]" by (cases s) simp_all
qed

lemma expr_value:
  "list_all token_ok (expr_yield e) \<Longrightarrow> \<exists>a. expr_act e = Inr a \<and> expr_ok a"
  "list_all token_ok (simple_yield se) \<Longrightarrow> \<exists>a. simple_act se = Inr a \<and> expr_ok a"
  "list_all token_ok (term_yield t) \<Longrightarrow> \<exists>a. term_act t = Inr a \<and> expr_ok a"
  "list_all token_ok (factor_yield f) \<Longrightarrow> \<exists>a. factor_act f = Inr a \<and> expr_ok a"
  "list_all token_ok (lvalue_yield l) \<Longrightarrow> \<exists>a. lvalue_act l = Inr a \<and> expr_ok a \<and> lvalue_shape a"
  "list_all token_ok (exprs_yield es) \<Longrightarrow> \<exists>a. exprs_act es = Inr a \<and> list_all expr_ok a"
  using op_values by (induction e and se and t and f and l and es) (auto simp: constructors path_value)

lemma proc_value: "list_all token_ok (proc_yield p) \<Longrightarrow> \<exists>a. proc_act p = Inr a \<and> stmt_shape (Some a)"
  by (cases p) (auto simp: constructors path_value dest: expr_value(6))

lemma stmts_shape_append [simp]: "stmts_shape (ss @ ts) \<longleftrightarrow> stmts_shape ss \<and> stmts_shape ts"
  by (induction ss) auto

lemma stmt_values:
  "list_all token_ok (stmt_yield s) \<Longrightarrow> \<exists>a. stmt_act s = Inr a \<and> stmt_shape a"
  "list_all token_ok (compound_yield c) \<Longrightarrow> \<exists>a. compound_act c = Inr a \<and> body_ok a"
  "list_all token_ok (stmts_yield ss) \<Longrightarrow> \<exists>a. stmts_act ss = Inr a \<and> a \<noteq> [] \<and> stmts_shape a"
proof (induction s and c and ss)
  case (ASSIGN l e)
  then show ?case using expr_value(1) [of e] expr_value(5) [of l] by (auto simp: constructors)
next
  case (PROC_STATEMENT p)
  then show ?case using proc_value [of p] by auto
next
  case (COMPOUND c)
  then show ?case by (auto simp: body_ok_def)
next
  case (IF_THEN c th)
  then show ?case using expr_value(1) [of c] by (auto simp: constructors)
next
  case (IF_THEN_ELSE c th el)
  then show ?case using expr_value(1) [of c] by (auto simp: constructors)
next
  case (WHILE_DO c s)
  then show ?case using expr_value(1) [of c] by (auto simp: constructors)
next
  case (FOR_TO i a b s)
  then show ?case using expr_value(1) [of a] expr_value(1) [of b] by (auto simp: constructors)
qed (auto simp: constructors body_ok_def)

lemma sub_value:
  "list_all token_ok (sub_yield s) \<Longrightarrow> \<exists>a. sub_act s = Inr a \<and> subdecl_ok a"
  "list_all token_ok (subs_yield ss) \<Longrightarrow> \<exists>a. subs_act ss = Inr a \<and> list_all subdecl_ok a"
proof (induction s and ss)
  case (FUN n as t subs ts ds b)
  then show ?case
    using args_value [of as] standard_value [of t] types_value [of ts] decls_value [of ds] stmt_values(2) [of b]
    by (auto simp: constructors ast_subprogram_decl_def head_ok_def)
next
  case (PROCEDURE n as subs ts ds b)
  then show ?case
    using args_value [of as] types_value [of ts] decls_value [of ds] stmt_values(2) [of b]
    by (auto simp: constructors ast_subprogram_decl_def head_ok_def)
qed auto

lemma program_value:
  assumes "list_all token_ok (program_yield t)"
  shows "\<exists>p. program_act t = Inr p \<and> parseable p"
proof (cases t)
  case (PROGRAM n ns ts ds subs b)
  moreover have "list_all a_name (opt_ids_act ns)" if "list_all token_ok (opt_ids_yield ns)"
    using that by (cases ns) (auto dest: ids_value)
  ultimately show ?thesis
    using assms types_value [of ts] decls_value [of ds] sub_value(2) [of subs] stmt_values(2) [of b]
    by (auto simp: ast_program_new_def parseable_def)
qed

section \<open>A tree for every parseable program\<close>

text \<open>Lists grow at their end: \<open>snoc\<close> is the production that adds an element.\<close>

locale left_list =
  fixes snoc :: "'t \<Rightarrow> 'e \<Rightarrow> 't" and val :: "'t \<Rightarrow> 'v list result" and elt :: "'e \<Rightarrow> 'v result"
    and yields :: "'t \<Rightarrow> token list" and ok :: "'e \<Rightarrow> bool"
  assumes val_snoc: "val (snoc t e) = bindr (val t) (\<lambda>vs. bindr (elt e) (\<lambda>v. Inr (vs @ [v])))"
    and yields_snoc: "list_all scannable (yields (snoc t e)) \<longleftrightarrow> list_all scannable (yields t) \<and> ok e"
begin

lemma val_foldl: "val t = Inr us \<Longrightarrow> \<forall>v \<in> set vs. elt (f v) = Inr v \<Longrightarrow> val (foldl snoc t (map f vs)) = Inr (us @ vs)"
  by (induction vs arbitrary: t us) (simp_all add: val_snoc)

lemma yields_foldl: "list_all scannable (yields (foldl snoc t es)) \<longleftrightarrow> list_all scannable (yields t) \<and> list_all ok es"
  by (induction es arbitrary: t) (auto simp: yields_snoc)

end

lemma bindr_bindr: "bindr (bindr m f) g = bindr m (\<lambda>x. bindr (f x) g)"
  by (cases m) simp_all

lemma scannable_simps [simp]:
  "scannable (T_ID n) = a_name n" "scannable (T_NUM n) = a_number n"
  by (simp_all add: a_name_def a_number_def)

lemma scannable_tokens [simp]:
  "scannable T_AND" "scannable T_ARRAY" "scannable T_BOOLEAN" "scannable T_CHAR" "scannable T_DIV" "scannable T_DO"
  "scannable T_ELSE" "scannable T_END" "scannable T_FOR" "scannable T_FUNCTION" "scannable T_IF" "scannable T_INTEGER"
  "scannable T_MOD" "scannable T_NOT" "scannable T_OF" "scannable T_OR" "scannable T_PROCEDURE" "scannable T_PROGRAM"
  "scannable T_REAL" "scannable T_RECORD" "scannable T_STRING" "scannable T_TBEGIN" "scannable T_THEN" "scannable T_TO"
  "scannable T_TYPE" "scannable T_VAR" "scannable T_WHILE" "scannable T_NEQ" "scannable T_DOTDOT" "scannable T_ASSIGNOP"
  "scannable T_LE" "scannable T_GE"
  by (simp_all add: scannable_def)

lemma scannable_chars [simp]: "c \<in> set ''(),:;.[]^=<>+-*/@'' \<Longrightarrow> scannable (Ch c)"
  by (auto simp: scannable_def letter_def digit_def less_eq_char_def)

interpretation il: left_list ID_SNOC "\<lambda>t. Inr (ids_act t)" Inr ids_yield a_name
  by unfold_locales auto

interpretation pl: left_list PATH_DOT "\<lambda>t. Inr (path_act t)" Inr path_yield a_name
  by unfold_locales (auto simp: ast_path_append_def)

interpretation el: left_list MORE exprs_act expr_act exprs_yield "\<lambda>e. list_all scannable (expr_yield e)"
  by unfold_locales auto

interpretation sl: left_list AND_THEN stmts_act stmt_act stmts_yield "\<lambda>s. list_all scannable (stmt_yield s)"
  by unfold_locales auto

interpretation fl: left_list "\<lambda>t (n, ty). FIELDS t n ty" fields_act "\<lambda>(n, ty). bindr (typed_act ty) (\<lambda>ty. Inr (ast_record_field_new n ty))"
  fields_yield "\<lambda>(n, ty). a_name n \<and> list_all scannable (type_yield ty)"
  by unfold_locales (auto simp: typed_act_def bindr_bindr split: prod.splits)

interpretation tl: left_list "\<lambda>t (n, ty). TYPES t n ty" types_act "\<lambda>(n, ty). bindr (typed_act ty) (\<lambda>ty. Inr (ast_type_decl_new n ty))"
  types_yield "\<lambda>(n, ty). a_name n \<and> list_all scannable (type_yield ty)"
  by unfold_locales (auto simp: bindr_bindr split: prod.splits)

interpretation dl: left_list "\<lambda>t (ns, ty). DECLS t ns ty" decls_act "\<lambda>(ns, ty). bindr (typed_act ty) (\<lambda>ty. Inr (ast_decls_new (ids_act ns) ty))"
  decls_yield "\<lambda>(ns, ty). list_all scannable (ids_yield ns) \<and> list_all scannable (type_yield ty)"
  by unfold_locales (auto simp: bindr_bindr split: prod.splits)

interpretation al: left_list "\<lambda>t (ns, ty). PARAM_SNOC t ns ty" params_act "\<lambda>(ns, ty). bindr (typed_act ty) (\<lambda>ty. Inr (ast_decls_new (ids_act ns) ty))"
  params_yield "\<lambda>(ns, ty). list_all scannable (ids_yield ns) \<and> list_all scannable (type_yield ty)"
  by unfold_locales (auto simp: bindr_bindr split: prod.splits)

interpretation ul: left_list SUBPROGRAMS subs_act sub_act subs_yield "\<lambda>s. list_all scannable (sub_yield s)"
  by unfold_locales auto

text \<open>Every subexpression is put in parentheses, and every IF gets an ELSE.\<close>

definition ids_of :: "string list \<Rightarrow> identifier_list" where
  "ids_of ns = foldl ID_SNOC (ID1 (hd ns)) (tl ns)"

definition path_of :: "ast_path \<Rightarrow> path_tree" where
  "path_of p = foldl PATH_DOT (PATH_ID (hd p)) (tl p)"

definition standard_of :: "ast_type \<Rightarrow> standard_type" where
  "standard_of t = (case t of TYPE_REAL \<Rightarrow> S_REAL | TYPE_STRING \<Rightarrow> S_STRING | TYPE_BOOLEAN \<Rightarrow> S_BOOLEAN
     | TYPE_CHAR \<Rightarrow> S_CHAR | _ \<Rightarrow> S_INTEGER)"

fun type_of :: "ast_type \<Rightarrow> type_tree" and field_of :: "ast_record_field \<Rightarrow> string \<times> type_tree" where
  "type_of (TYPE_ARRAY l u t) = ARRAY_OF l u (standard_of t)"
| "type_of (TYPE_POINTER t) = POINTER_TO (type_of t)"
| "type_of (TYPE_REF n) = NAMED n"
| "type_of (TYPE_RECORD fs) = RECORD_OF (foldl (\<lambda>t (n, ty). FIELDS t n ty) NO_FIELDS (map field_of fs))"
| "type_of t = STANDARD (standard_of t)"
| "field_of (Field n t) = (n, type_of t)"

definition types_of :: "ast_type_decl list \<Rightarrow> type_declarations" where
  "types_of ds = foldl (\<lambda>t (n, ty). TYPES t n ty) NO_TYPES (map (\<lambda>d. (td_name d, type_of (td_type d))) ds)"

definition decl_of :: "ast_decls \<Rightarrow> identifier_list \<times> type_tree" where
  "decl_of d = (ids_of (d_names d), type_of (d_type d))"

definition decls_of :: "ast_decls list \<Rightarrow> declarations" where
  "decls_of ds = foldl (\<lambda>t (ns, ty). DECLS t ns ty) NO_DECLS (map decl_of ds)"

definition args_of :: "ast_decls list \<Rightarrow> arguments" where
  "args_of ds = (case ds of [] \<Rightarrow> NO_ARGS
     | d # ds \<Rightarrow> ARGS (foldl (\<lambda>t (ns, ty). PARAM_SNOC t ns ty) (case decl_of d of (ns, ty) \<Rightarrow> PARAM1 ns ty) (map decl_of ds)))"

definition relop_of :: "token \<Rightarrow> relop" where
  "relop_of op = (if op = T_NEQ then R_NEQ else if op = T_LE then R_LE else if op = T_GE then R_GE
     else if op = Ch CHR ''<'' then R_LT else if op = Ch CHR ''>'' then R_GT else R_EQ)"

definition addop_of :: "token \<Rightarrow> addop" where
  "addop_of op = (if op = T_OR then A_OR else if op = Ch CHR ''-'' then A_MINUS else A_PLUS)"

definition mulop_of :: "token \<Rightarrow> mulop" where
  "mulop_of op = (if op = T_DIV then M_DIV else if op = T_MOD then M_MOD else if op = T_AND then M_AND
     else if op = Ch CHR ''/'' then M_SLASH else M_TIMES)"

abbreviation expr_of_factor :: "factor \<Rightarrow> expression" where
  "expr_of_factor f \<equiv> SIMPLE (A_TERM (FACTOR f))"

definition exprs_of :: "expression list \<Rightarrow> expression_list" where
  "exprs_of es = (case es of [] \<Rightarrow> NO_EXPRS | e # es \<Rightarrow> foldl MORE (ONE e) es)"

definition binary_of :: "factor \<Rightarrow> token \<Rightarrow> factor \<Rightarrow> expression" where
  "binary_of l op r = (if is_relop op then REL (A_TERM (FACTOR l)) (relop_of op) (A_TERM (FACTOR r))
     else if op \<in> set [Ch CHR ''+'', Ch CHR ''-'', T_OR] then SIMPLE (ADD (A_TERM (FACTOR l)) (addop_of op) (FACTOR r))
     else SIMPLE (A_TERM (MUL (FACTOR l) (mulop_of op) r)))"

fun factor_of :: "ast_expr \<Rightarrow> factor" where
  "factor_of (EXPR_APP p es) = APP (path_of p) (exprs_of (map (\<lambda>e. expr_of_factor (factor_of e)) es))"
| "factor_of (EXPR_BIN l op r) = PAR (binary_of (factor_of l) op (factor_of r))"
| "factor_of (EXPR_DEREF e) = LVALUE (DEREF (case e of EXPR_PATH p \<Rightarrow> path_of p | _ \<Rightarrow> PATH_ID []))"
| "factor_of (EXPR_IDX p e) = LVALUE (INDEX (path_of p) (expr_of_factor (factor_of e)))"
| "factor_of (EXPR_LIT n) = NUM n"
| "factor_of (EXPR_PATH p) = LVALUE (PATH (path_of p))"
| "factor_of (EXPR_UN op e) = (if op = T_NOT then NOT_OF (factor_of e)
     else PAR (SIMPLE (SIGNED (if op = Ch CHR ''-'' then S_MINUS else S_PLUS) (FACTOR (factor_of e)))))"
| "factor_of (EXPR_ADDROF e) = ADDRESS (factor_of e)"

definition expr_of :: "ast_expr \<Rightarrow> expression" where
  "expr_of e = expr_of_factor (factor_of e)"

definition lvalue_of :: "ast_expr \<Rightarrow> lvalue" where
  "lvalue_of e = (case factor_of e of LVALUE l \<Rightarrow> l | _ \<Rightarrow> PATH (PATH_ID []))"

definition stmts_of :: "statement list \<Rightarrow> optional_statements" where
  "stmts_of ss = (case ss of [] \<Rightarrow> NO_STATEMENTS | s # ss \<Rightarrow> STATEMENTS (foldl AND_THEN (LAST s) ss))"

fun stmt_of :: "ast_stmt option \<Rightarrow> statement" and stmt_list_of :: "ast_stmt option list \<Rightarrow> statement list" where
  "stmt_of None = COMPOUND NO_STATEMENTS"
| "stmt_of (Some (STMT_ASSIGN l e)) = ASSIGN (lvalue_of l) (expr_of e)"
| "stmt_of (Some (STMT_FOR i a b s)) = FOR_TO i (expr_of a) (expr_of b) (stmt_of s)"
| "stmt_of (Some (STMT_ITE c th el)) = IF_THEN_ELSE (expr_of c) (stmt_of th) (stmt_of el)"
| "stmt_of (Some (STMT_PROC p es)) = PROC_STATEMENT (PROC_ARGS (path_of p) (exprs_of (map expr_of es)))"
| "stmt_of (Some (STMT_STMTS ss)) = COMPOUND (stmts_of (stmt_list_of ss))"
| "stmt_of (Some (STMT_WDO c s)) = WHILE_DO (expr_of c) (stmt_of s)"
| "stmt_list_of [] = []"
| "stmt_list_of (s # ss) = stmt_of s # stmt_list_of ss"

definition body_of :: "ast_stmt option \<Rightarrow> optional_statements" where
  "body_of s = (case stmt_of s of COMPOUND c \<Rightarrow> c | _ \<Rightarrow> NO_STATEMENTS)"

definition subs_of :: "subprogram_declaration list \<Rightarrow> subprogram_declarations" where
  "subs_of ss = foldl SUBPROGRAMS NO_SUBPROGRAMS ss"

fun sub_of :: "ast_subdecl \<Rightarrow> subprogram_declaration" where
  "sub_of (Subdecl h n ds subs ts b) = (case h of
     TYPE_FUNCTION SUB_FUNCTION args (Some r) \<Rightarrow>
       FUN n (args_of args) (standard_of r) (subs_of (map sub_of subs)) (types_of ts) (decls_of ds) (body_of b)
   | TYPE_FUNCTION k args r \<Rightarrow> PROCEDURE n (args_of args) (subs_of (map sub_of subs)) (types_of ts) (decls_of ds) (body_of b)
   | _ \<Rightarrow> PROCEDURE n NO_ARGS NO_SUBPROGRAMS NO_TYPES NO_DECLS NO_STATEMENTS)"

definition tree_of :: "ast_program \<Rightarrow> program_tree" where
  "tree_of p = PROGRAM (p_name p) (if p_args p = [] then NO_IDS else IDS (ids_of (p_args p))) (types_of (p_types p))
     (decls_of (p_decls p)) (subs_of (map sub_of (p_subprogs p))) (body_of (p_body p))"

definition source_of :: "ast_program \<Rightarrow> string" where
  "source_of p = unscan (program_yield (tree_of p))"

section \<open>The tree has the program as its value\<close>

lemma ids_of_ok: "ns \<noteq> [] \<Longrightarrow> list_all a_name ns \<Longrightarrow> ids_act (ids_of ns) = ns \<and> list_all scannable (ids_yield (ids_of ns))"
  using il.val_foldl [of "ID1 (hd ns)" "[hd ns]" "tl ns" "\<lambda>n. n"] il.yields_foldl [of "ID1 (hd ns)" "tl ns"]
  by (cases ns) (simp_all add: ids_of_def)

lemma path_of_ok: "path_ok p \<Longrightarrow> path_act (path_of p) = p \<and> list_all scannable (path_yield (path_of p))"
  using pl.val_foldl [of "PATH_ID (hd p)" "[hd p]" "tl p" "\<lambda>n. n"] pl.yields_foldl [of "PATH_ID (hd p)" "tl p"]
  by (cases p) (simp_all add: path_of_def path_ok_def ast_path_new_def)

lemma standard_of_ok:
  "standard t \<Longrightarrow> standard_act (standard_of t) = Inr (Some t) \<and> list_all scannable (standard_yield (standard_of t))"
  by (auto simp: standard_def standard_of_def constructors)

lemma type_of_ok:
  "type_ok t \<Longrightarrow> type_act (type_of t) = Inr (Some t) \<and> list_all scannable (type_yield (type_of t))"
  "field_ok f \<Longrightarrow> (case field_of f of (n, ty) \<Rightarrow> bindr (typed_act ty) (\<lambda>ty. Inr (ast_record_field_new n ty))) = Inr f
     \<and> (case field_of f of (n, ty) \<Rightarrow> a_name n \<and> list_all scannable (type_yield ty))"
proof (induction t and f rule: type_of_field_of.induct)
  case (4 fs)
  then have f: "\<forall>f \<in> set fs. (case field_of f of (n, ty) \<Rightarrow> bindr (typed_act ty) (\<lambda>ty. Inr (ast_record_field_new n ty))) = Inr f"
    "list_all (\<lambda>(n, ty). a_name n \<and> list_all scannable (type_yield ty)) (map field_of fs)"
    by (auto simp: list_all_iff)
  show ?case using fl.val_foldl [of NO_FIELDS "[]" fs field_of, OF _ f(1)] f(2) fl.yields_foldl [of NO_FIELDS "map field_of fs"]
    by (simp add: constructors)
qed (auto simp: constructors typed_act_def ast_record_field_new_def standard_of_ok standard_def)

lemma typed_of_ok: "type_ok t \<Longrightarrow> typed_act (type_of t) = Inr t"
  using type_of_ok(1) [of t] by (simp add: typed_act_def nonnull_type_def)

lemma types_of_ok:
  "list_all type_decl_ok ds \<Longrightarrow> types_act (types_of ds) = Inr ds \<and> list_all scannable (types_yield (types_of ds))"
proof -
  assume ok: "list_all type_decl_ok ds"
  let ?f = "\<lambda>d. (td_name d, type_of (td_type d))"
  have "\<forall>d \<in> set ds. (case ?f d of (n, ty) \<Rightarrow> bindr (typed_act ty) (\<lambda>ty. Inr (ast_type_decl_new n ty))) = Inr d"
    using ok by (auto simp: list_all_iff type_decl_ok_def typed_of_ok ast_type_decl_new_def)
  moreover have "list_all (\<lambda>(n, ty). a_name n \<and> list_all scannable (type_yield ty)) (map ?f ds)"
    using ok type_of_ok(1) by (auto simp: list_all_iff type_decl_ok_def)
  ultimately show ?thesis
    using tl.val_foldl [of NO_TYPES "[]" ds ?f] tl.yields_foldl [of NO_TYPES "map ?f ds"] by (simp add: types_of_def)
qed

lemma decl_of_ok:
  assumes "list_all decls_ok ds"
  shows "\<forall>d \<in> set ds. (case decl_of d of (ns, ty) \<Rightarrow> bindr (typed_act ty) (\<lambda>ty. Inr (ast_decls_new (ids_act ns) ty))) = Inr d"
    and "list_all (\<lambda>(ns, ty). list_all scannable (ids_yield ns) \<and> list_all scannable (type_yield ty)) (map decl_of ds)"
  using assms ids_of_ok type_of_ok(1)
  by (auto simp: list_all_iff decls_ok_def decl_of_def typed_of_ok ast_decls_new_def)

lemma decls_of_ok:
  "list_all decls_ok ds \<Longrightarrow> decls_act (decls_of ds) = Inr ds \<and> list_all scannable (decls_yield (decls_of ds))"
  using decl_of_ok [of ds] dl.val_foldl [of NO_DECLS "[]" ds decl_of] dl.yields_foldl [of NO_DECLS "map decl_of ds"]
  by (simp add: decls_of_def)

lemma args_of_ok:
  assumes "list_all decls_ok ds"
  shows "args_act (args_of ds) = Inr ds \<and> list_all scannable (args_yield (args_of ds))"
proof (cases ds)
  case (Cons d es)
  obtain ns ty where d: "decl_of d = (ns, ty)" by fastforce
  with Cons decl_of_ok [OF assms] have 1: "params_act (PARAM1 ns ty) = Inr [d]"
    "list_all scannable (params_yield (PARAM1 ns ty))" by (auto simp: bindr_Inr_iff)
  have "list_all decls_ok es" using assms Cons by simp
  from decl_of_ok [OF this] al.val_foldl [OF 1(1), of es decl_of] al.yields_foldl [of "PARAM1 ns ty" "map decl_of es"] 1(2)
  show ?thesis by (simp add: args_of_def Cons d)
qed (simp add: args_of_def)

lemma op_of_ok:
  "is_relop op \<Longrightarrow> relop_act (relop_of op) = op"
  "op \<in> set [Ch CHR ''+'', Ch CHR ''-'', T_OR] \<Longrightarrow> addop_act (addop_of op) = op"
  "op \<in> set [Ch CHR ''*'', Ch CHR ''/'', T_DIV, T_MOD, T_AND] \<Longrightarrow> mulop_act (mulop_of op) = op"
  by (cases op rule: is_relop.cases) (auto simp: relop_of_def addop_of_def mulop_of_def split: if_splits)

lemma binary_op_scannable: "binary_op op \<Longrightarrow> scannable op"
  by (cases op rule: is_relop.cases) (auto simp: binary_op_def)

lemma binary_of_ok:
  assumes "binary_op op" and "factor_act l = Inr a" and "factor_act r = Inr b"
  shows "expr_act (binary_of l op r) = Inr (EXPR_BIN a op b)"
    and "expr_yield (binary_of l op r) = factor_yield l @ [op] @ factor_yield r"
  using assms op_of_ok [of op] by (auto simp: binary_of_def binary_op_def constructors)

lemma exprs_of_ok:
  assumes "\<forall>e \<in> set es. expr_act (f e) = Inr e \<and> list_all scannable (expr_yield (f e))"
  shows "exprs_act (exprs_of (map f es)) = Inr es \<and> list_all scannable (exprs_yield (exprs_of (map f es)))"
proof (cases es)
  case (Cons e r)
  with assms el.val_foldl [of "ONE (f e)" "[e]" r f] el.yields_foldl [of "ONE (f e)" "map f r"] show ?thesis
    by (simp add: exprs_of_def list_all_iff)
qed (simp add: exprs_of_def)

lemma factor_of_ok: "expr_ok e \<Longrightarrow> factor_act (factor_of e) = Inr e \<and> list_all scannable (factor_yield (factor_of e))"
proof (induction e rule: factor_of.induct)
  case (1 p es)
  then have "\<forall>e \<in> set es. expr_act (expr_of_factor (factor_of e)) = Inr e
      \<and> list_all scannable (expr_yield (expr_of_factor (factor_of e)))" by (simp add: list_all_iff)
  from exprs_of_ok [OF this] 1 path_of_ok [of p] show ?case by (simp add: constructors)
next
  case (2 l op r)
  then show ?case using binary_of_ok [of op "factor_of l" l "factor_of r" r] binary_op_scannable [of op] by simp
next
  case (3 e)
  then obtain p where "e = EXPR_PATH p" "path_ok p" by (auto split: ast_expr.splits)
  then show ?case using path_of_ok [of p] by (simp add: constructors)
next
  case (4 p e)
  then show ?case using path_of_ok [of p] by (simp add: constructors)
next
  case (6 p)
  then show ?case using path_of_ok [of p] by (simp add: constructors)
next
  case (7 op e)
  then show ?case by (auto simp: constructors)
qed (auto simp: constructors)

lemma expr_of_ok: "expr_ok e \<Longrightarrow> expr_act (expr_of e) = Inr e \<and> list_all scannable (expr_yield (expr_of e))"
  using factor_of_ok [of e] by (simp add: expr_of_def)

lemma lvalue_of_ok:
  "lvalue_shape e \<Longrightarrow> expr_ok e \<Longrightarrow> lvalue_act (lvalue_of e) = Inr e \<and> list_all scannable (lvalue_yield (lvalue_of e))"
  using factor_of_ok [of e] by (cases e) (simp_all add: lvalue_of_def)

lemma stmt_list_of: "stmt_list_of ss = map stmt_of ss"
  by (induction ss) auto

lemma resolved_foldl: "resolved_stmts (foldl AND_THEN t ss) \<longleftrightarrow> resolved_stmts t \<and> list_all resolved ss"
  by (induction ss arbitrary: t) auto

definition stmt_good :: "ast_stmt option \<Rightarrow> bool" where
  "stmt_good s \<longleftrightarrow> stmt_act (stmt_of s) = Inr s \<and> list_all scannable (stmt_yield (stmt_of s)) \<and> resolved (stmt_of s)
     \<and> \<not> dangling (stmt_of s)"

lemma stmts_of_ok:
  assumes "ss \<noteq> []" and "list_all stmt_good ss"
  shows "compound_act (stmts_of (map stmt_of ss)) = Inr (Some (STMT_STMTS ss))
    \<and> list_all scannable (compound_yield (stmts_of (map stmt_of ss))) \<and> resolved_compound (stmts_of (map stmt_of ss))"
proof (cases ss)
  case (Cons s r)
  with assms sl.val_foldl [of "LAST (stmt_of s)" "[s]" r stmt_of] sl.yields_foldl [of "LAST (stmt_of s)" "map stmt_of r"]
    resolved_foldl [of "LAST (stmt_of s)" "map stmt_of r"]
  show ?thesis by (simp add: stmts_of_def list_all_iff stmt_good_def constructors)
qed (use assms in simp)

lemma stmt_of_ok:
  "stmt_shape s \<Longrightarrow> stmt_good s"
  "stmts_shape ss \<Longrightarrow> list_all stmt_good ss"
proof (induction s and ss rule: stmt_of_stmt_list_of.induct)
  case (2 l e)
  then show ?case using lvalue_of_ok [of l] expr_of_ok [of e] by (simp add: stmt_good_def constructors)
next
  case (3 i a b s)
  then show ?case using expr_of_ok [of a] expr_of_ok [of b] by (simp add: stmt_good_def constructors)
next
  case (4 c th el)
  then show ?case using expr_of_ok [of c] by (simp add: stmt_good_def constructors)
next
  case (5 p es)
  then have "\<forall>e \<in> set es. expr_act (expr_of e) = Inr e \<and> list_all scannable (expr_yield (expr_of e))"
    using expr_of_ok by (auto simp: list_all_iff)
  from exprs_of_ok [OF this] path_of_ok [of p] 5 show ?case by (simp add: stmt_good_def constructors)
next
  case (6 ss)
  then have "ss \<noteq> []" "list_all stmt_good ss" by simp_all
  from stmts_of_ok [OF this] show ?case by (simp add: stmt_good_def stmt_list_of)
next
  case (7 c s)
  then show ?case using expr_of_ok [of c] by (simp add: stmt_good_def constructors)
qed (simp_all add: stmt_good_def)

lemma body_of_ok:
  assumes "body_ok s"
  shows "compound_act (body_of s) = Inr s \<and> list_all scannable (compound_yield (body_of s)) \<and> resolved_compound (body_of s)"
proof -
  from assms obtain c where "stmt_of s = COMPOUND c" by (auto simp: body_ok_def split: option.splits ast_stmt.splits)
  moreover have "stmt_good s" using assms stmt_of_ok(1) by (simp add: body_ok_def)
  ultimately show ?thesis by (simp add: body_of_def stmt_good_def)
qed

lemma resolved_subs_foldl: "resolved_subs (foldl SUBPROGRAMS t ss) \<longleftrightarrow> resolved_subs t \<and> list_all resolved_sub ss"
  by (induction ss arbitrary: t) auto

definition sub_good :: "ast_subdecl \<Rightarrow> bool" where
  "sub_good s \<longleftrightarrow> sub_act (sub_of s) = Inr s \<and> list_all scannable (sub_yield (sub_of s)) \<and> resolved_sub (sub_of s)"

lemma subs_of_ok:
  assumes "list_all sub_good ss"
  shows "subs_act (subs_of (map sub_of ss)) = Inr ss \<and> list_all scannable (subs_yield (subs_of (map sub_of ss)))
    \<and> resolved_subs (subs_of (map sub_of ss))"
  using assms ul.val_foldl [of NO_SUBPROGRAMS "[]" ss sub_of] ul.yields_foldl [of NO_SUBPROGRAMS "map sub_of ss"]
    resolved_subs_foldl [of NO_SUBPROGRAMS "map sub_of ss"]
  by (simp add: subs_of_def list_all_iff sub_good_def)

lemma sub_of_ok: "subdecl_ok s \<Longrightarrow> sub_good s"
proof (induction s rule: subdecl_ok.induct)
  case (1 h n ds subs ts b)
  from 1 have subs: "list_all sub_good subs" by (simp add: list_all_iff)
  note parts = subs_of_ok [OF this] types_of_ok [of ts] decls_of_ok [of ds] body_of_ok [of b]
  from 1 have ok: "head_ok h" "a_name n" "list_all decls_ok ds" "list_all type_decl_ok ts" "body_ok b" by simp_all
  from ok(1) consider args r where "h = TYPE_FUNCTION SUB_FUNCTION args (Some r)" "list_all decls_ok args" "standard r"
    | args where "h = TYPE_FUNCTION SUB_PROCEDURE args None" "list_all decls_ok args"
    by (auto simp: head_ok_def split: ast_type.splits subprogs.splits option.splits)
  then show ?case
  proof cases
    case (1 args r)
    then show ?thesis using parts ok args_of_ok [of args] standard_of_ok [of r]
      by (simp add: sub_good_def constructors ast_subprogram_decl_def)
  next
    case (2 args)
    then show ?thesis using parts ok args_of_ok [of args]
      by (simp add: sub_good_def constructors ast_subprogram_decl_def)
  qed
qed

lemma tree_of_ok:
  assumes "parseable p"
  shows "program_act (tree_of p) = Inr p \<and> list_all scannable (program_yield (tree_of p)) \<and> resolved_program (tree_of p)"
proof -
  have "list_all sub_good (p_subprogs p)" using assms sub_of_ok by (auto simp: parseable_def list_all_iff)
  from subs_of_ok [OF this] show ?thesis
    using assms types_of_ok [of "p_types p"] decls_of_ok [of "p_decls p"] body_of_ok [of "p_body p"] ids_of_ok [of "p_args p"]
    by (auto simp: tree_of_def parseable_def ast_program_new_def)
qed

section \<open>What can be parsed\<close>

text \<open>C19. Semantic actions fit: for every parse tree of the tokens of a text each action passes its
  constructor function the arguments that it reads, and the program they build has the shape the rest
  of the compiler may rely on: paths, name lists, statement lists and subprogram heads are never empty,
  operators are those of the grammar, only scalar arrays, no types without a name in a function's result.\<close>

theorem actions_build_parseable:
  assumes "program_yield t = scan src"
  shows "\<exists>p. program_act t = Inr p \<and> parseable p"
  using program_value [of t] scan_tokens_ok [of src] assms by simp

theorem actions_build_parseable_witness:
  "\<exists>p. program_act (PROGRAM ''p'' NO_IDS NO_TYPES NO_DECLS NO_SUBPROGRAMS NO_STATEMENTS) = Inr p \<and> parseable p"
  by (rule actions_build_parseable [of _ "''program p(); begin end.''"]) code_simp

lemma derives_parseable: "derives src p \<Longrightarrow> parseable p"
  using program_value scan_tokens_ok [of src] unfolding derives_def by (metis Inr_inject)

text \<open>C14. What can be parsed. Some text is read as a program exactly if the program is parseable, and then
  the text that writes its tree, with parentheses around every subexpression, an ELSE for every IF and
  a blank behind every token, is scanned and derived to the program again.\<close>

theorem parseable_round_trip:
  "((\<exists>src. derives src p) \<longleftrightarrow> parseable p) \<and> (derives (source_of p) p \<longleftrightarrow> parseable p)"
proof -
  have "derives (source_of p) p" if "parseable p"
    using tree_of_ok [OF that] scan_spelled [of "program_yield (tree_of p)"] by (auto simp: derives_def source_of_def)
  then show ?thesis using derives_parseable by blast
qed

text \<open>An expression list may start with a comma: its value is that without it.\<close>

lemma leading_comma:
  "exprs_yield (MORE NO_EXPRS e) = Ch CHR '','' # exprs_yield (ONE e)" "exprs_act (MORE NO_EXPRS e) = exprs_act (ONE e)"
  by (auto simp: bindr_def split: sum.splits)

end
