(* ===== verification/Descent.thy ===== *)
theory Descent
  imports Grammar
begin

text \<open>
  A reader of the grammar by recursive descent. It finds a parse tree exactly if there is one that respects the
  reading of ELSE, so the grammar gives a text at most one program.
\<close>

section \<open>Reading tokens\<close>

text \<open>
  A reader returns a tree and the tokens behind it. \<open>go_on\<close> continues behind what has been read since \<open>ts\<close>, which must be
  something: that is why the readers end.
\<close>

type_synonym 'a reading = "('a \<times> token list) option"

definition go_on :: "token list \<Rightarrow> 'a reading \<Rightarrow> ('a \<Rightarrow> token list \<Rightarrow> 'b option) \<Rightarrow> 'b option" where
  "go_on ts m f = (case m of None \<Rightarrow> None | Some (x, r) \<Rightarrow> if length r < length ts then f x r else None)"

lemma go_on_cong [fundef_cong]:
  "m = m' \<Longrightarrow> ts = ts' \<Longrightarrow> (\<And>x r. m' = Some (x, r) \<Longrightarrow> length r < length ts' \<Longrightarrow> f x r = g x r) \<Longrightarrow> go_on ts m f = go_on ts' m' g"
  by (auto simp: go_on_def split: option.splits)

lemma go_on_simps [simp]:
  "go_on ts None f = None" "go_on ts (Some (x, r)) f = (if length r < length ts then f x r else None)"
  by (simp_all add: go_on_def)

lemma go_on_Some: "go_on ts m f = Some y \<longleftrightarrow> (\<exists>x r. m = Some (x, r) \<and> length r < length ts \<and> f x r = Some y)"
  by (auto simp: go_on_def split: option.splits)

definition hd_is :: "token \<Rightarrow> token list \<Rightarrow> bool" where
  "hd_is t ts \<longleftrightarrow> ts \<noteq> [] \<and> hd ts = t"

lemma hd_is_simps [simp]: "\<not> hd_is t []" "hd_is t (x # ts) \<longleftrightarrow> x = t"
  by (auto simp: hd_is_def)

lemma hd_isE: "hd_is t ts \<Longrightarrow> (\<And>us. ts = t # us \<Longrightarrow> P) \<Longrightarrow> P"
  by (cases ts) auto

lemma hd_isD: "hd_is t ts \<Longrightarrow> ts = t # tl ts"
  by (cases ts) auto

definition tok :: "token \<Rightarrow> token list \<Rightarrow> unit reading" where
  "tok t ts = (if hd_is t ts then Some ((), tl ts) else None)"

lemma tok_simps [simp]: "tok t (t # ts) = Some ((), ts)" "tok t ts = Some (u, r) \<longleftrightarrow> ts = t # r"
  by (auto simp: tok_def dest: hd_isD)

definition name :: "token list \<Rightarrow> string reading" where
  "name ts = (case ts of T_ID n # r \<Rightarrow> Some (n, r) | _ \<Rightarrow> None)"

definition numeral_at :: "token list \<Rightarrow> string reading" where
  "numeral_at ts = (case ts of T_NUM n # r \<Rightarrow> Some (n, r) | _ \<Rightarrow> None)"

lemma name_simps [simp]: "name (T_ID n # r) = Some (n, r)" "name ts = Some (n, r) \<longleftrightarrow> ts = T_ID n # r"
  by (auto simp: name_def split: list.splits token.splits)

lemma numeral_at_simps [simp]: "numeral_at (T_NUM n # r) = Some (n, r)" "numeral_at ts = Some (n, r) \<longleftrightarrow> ts = T_NUM n # r"
  by (auto simp: numeral_at_def split: list.splits token.splits)

text \<open>An operator by its token.\<close>

definition op_at :: "('a \<Rightarrow> token) \<Rightarrow> 'a list \<Rightarrow> token list \<Rightarrow> 'a option" where
  "op_at act ops ts = find (\<lambda>op. hd_is (act op) ts) ops"

abbreviation sign_at :: "token list \<Rightarrow> sign option" where
  "sign_at \<equiv> op_at sign_act [S_PLUS, S_MINUS]"

abbreviation relop_at :: "token list \<Rightarrow> relop option" where
  "relop_at \<equiv> op_at relop_act [R_EQ, R_NEQ, R_LT, R_GT, R_LE, R_GE]"

abbreviation addop_at :: "token list \<Rightarrow> addop option" where
  "addop_at \<equiv> op_at addop_act [A_PLUS, A_MINUS, A_OR]"

abbreviation mulop_at :: "token list \<Rightarrow> mulop option" where
  "mulop_at \<equiv> op_at mulop_act [M_TIMES, M_SLASH, M_DIV, M_MOD, M_AND]"

lemma op_at_Some: "op_at act ops ts = Some op \<Longrightarrow> ts = act op # tl ts"
  by (auto simp: op_at_def find_Some_iff dest: hd_isD)

section \<open>Names, paths and types\<close>

function ids_from :: "identifier_list \<Rightarrow> token list \<Rightarrow> identifier_list reading" where
  "ids_from acc ts = (if hd_is (Ch CHR '','') ts
     then go_on ts (name (tl ts)) (\<lambda>n r. ids_from (ID_SNOC acc n) r) else Some (acc, ts))"
  by pat_completeness auto
termination by (relation "measure (length \<circ> snd)") auto

function path_from :: "path_tree \<Rightarrow> token list \<Rightarrow> path_tree reading" where
  "path_from acc ts = (if hd_is (Ch CHR ''.'') ts
     then go_on ts (name (tl ts)) (\<lambda>n r. path_from (PATH_DOT acc n) r) else Some (acc, ts))"
  by pat_completeness auto
termination by (relation "measure (length \<circ> snd)") auto

declare ids_from.simps [simp del] path_from.simps [simp del]

definition rd_ids :: "token list \<Rightarrow> identifier_list reading" where
  "rd_ids ts = go_on ts (name ts) (\<lambda>n r. ids_from (ID1 n) r)"

definition rd_path :: "token list \<Rightarrow> path_tree reading" where
  "rd_path ts = go_on ts (name ts) (\<lambda>n r. path_from (PATH_ID n) r)"

definition rd_standard :: "token list \<Rightarrow> standard_type reading" where
  "rd_standard ts = (case op_at (\<lambda>t. hd (standard_yield t)) [S_INTEGER, S_REAL, S_STRING, S_BOOLEAN, S_CHAR] ts of
     None \<Rightarrow> None | Some t \<Rightarrow> Some (t, tl ts))"

function rd_type :: "token list \<Rightarrow> type_tree reading"
  and fields_from :: "record_fields \<Rightarrow> token list \<Rightarrow> record_fields reading" where
  "rd_type ts =
     (if hd_is T_ARRAY ts then
        go_on ts (tok (Ch CHR ''['') (tl ts)) (\<lambda>_ r. go_on ts (numeral_at r) (\<lambda>l r. go_on ts (tok T_DOTDOT r) (\<lambda>_ r.
        go_on ts (numeral_at r) (\<lambda>u r. go_on ts (tok (Ch CHR '']'') r) (\<lambda>_ r. go_on ts (tok T_OF r) (\<lambda>_ r.
        go_on ts (rd_standard r) (\<lambda>t r. Some (ARRAY_OF l u t, r))))))))
      else if hd_is (Ch CHR ''^'') ts then go_on ts (rd_type (tl ts)) (\<lambda>t r. Some (POINTER_TO t, r))
      else if hd_is T_RECORD ts then
        go_on ts (fields_from NO_FIELDS (tl ts)) (\<lambda>fs r. go_on ts (tok T_END r) (\<lambda>_ r. Some (RECORD_OF fs, r)))
      else (case name ts of Some (n, r) \<Rightarrow> Some (NAMED n, r)
          | None \<Rightarrow> go_on ts (rd_standard ts) (\<lambda>t r. Some (STANDARD t, r))))"
| "fields_from acc ts = (case name ts of
       None \<Rightarrow> Some (acc, ts)
     | Some (n, r) \<Rightarrow> go_on ts (tok (Ch CHR '':'') r) (\<lambda>_ r. go_on ts (rd_type r) (\<lambda>t r. go_on ts (tok (Ch CHR '';'') r) (\<lambda>_ r.
         fields_from (FIELDS acc n t) r))))"
  by pat_completeness auto
termination
  by (relation "measure (\<lambda>x. case x of Inl ts \<Rightarrow> length ts | Inr (_, ts) \<Rightarrow> length ts)") (auto dest: hd_isD simp: hd_is_def)

declare rd_type.simps [simp del] fields_from.simps [simp del]

text \<open>Complete: a reader of a list goes on where the list ends.\<close>

lemma ids_complete: "rd_ids (ids_yield ns @ r) = ids_from ns r"
proof (induction ns arbitrary: r)
  case (ID_SNOC ns n)
  then show ?case by (simp add: ids_from.simps [of ns])
qed (simp add: rd_ids_def)

lemma path_complete: "rd_path (path_yield p @ r) = path_from p r"
proof (induction p arbitrary: r)
  case (PATH_DOT p n)
  then show ?case by (simp add: path_from.simps [of p])
qed (simp add: rd_path_def)

lemma ids_end: "\<not> hd_is (Ch CHR '','') r \<Longrightarrow> ids_from ns r = Some (ns, r)"
  by (simp add: ids_from.simps)

lemma path_end: "\<not> hd_is (Ch CHR ''.'') r \<Longrightarrow> path_from p r = Some (p, r)"
  by (simp add: path_from.simps)

lemma standard_complete: "rd_standard (standard_yield t @ r) = Some (t, r)"
  by (cases t) (simp_all add: rd_standard_def op_at_def)

lemma standard_nonempty: "standard_yield t \<noteq> []" "name (standard_yield t @ r) = None"
    "hd (standard_yield t) \<notin> {T_ARRAY, Ch CHR ''^'', T_RECORD}"
  by (cases t; simp add: name_def)+

lemma type_complete:
  "rd_type (type_yield t @ r) = Some (t, r)"
  "fields_from NO_FIELDS (fields_yield fs @ r) = fields_from fs r"
proof (induction t and fs arbitrary: r and r)
  case (STANDARD t)
  then show ?case using standard_nonempty(1,3) [of t] standard_nonempty(2) [of t r] standard_complete [of t r]
    by (cases "standard_yield t") (simp_all add: rd_type.simps)
next
  case (RECORD_OF fs)
  have "fields_from fs (T_END # r) = Some (fs, T_END # r)" by (simp add: fields_from.simps name_def)
  with RECORD_OF show ?case by (simp add: rd_type.simps)
next
  case (FIELDS fs n t)
  then show ?case by (simp add: fields_from.simps [of fs])
qed (simp_all add: rd_type.simps standard_complete name_def standard_nonempty)

text \<open>Sound: what is read is what the tree yields.\<close>

lemma ids_from_sound: "ids_from acc ts = Some (ns, r) \<Longrightarrow> ids_yield acc @ ts = ids_yield ns @ r"
proof (induction acc ts rule: ids_from.induct)
  case (1 acc ts)
  then show ?case by (auto simp: ids_from.simps [of acc ts] go_on_Some split: if_splits elim!: hd_isE)
qed

lemma path_from_sound: "path_from acc ts = Some (p, r) \<Longrightarrow> path_yield acc @ ts = path_yield p @ r"
proof (induction acc ts rule: path_from.induct)
  case (1 acc ts)
  then show ?case by (auto simp: path_from.simps [of acc ts] go_on_Some split: if_splits elim!: hd_isE)
qed

lemma ids_sound: "rd_ids ts = Some (ns, r) \<Longrightarrow> ts = ids_yield ns @ r"
  by (auto simp: rd_ids_def go_on_Some dest!: ids_from_sound)

lemma path_sound: "rd_path ts = Some (p, r) \<Longrightarrow> ts = path_yield p @ r"
  by (auto simp: rd_path_def go_on_Some dest!: path_from_sound)

lemma standard_sound: "rd_standard ts = Some (t, r) \<Longrightarrow> ts = standard_yield t @ r"
  by (auto simp: rd_standard_def op_at_def split: if_splits option.splits elim!: hd_isE)

lemma type_sound:
  "rd_type ts = Some (t, r) \<Longrightarrow> ts = type_yield t @ r"
  "fields_from acc ts = Some (fs, r) \<Longrightarrow> fields_yield acc @ ts = fields_yield fs @ r"
proof (induction ts and acc ts arbitrary: t r and fs r rule: rd_type_fields_from.induct)
  case (1 ts)
  then show ?case
    by (auto simp: rd_type.simps [of ts] go_on_Some split: if_splits option.splits elim!: hd_isE dest!: standard_sound)
next
  case (2 acc ts)
  then show ?case
    by (auto simp: fields_from.simps [of acc ts] go_on_Some split: if_splits option.splits)
qed

section \<open>Declarations\<close>

function types_from :: "type_declarations \<Rightarrow> token list \<Rightarrow> type_declarations reading" where
  "types_from acc ts = (if hd_is T_TYPE ts then
       go_on ts (name (tl ts)) (\<lambda>n r. go_on ts (tok (Ch CHR ''='') r) (\<lambda>_ r. go_on ts (rd_type r) (\<lambda>t r.
       go_on ts (tok (Ch CHR '';'') r) (\<lambda>_ r. types_from (TYPES acc n t) r))))
     else Some (acc, ts))"
  by pat_completeness auto
termination by (relation "measure (length \<circ> snd)") auto

definition rd_typed :: "token list \<Rightarrow> (identifier_list \<times> type_tree) reading" where
  "rd_typed ts = go_on ts (rd_ids ts) (\<lambda>ns r. go_on ts (tok (Ch CHR '':'') r) (\<lambda>_ r. go_on ts (rd_type r) (\<lambda>t r.
     Some ((ns, t), r))))"

function decls_from :: "declarations \<Rightarrow> token list \<Rightarrow> declarations reading" where
  "decls_from acc ts = (if hd_is T_VAR ts then
       go_on ts (rd_typed (tl ts)) (\<lambda>x r. go_on ts (tok (Ch CHR '';'') r) (\<lambda>_ r. decls_from (DECLS acc (fst x) (snd x)) r))
     else Some (acc, ts))"
  by pat_completeness auto
termination by (relation "measure (length \<circ> snd)") auto

function params_from :: "parameter_list \<Rightarrow> token list \<Rightarrow> parameter_list reading" where
  "params_from acc ts = (if hd_is (Ch CHR '';'') ts then
       go_on ts (rd_typed (tl ts)) (\<lambda>x r. params_from (PARAM_SNOC acc (fst x) (snd x)) r)
     else Some (acc, ts))"
  by pat_completeness auto
termination by (relation "measure (length \<circ> snd)") auto

declare types_from.simps [simp del] decls_from.simps [simp del] params_from.simps [simp del]

definition rd_params :: "token list \<Rightarrow> parameter_list reading" where
  "rd_params ts = go_on ts (rd_typed ts) (\<lambda>x r. params_from (PARAM1 (fst x) (snd x)) r)"

definition rd_args :: "token list \<Rightarrow> arguments reading" where
  "rd_args ts = (if hd_is (Ch CHR ''('') ts then
       go_on ts (rd_params (tl ts)) (\<lambda>ps r. go_on ts (tok (Ch CHR '')'') r) (\<lambda>_ r. Some (ARGS ps, r)))
     else Some (NO_ARGS, ts))"

lemma types_complete: "types_from NO_TYPES (types_yield ts @ r) = types_from ts r"
proof (induction ts arbitrary: r)
  case (TYPES ts n t)
  then show ?case by (simp add: types_from.simps [of ts] type_complete)
qed simp

lemma types_end: "\<not> hd_is T_TYPE r \<Longrightarrow> types_from ts r = Some (ts, r)"
  by (simp add: types_from.simps)

lemma ids_nonempty [simp]: "ids_yield ns \<noteq> []"
  by (cases ns) simp_all

lemma typed_complete: "rd_typed (ids_yield ns @ Ch CHR '':'' # type_yield t @ r) = Some ((ns, t), r)"
  by (simp add: rd_typed_def ids_complete ids_end type_complete)

lemma decls_complete: "decls_from NO_DECLS (decls_yield ds @ r) = decls_from ds r"
proof (induction ds arbitrary: r)
  case (DECLS ds ns t)
  then show ?case by (simp add: decls_from.simps [of ds] typed_complete)
qed simp

lemma decls_end: "\<not> hd_is T_VAR r \<Longrightarrow> decls_from ds r = Some (ds, r)"
  by (simp add: decls_from.simps)

lemma params_complete: "rd_params (params_yield ps @ r) = params_from ps r"
proof (induction ps arbitrary: r)
  case (PARAM_SNOC ps ns t)
  then show ?case by (simp add: params_from.simps [of ps] typed_complete)
qed (simp add: rd_params_def typed_complete)

lemma args_complete: "\<not> hd_is (Ch CHR ''('') r \<Longrightarrow> rd_args (args_yield as @ r) = Some (as, r)"
  by (cases as) (simp_all add: rd_args_def params_complete params_from.simps)

lemma types_sound: "types_from acc ts = Some (t, r) \<Longrightarrow> types_yield acc @ ts = types_yield t @ r"
proof (induction acc ts rule: types_from.induct)
  case (1 acc ts)
  then show ?case
    by (auto simp: types_from.simps [of acc ts] go_on_Some split: if_splits elim!: hd_isE dest!: type_sound(1)
      simp: type_complete(1))
qed

lemma typed_sound: "rd_typed ts = Some (x, r) \<Longrightarrow> ts = ids_yield (fst x) @ Ch CHR '':'' # type_yield (snd x) @ r"
  by (auto simp: rd_typed_def go_on_Some dest!: ids_sound type_sound(1))

lemma decls_sound: "decls_from acc ts = Some (ds, r) \<Longrightarrow> decls_yield acc @ ts = decls_yield ds @ r"
proof (induction acc ts rule: decls_from.induct)
  case (1 acc ts)
  then show ?case
    by (auto simp: decls_from.simps [of acc ts] go_on_Some split: if_splits elim!: hd_isE dest!: typed_sound
      simp: typed_complete)
qed

lemma params_from_sound: "params_from acc ts = Some (ps, r) \<Longrightarrow> params_yield acc @ ts = params_yield ps @ r"
proof (induction acc ts rule: params_from.induct)
  case (1 acc ts)
  then show ?case
    by (auto simp: params_from.simps [of acc ts] go_on_Some split: if_splits elim!: hd_isE dest!: typed_sound
      simp: typed_complete)
qed

lemma args_sound: "rd_args ts = Some (as, r) \<Longrightarrow> ts = args_yield as @ r"
  by (auto simp: rd_args_def rd_params_def go_on_Some split: if_splits elim!: hd_isE dest!: typed_sound params_from_sound)

section \<open>Expressions\<close>

function (sequential) rd_expr :: "token list \<Rightarrow> expression reading"
  and rd_simple :: "token list \<Rightarrow> simple_expression reading"
  and simple_from :: "simple_expression \<Rightarrow> token list \<Rightarrow> simple_expression reading"
  and rd_term :: "token list \<Rightarrow> term_tree reading"
  and term_from :: "term_tree \<Rightarrow> token list \<Rightarrow> term_tree reading"
  and rd_factor :: "token list \<Rightarrow> factor reading"
  and lvalue_from :: "path_tree \<Rightarrow> token list \<Rightarrow> lvalue reading"
  and rd_exprs :: "token list \<Rightarrow> expression_list reading"
  and exprs_from :: "expression_list \<Rightarrow> token list \<Rightarrow> expression_list reading" where
  "rd_expr ts = go_on ts (rd_simple ts) (\<lambda>l r. case relop_at r of
       None \<Rightarrow> Some (SIMPLE l, r)
     | Some op \<Rightarrow> go_on ts (rd_simple (tl r)) (\<lambda>e r. Some (REL l op e, r)))"
| "rd_simple ts = (case sign_at ts of
       None \<Rightarrow> go_on ts (rd_term ts) (\<lambda>t r. simple_from (A_TERM t) r)
     | Some s \<Rightarrow> go_on ts (rd_term (tl ts)) (\<lambda>t r. simple_from (SIGNED s t) r))"
| "simple_from acc ts = (case addop_at ts of
       None \<Rightarrow> Some (acc, ts)
     | Some op \<Rightarrow> go_on ts (rd_term (tl ts)) (\<lambda>t r. simple_from (ADD acc op t) r))"
| "rd_term ts = go_on ts (rd_factor ts) (\<lambda>f r. term_from (FACTOR f) r)"
| "term_from acc ts = (case mulop_at ts of
       None \<Rightarrow> Some (acc, ts)
     | Some op \<Rightarrow> go_on ts (rd_factor (tl ts)) (\<lambda>f r. term_from (MUL acc op f) r))"
| "rd_factor ts =
     (if hd_is T_NOT ts then go_on ts (rd_factor (tl ts)) (\<lambda>f r. Some (NOT_OF f, r))
      else if hd_is (Ch CHR ''@'') ts then go_on ts (rd_factor (tl ts)) (\<lambda>f r. Some (ADDRESS f, r))
      else if hd_is (Ch CHR ''('') ts then
        go_on ts (rd_expr (tl ts)) (\<lambda>e r. go_on ts (tok (Ch CHR '')'') r) (\<lambda>_ r. Some (PAR e, r)))
      else (case numeral_at ts of
          Some (n, r) \<Rightarrow> Some (NUM n, r)
        | None \<Rightarrow> go_on ts (rd_path ts) (\<lambda>p r.
            if hd_is (Ch CHR ''('') r then
              go_on ts (rd_exprs (tl r)) (\<lambda>es r. go_on ts (tok (Ch CHR '')'') r) (\<lambda>_ r. Some (APP p es, r)))
            else go_on ts (lvalue_from p r) (\<lambda>l r. Some (LVALUE l, r)))))"
| "lvalue_from p ts =
     (if hd_is (Ch CHR ''['') ts then
        go_on ts (rd_expr (tl ts)) (\<lambda>e r. go_on ts (tok (Ch CHR '']'') r) (\<lambda>_ r. Some (INDEX p e, r)))
      else if hd_is (Ch CHR ''^'') ts then Some (DEREF p, tl ts)
      else Some (PATH p, ts))"
| "rd_exprs ts = (if hd_is (Ch CHR '')'') ts \<or> hd_is (Ch CHR '','') ts then exprs_from NO_EXPRS ts
     else go_on ts (rd_expr ts) (\<lambda>e r. exprs_from (ONE e) r))"
| "exprs_from acc ts = (if hd_is (Ch CHR '','') ts
     then go_on ts (rd_expr (tl ts)) (\<lambda>e r. exprs_from (MORE acc e) r) else Some (acc, ts))"
  by pat_completeness auto
termination
  by (relation "measure (\<lambda>x. case x of
      Inl (Inl (Inl ts)) \<Rightarrow> 8 * length ts + 5
    | Inl (Inl (Inr ts)) \<Rightarrow> 8 * length ts + 4
    | Inl (Inr (Inl (_, ts))) \<Rightarrow> 8 * length ts + 3
    | Inl (Inr (Inr ts)) \<Rightarrow> 8 * length ts + 2
    | Inr (Inl (Inl (_, ts))) \<Rightarrow> 8 * length ts + 1
    | Inr (Inl (Inr ts)) \<Rightarrow> 8 * length ts
    | Inr (Inr (Inl (_, ts))) \<Rightarrow> 8 * length ts + 6
    | Inr (Inr (Inr (Inl ts))) \<Rightarrow> 8 * length ts + 7
    | Inr (Inr (Inr (Inr (_, ts)))) \<Rightarrow> 8 * length ts + 6)")
    (auto elim!: hd_isE)

declare rd_expr.simps [simp del] rd_simple.simps [simp del] simple_from.simps [simp del] rd_term.simps [simp del]
  term_from.simps [simp del] rd_factor.simps [simp del] lvalue_from.simps [simp del] rd_exprs.simps [simp del]
  exprs_from.simps [simp del]

text \<open>What may stand behind a factor, a term, a simple expression, an expression.\<close>

definition after_factor :: "token list \<Rightarrow> bool" where
  "after_factor r \<longleftrightarrow> \<not> hd_is (Ch CHR ''.'') r \<and> \<not> hd_is (Ch CHR ''('') r \<and> \<not> hd_is (Ch CHR ''['') r \<and> \<not> hd_is (Ch CHR ''^'') r"

definition after_term :: "token list \<Rightarrow> bool" where
  "after_term r \<longleftrightarrow> after_factor r \<and> mulop_at r = None"

definition after_simple :: "token list \<Rightarrow> bool" where
  "after_simple r \<longleftrightarrow> after_term r \<and> addop_at r = None"

definition after_expr :: "token list \<Rightarrow> bool" where
  "after_expr r \<longleftrightarrow> after_simple r \<and> relop_at r = None"

lemmas after_defs = after_expr_def after_simple_def after_term_def after_factor_def

lemma operators_behind [simp]:
  "after_factor (mulop_act m # r)" "after_term (addop_act a # r)" "after_simple (relop_act b # r)"
  "mulop_at (mulop_act m # r) = Some m" "addop_at (addop_act a # r) = Some a" "relop_at (relop_act b # r) = Some b"
  "sign_at (sign_act s # r) = Some s"
  by (cases m; simp add: after_defs op_at_def) (cases a; simp add: after_defs op_at_def; fail
    | cases b; simp add: after_defs op_at_def; fail | cases m; simp add: after_defs op_at_def; fail
    | cases s; simp add: after_defs op_at_def; fail)+

lemma brackets_behind [simp]:
  "after_expr (Ch CHR '')'' # r)" "after_expr (Ch CHR '']'' # r)" "after_expr (Ch CHR '','' # r)" "after_expr (Ch CHR '';'' # r)"
  "after_expr (T_THEN # r)" "after_expr (T_DO # r)" "after_expr (T_TO # r)" "after_expr (T_END # r)" "after_expr (T_ELSE # r)"
  "after_factor (T_ASSIGNOP # r)"
  by (simp_all add: after_defs op_at_def)

text \<open>What a factor, a term and an expression start with.\<close>

definition opens :: "token list \<Rightarrow> bool" where
  "opens ts \<longleftrightarrow> (\<exists>x us. ts = x # us \<and> ((\<exists>n. x = T_ID n \<or> x = T_NUM n) \<or> x = T_NOT \<or> x = Ch CHR ''@'' \<or> x = Ch CHR ''(''))"

lemma path_opens: "\<exists>n us. path_yield p @ r = T_ID n # us"
  by (induction p arbitrary: r) auto

lemma yield_opens:
  "opens (expr_yield e @ r) \<or> sign_at (expr_yield e @ r) \<noteq> None"
  "opens (simple_yield s @ r) \<or> sign_at (simple_yield s @ r) \<noteq> None"
  "opens (term_yield t @ r)"
  "opens (factor_yield f @ r)"
  "opens (lvalue_yield l @ r)"
  "0 \<le> length (exprs_yield es)"
proof (induction e and s and t and f and l and es arbitrary: r and r and r and r and r)
  case (APP p es)
  then show ?case using path_opens [of p] by (fastforce simp: opens_def)
next
  case (PATH p)
  then show ?case using path_opens [of p] by (fastforce simp: opens_def)
next
  case (INDEX p e)
  then show ?case using path_opens [of p] by (fastforce simp: opens_def)
next
  case (DEREF p)
  then show ?case using path_opens [of p] by (fastforce simp: opens_def)
qed (simp_all add: opens_def)

lemma opens_not: "opens ts \<Longrightarrow> sign_at ts = None \<and> \<not> hd_is (Ch CHR '')'') ts \<and> \<not> hd_is (Ch CHR '','') ts \<and> ts \<noteq> []"
  by (auto simp: opens_def op_at_def)

lemma sign_not: "sign_at ts \<noteq> None \<Longrightarrow> \<not> hd_is (Ch CHR '')'') ts \<and> \<not> hd_is (Ch CHR '','') ts \<and> ts \<noteq> []"
  by (auto simp: op_at_def hd_is_def split: if_splits)

lemma expr_not: "\<not> hd_is (Ch CHR '')'') (expr_yield e @ r) \<and> \<not> hd_is (Ch CHR '','') (expr_yield e @ r)"
  using yield_opens(1) [of e r] opens_not sign_not by blast

lemma nothing_opens [simp]: "\<not> opens []" "sign_at [] = None"
  by (simp_all add: opens_def op_at_def)

lemma yield_nonempty [simp]:
  shows "path_yield p \<noteq> []" and "expr_yield e \<noteq> []" and "simple_yield s \<noteq> []" and "term_yield t \<noteq> []"
    and "factor_yield f \<noteq> []" and "lvalue_yield l \<noteq> []"
proof -
  show "path_yield p \<noteq> []" by (cases p) simp_all
  show "expr_yield e \<noteq> []" using yield_opens(1) [of e "[]"] by auto
  show "simple_yield s \<noteq> []" using yield_opens(2) [of s "[]"] by auto
  show "term_yield t \<noteq> []" using yield_opens(3) [of t "[]"] by auto
  show "factor_yield f \<noteq> []" using yield_opens(4) [of f "[]"] by auto
  show "lvalue_yield l \<noteq> []" using yield_opens(5) [of l "[]"] by auto
qed

lemma term_end: "after_term r \<Longrightarrow> term_from t r = Some (t, r)"
  by (simp add: term_from.simps after_term_def)

lemma simple_end: "after_simple r \<Longrightarrow> simple_from s r = Some (s, r)"
  by (simp add: simple_from.simps after_simple_def)

lemma exprs_end: "\<not> hd_is (Ch CHR '','') r \<Longrightarrow> exprs_from es r = Some (es, r)"
  by (simp add: exprs_from.simps)

lemma factor_path:
  assumes "\<not> hd_is (Ch CHR ''.'') r"
  shows "rd_factor (path_yield p @ r) = (if hd_is (Ch CHR ''('') r then
      go_on (path_yield p @ r) (rd_exprs (tl r)) (\<lambda>es r'. go_on (path_yield p @ r) (tok (Ch CHR '')'') r') (\<lambda>_ r'. Some (APP p es, r')))
    else go_on (path_yield p @ r) (lvalue_from p r) (\<lambda>l r'. Some (LVALUE l, r')))"
proof -
  obtain n us where "path_yield p @ r = T_ID n # us" using path_opens by blast
  then have "\<not> hd_is T_NOT (path_yield p @ r)" "\<not> hd_is (Ch CHR ''@'') (path_yield p @ r)" "\<not> hd_is (Ch CHR ''('') (path_yield p @ r)"
    "numeral_at (path_yield p @ r) = None" by (simp_all add: numeral_at_def)
  then show ?thesis by (simp add: rd_factor.simps [of "path_yield p @ r"] path_complete path_end [OF assms])
qed

text \<open>A left value is a path and a suffix. What follows holds whatever is behind, as long as it does not go on with the tree.\<close>

lemma expr_complete:
  "after_expr r \<Longrightarrow> rd_expr (expr_yield e @ r) = Some (e, r)"
  "after_term r \<Longrightarrow> rd_simple (simple_yield s @ r) = simple_from s r"
  "after_factor r \<Longrightarrow> rd_term (term_yield t @ r) = term_from t r"
  "after_factor r \<Longrightarrow> rd_factor (factor_yield f @ r) = Some (f, r)"
  "after_factor r \<Longrightarrow> \<exists>p sfx. lvalue_yield l @ r = path_yield p @ sfx \<and> \<not> hd_is (Ch CHR ''.'') sfx \<and> \<not> hd_is (Ch CHR ''('') sfx
     \<and> lvalue_from p sfx = Some (l, r)"
  "hd_is (Ch CHR '','') r \<or> hd_is (Ch CHR '')'') r \<Longrightarrow> rd_exprs (exprs_yield es @ r) = exprs_from es r"
proof (induction e and s and t and f and l and es arbitrary: r and r and r and r and r and r)
  case (SIMPLE s)
  then show ?case by (simp add: rd_expr.simps simple_end after_expr_def after_simple_def)
next
  case (REL s op s')
  then have "after_term r" "after_simple r" by (simp_all add: after_expr_def after_simple_def)
  moreover have "after_term (relop_act op # simple_yield s' @ r)" "after_simple (relop_act op # simple_yield s' @ r)"
    using operators_behind(3) by (auto simp: after_simple_def)
  ultimately show ?case using REL.IH by (simp add: rd_expr.simps simple_end)
next
  case (A_TERM t)
  then have "sign_at (term_yield t @ r) = None" using yield_opens(3) opens_not by blast
  with A_TERM show ?case by (simp add: rd_simple.simps term_end after_term_def)
next
  case (SIGNED s t)
  then show ?case by (simp add: rd_simple.simps term_end after_term_def)
next
  case (ADD s op t)
  then have "rd_simple (simple_yield s @ addop_act op # term_yield t @ r) = simple_from s (addop_act op # term_yield t @ r)"
    by simp
  with ADD show ?case by (simp add: simple_from.simps [of s] term_end after_term_def)
next
  case (FACTOR f)
  then show ?case by (simp add: rd_term.simps)
next
  case (MUL t op f)
  then have "rd_term (term_yield t @ mulop_act op # factor_yield f @ r) = term_from t (mulop_act op # factor_yield f @ r)"
    by simp
  with MUL show ?case by (simp add: term_from.simps [of t])
next
  case (APP p es)
  then have "rd_exprs (exprs_yield es @ Ch CHR '')'' # r) = Some (es, Ch CHR '')'' # r)" by (simp add: exprs_end)
  then show ?case using factor_path [of "Ch CHR ''('' # exprs_yield es @ Ch CHR '')'' # r" p] by simp
next
  case (NUM n)
  then show ?case by (simp add: rd_factor.simps)
next
  case (PAR e)
  then show ?case by (simp add: rd_factor.simps)
next
  case (NOT_OF f)
  then show ?case by (simp add: rd_factor.simps)
next
  case (LVALUE l)
  then obtain p sfx where l: "lvalue_yield l @ r = path_yield p @ sfx" "\<not> hd_is (Ch CHR ''.'') sfx" "\<not> hd_is (Ch CHR ''('') sfx"
    "lvalue_from p sfx = Some (l, r)" by blast
  moreover have "length r < length (path_yield p @ sfx)" unfolding l(1) [symmetric] by simp
  ultimately show ?case using factor_path [OF l(2), of p] by simp
next
  case (ADDRESS f)
  then show ?case by (simp add: rd_factor.simps)
next
  case (PATH p)
  then show ?case by (intro exI [of _ p] exI [of _ r]) (simp add: lvalue_from.simps after_factor_def)
next
  case (INDEX p e)
  then show ?case by (intro exI [of _ p] exI [of _ "Ch CHR ''['' # expr_yield e @ Ch CHR '']'' # r"]) (simp add: lvalue_from.simps)
next
  case (DEREF p)
  then show ?case by (intro exI [of _ p] exI [of _ "Ch CHR ''^'' # r"]) (simp add: lvalue_from.simps)
next
  case (ONE e)
  then have "after_expr r" by (auto elim!: hd_isE)
  with ONE expr_not [of e r] show ?case by (simp add: rd_exprs.simps)
next
  case (MORE es e)
  then have "after_expr r" by (auto elim!: hd_isE)
  with MORE show ?case by (simp add: exprs_from.simps [of es])
next
  case NO_EXPRS
  then show ?case by (auto simp: rd_exprs.simps)
qed

lemma op_at_cons: "op_at act ops ts = Some op \<Longrightarrow> act op # tl ts = ts"
  using op_at_Some [of act ops ts op] by simp

lemma expr_sound:
  "rd_expr ts = Some (e, r) \<Longrightarrow> ts = expr_yield e @ r"
  "rd_simple ts = Some (s, r) \<Longrightarrow> ts = simple_yield s @ r"
  "simple_from sa ts = Some (s, r) \<Longrightarrow> simple_yield sa @ ts = simple_yield s @ r"
  "rd_term ts = Some (t, r) \<Longrightarrow> ts = term_yield t @ r"
  "term_from ta ts = Some (t, r) \<Longrightarrow> term_yield ta @ ts = term_yield t @ r"
  "rd_factor ts = Some (f, r) \<Longrightarrow> ts = factor_yield f @ r"
  "lvalue_from p ts = Some (l, r) \<Longrightarrow> path_yield p @ ts = lvalue_yield l @ r"
  "rd_exprs ts = Some (es, r) \<Longrightarrow> ts = exprs_yield es @ r"
  "exprs_from ea ts = Some (es, r) \<Longrightarrow> exprs_yield ea @ ts = exprs_yield es @ r"
proof (induction ts and ts and sa ts and ts and ta ts and ts and p ts and ts and ea ts
    arbitrary: e r and s r and s r and t r and t r and f r and l r and es r and es r
    rule: rd_expr_rd_simple_simple_from_rd_term_term_from_rd_factor_lvalue_from_rd_exprs_exprs_from.induct)
  case (1 ts)
  then obtain s1 r1 where s1: "rd_simple ts = Some (s1, r1)" "length r1 < length ts"
    and k: "(case relop_at r1 of None \<Rightarrow> Some (SIMPLE s1, r1)
      | Some op \<Rightarrow> go_on ts (rd_simple (tl r1)) (\<lambda>e r. Some (REL s1 op e, r))) = Some (e, r)"
    by (auto simp: rd_expr.simps [of ts] go_on_Some)
  show ?case
  proof (cases "relop_at r1")
    case None
    with k "1.IH"(1) [OF s1(1)] show ?thesis by auto
  next
    case (Some op)
    with k obtain s2 where s2: "rd_simple (tl r1) = Some (s2, r)" "e = REL s1 op s2" by (auto simp: go_on_Some)
    from "1.IH"(2) [OF s1 Some s2(1)] op_at_cons [OF Some] have "relop_act op # simple_yield s2 @ r = r1" by simp
    with "1.IH"(1) [OF s1(1)] s2(2) show ?thesis by simp
  qed
next
  case (2 ts)
  show ?case
  proof (cases "sign_at ts")
    case None
    with "2.prems" obtain t1 r1 where t1: "rd_term ts = Some (t1, r1)" "length r1 < length ts" "simple_from (A_TERM t1) r1 = Some (s, r)"
      by (auto simp: rd_simple.simps [of ts] go_on_Some)
    from "2.IH"(1) [OF None t1(1)] "2.IH"(2) [OF None t1] show ?thesis by simp
  next
    case (Some sg)
    with "2.prems" obtain t1 r1 where t1: "rd_term (tl ts) = Some (t1, r1)" "length r1 < length ts"
      "simple_from (SIGNED sg t1) r1 = Some (s, r)"
      by (auto simp: rd_simple.simps [of ts] go_on_Some)
    from "2.IH"(3) [OF Some t1(1)] "2.IH"(4) [OF Some t1] op_at_cons [OF Some] show ?thesis by simp
  qed
next
  case (3 acc ts)
  show ?case
  proof (cases "addop_at ts")
    case (Some op)
    with "3.prems" obtain t1 r1 where t1: "rd_term (tl ts) = Some (t1, r1)" "length r1 < length ts"
      "simple_from (ADD acc op t1) r1 = Some (s, r)"
      by (auto simp: simple_from.simps [of acc ts] go_on_Some)
    from "3.IH"(1) [OF Some t1(1)] "3.IH"(2) [OF Some t1] op_at_cons [OF Some] show ?thesis by simp
  qed (use "3.prems" in \<open>simp add: simple_from.simps [of acc ts]\<close>)
next
  case (4 ts)
  then obtain f1 r1 where f1: "rd_factor ts = Some (f1, r1)" "length r1 < length ts" "term_from (FACTOR f1) r1 = Some (t, r)"
    by (auto simp: rd_term.simps [of ts] go_on_Some)
  from "4.IH"(1) [OF f1(1)] "4.IH"(2) [OF f1] show ?case by simp
next
  case (5 acc ts)
  show ?case
  proof (cases "mulop_at ts")
    case (Some op)
    with "5.prems" obtain f1 r1 where f1: "rd_factor (tl ts) = Some (f1, r1)" "length r1 < length ts"
      "term_from (MUL acc op f1) r1 = Some (t, r)"
      by (auto simp: term_from.simps [of acc ts] go_on_Some)
    from "5.IH"(1) [OF Some f1(1)] "5.IH"(2) [OF Some f1] op_at_cons [OF Some] show ?thesis by simp
  qed (use "5.prems" in \<open>simp add: term_from.simps [of acc ts]\<close>)
next
  case (6 ts)
  consider "hd_is T_NOT ts" | "\<not> hd_is T_NOT ts" "hd_is (Ch CHR ''@'') ts"
    | "\<not> hd_is T_NOT ts" "\<not> hd_is (Ch CHR ''@'') ts" "hd_is (Ch CHR ''('') ts"
    | n u where "\<not> hd_is T_NOT ts" "\<not> hd_is (Ch CHR ''@'') ts" "\<not> hd_is (Ch CHR ''('') ts" "numeral_at ts = Some (n, u)"
    | "\<not> hd_is T_NOT ts" "\<not> hd_is (Ch CHR ''@'') ts" "\<not> hd_is (Ch CHR ''('') ts" "numeral_at ts = None"
    by (cases "numeral_at ts") auto
  then show ?case
  proof cases
    case 1
    with "6.prems" obtain g where g: "rd_factor (tl ts) = Some (g, r)" "f = NOT_OF g"
      by (auto simp: rd_factor.simps [of ts] go_on_Some)
    from "6.IH"(1) [OF 1 g(1)] hd_isD [OF 1] g(2) show ?thesis by simp
  next
    case 2
    with "6.prems" obtain g where g: "rd_factor (tl ts) = Some (g, r)" "f = ADDRESS g"
      by (auto simp: rd_factor.simps [of ts] go_on_Some)
    from "6.IH"(2) [OF 2 g(1)] hd_isD [OF 2(2)] g(2) show ?thesis by simp
  next
    case 3
    with "6.prems" obtain g where g: "rd_expr (tl ts) = Some (g, Ch CHR '')'' # r)" "f = PAR g"
      by (auto simp: rd_factor.simps [of ts] go_on_Some)
    from "6.IH"(3) [OF 3 g(1)] hd_isD [OF 3(3)] g(2) show ?thesis by simp
  next
    case 4
    with "6.prems" show ?thesis by (auto simp: rd_factor.simps [of ts])
  next
    case 5
    with "6.prems" obtain q r1 where q: "rd_path ts = Some (q, r1)" "length r1 < length ts"
      and k: "(if hd_is (Ch CHR ''('') r1 then
          go_on ts (rd_exprs (tl r1)) (\<lambda>es r. go_on ts (tok (Ch CHR '')'') r) (\<lambda>_ r. Some (APP q es, r)))
        else go_on ts (lvalue_from q r1) (\<lambda>l r. Some (LVALUE l, r))) = Some (f, r)"
      by (auto simp: rd_factor.simps [of ts] go_on_Some)
    show ?thesis
    proof (cases "hd_is (Ch CHR ''('') r1")
      case True
      with k obtain es1 where es: "rd_exprs (tl r1) = Some (es1, Ch CHR '')'' # r)" "f = APP q es1" by (auto simp: go_on_Some)
      from "6.IH"(4) [OF 5 q True es(1)] hd_isD [OF True] es(2) path_sound [OF q(1)] show ?thesis by simp
    next
      case False
      with k obtain l1 where l: "lvalue_from q r1 = Some (l1, r)" "f = LVALUE l1" by (auto simp: go_on_Some)
      from "6.IH"(5) [OF 5 q False l(1)] l(2) path_sound [OF q(1)] show ?thesis by simp
    qed
  qed
next
  case (7 p ts)
  then show ?case
    by (auto simp: lvalue_from.simps [of p ts] go_on_Some split: if_splits elim!: hd_isE)
next
  case (8 ts)
  show ?case
  proof (cases "hd_is (Ch CHR '')'') ts \<or> hd_is (Ch CHR '','') ts")
    case True
    with "8.prems" "8.IH"(1) show ?thesis by (simp add: rd_exprs.simps [of ts])
  next
    case False
    with "8.prems" obtain e1 r1 where e1: "rd_expr ts = Some (e1, r1)" "length r1 < length ts" "exprs_from (ONE e1) r1 = Some (es, r)"
      by (auto simp: rd_exprs.simps [of ts] go_on_Some)
    from "8.IH"(2) [OF False e1(1)] "8.IH"(3) [OF False e1] show ?thesis by simp
  qed
next
  case (9 acc ts)
  then show ?case
    by (auto simp: exprs_from.simps [of acc ts] go_on_Some split: if_splits elim!: hd_isE)
qed

section \<open>Statements\<close>

function (sequential) rd_stmt :: "token list \<Rightarrow> statement reading"
  and rd_compound :: "token list \<Rightarrow> optional_statements reading"
  and stmts_from :: "statement_list \<Rightarrow> token list \<Rightarrow> statement_list reading" where
  "rd_stmt ts =
     (if hd_is T_TBEGIN ts then go_on ts (rd_compound ts) (\<lambda>b r. Some (COMPOUND b, r))
      else if hd_is T_IF ts then
        go_on ts (rd_expr (tl ts)) (\<lambda>c r. go_on ts (tok T_THEN r) (\<lambda>_ r. go_on ts (rd_stmt r) (\<lambda>th r.
          if hd_is T_ELSE r then go_on ts (rd_stmt (tl r)) (\<lambda>el r. Some (IF_THEN_ELSE c th el, r))
          else Some (IF_THEN c th, r))))
      else if hd_is T_WHILE ts then
        go_on ts (rd_expr (tl ts)) (\<lambda>c r. go_on ts (tok T_DO r) (\<lambda>_ r. go_on ts (rd_stmt r) (\<lambda>s r. Some (WHILE_DO c s, r))))
      else if hd_is T_FOR ts then
        go_on ts (name (tl ts)) (\<lambda>i r. go_on ts (tok T_ASSIGNOP r) (\<lambda>_ r. go_on ts (rd_expr r) (\<lambda>a r.
        go_on ts (tok T_TO r) (\<lambda>_ r. go_on ts (rd_expr r) (\<lambda>b r. go_on ts (tok T_DO r) (\<lambda>_ r.
        go_on ts (rd_stmt r) (\<lambda>s r. Some (FOR_TO i a b s, r))))))))
      else go_on ts (rd_path ts) (\<lambda>p r.
        if hd_is (Ch CHR ''('') r then
          go_on ts (rd_exprs (tl r)) (\<lambda>es r. go_on ts (tok (Ch CHR '')'') r) (\<lambda>_ r. Some (PROC_STATEMENT (PROC_ARGS p es), r)))
        else go_on ts (lvalue_from p r) (\<lambda>l r.
          if hd_is T_ASSIGNOP r then go_on ts (rd_expr (tl r)) (\<lambda>e r. Some (ASSIGN l e, r))
          else (case l of PATH q \<Rightarrow> Some (PROC_STATEMENT (PROC q), r) | _ \<Rightarrow> None))))"
| "rd_compound ts =
     (if hd_is T_TBEGIN ts then
        (if hd_is T_END (tl ts) then Some (NO_STATEMENTS, tl (tl ts))
         else go_on ts (rd_stmt (tl ts)) (\<lambda>s r. go_on ts (stmts_from (LAST s) r) (\<lambda>ss r. go_on ts (tok T_END r) (\<lambda>_ r.
           Some (STATEMENTS ss, r)))))
      else None)"
| "stmts_from acc ts = (if hd_is (Ch CHR '';'') ts
     then go_on ts (rd_stmt (tl ts)) (\<lambda>s r. stmts_from (AND_THEN acc s) r) else Some (acc, ts))"
  by pat_completeness auto
termination
  by (relation "measure (\<lambda>x. case x of
      Inl ts \<Rightarrow> 2 * length ts + 1 | Inr (Inl ts) \<Rightarrow> 2 * length ts | Inr (Inr (_, ts)) \<Rightarrow> 2 * length ts + 1)")
    (auto elim!: hd_isE)

declare rd_stmt.simps [simp del] rd_compound.simps [simp del] stmts_from.simps [simp del]

text \<open>What may stand behind a statement, and what it starts with.\<close>

definition after_stmt :: "statement \<Rightarrow> token list \<Rightarrow> bool" where
  "after_stmt s r \<longleftrightarrow> after_expr r \<and> \<not> hd_is T_ASSIGNOP r \<and> (dangling s \<longrightarrow> \<not> hd_is T_ELSE r)"

lemma lvalue_opens: "\<exists>n us. lvalue_yield l @ r = T_ID n # us"
  using path_opens by (cases l) fastforce+

lemma compound_opens: "\<exists>us. compound_yield b @ r = T_TBEGIN # us"
  by (cases b) simp_all

lemma proc_opens: "\<exists>n us. proc_yield p @ r = T_ID n # us"
  using path_opens by (cases p) fastforce+

lemma stmt_opens: "\<exists>x us. stmt_yield s @ r = x # us \<and> x \<noteq> T_END"
  using lvalue_opens proc_opens compound_opens by (cases s) fastforce+

lemma stmts_open:
  "0 \<le> size (s :: statement)"
  "0 \<le> size (b :: optional_statements)"
  "\<not> hd_is T_END (stmts_yield ss @ r)"
proof (induction s and b and ss arbitrary: and and r)
  case (LAST s)
  then show ?case using stmt_opens [of s r] by auto
qed simp_all

lemma stmt_path:
  assumes "\<not> hd_is (Ch CHR ''.'') r"
  shows "rd_stmt (path_yield p @ r) = (if hd_is (Ch CHR ''('') r then
      go_on (path_yield p @ r) (rd_exprs (tl r)) (\<lambda>es r'. go_on (path_yield p @ r) (tok (Ch CHR '')'') r') (\<lambda>_ r'.
        Some (PROC_STATEMENT (PROC_ARGS p es), r')))
    else go_on (path_yield p @ r) (lvalue_from p r) (\<lambda>l r'.
        if hd_is T_ASSIGNOP r' then go_on (path_yield p @ r) (rd_expr (tl r')) (\<lambda>e r'. Some (ASSIGN l e, r'))
        else (case l of PATH q \<Rightarrow> Some (PROC_STATEMENT (PROC q), r') | _ \<Rightarrow> None)))"
proof -
  obtain n us where "path_yield p @ r = T_ID n # us" using path_opens by blast
  then have "\<not> hd_is T_TBEGIN (path_yield p @ r)" "\<not> hd_is T_IF (path_yield p @ r)" "\<not> hd_is T_WHILE (path_yield p @ r)"
    "\<not> hd_is T_FOR (path_yield p @ r)" by simp_all
  then show ?thesis by (simp add: rd_stmt.simps [of "path_yield p @ r"] path_complete path_end [OF assms])
qed

lemma proc_complete:
  assumes "after_factor r" and "\<not> hd_is T_ASSIGNOP r"
  shows "rd_stmt (proc_yield p @ r) = Some (PROC_STATEMENT p, r)"
proof (cases p)
  case (PROC q)
  have "lvalue_from q r = Some (PATH q, r)" using assms by (simp add: lvalue_from.simps after_factor_def)
  with PROC assms show ?thesis by (simp add: stmt_path after_factor_def)
next
  case (PROC_ARGS q es)
  have "rd_exprs (exprs_yield es @ Ch CHR '')'' # r) = Some (es, Ch CHR '')'' # r)" by (simp add: exprs_end expr_complete)
  with PROC_ARGS show ?thesis by (simp add: stmt_path)
qed

lemma assign_complete:
  assumes "after_expr r"
  shows "rd_stmt (lvalue_yield l @ T_ASSIGNOP # expr_yield e @ r) = Some (ASSIGN l e, r)"
proof -
  let ?r = "T_ASSIGNOP # expr_yield e @ r"
  from expr_complete(5) [of ?r l] obtain p sfx where l: "lvalue_yield l @ ?r = path_yield p @ sfx"
    "\<not> hd_is (Ch CHR ''.'') sfx" "\<not> hd_is (Ch CHR ''('') sfx" "lvalue_from p sfx = Some (l, ?r)" by auto
  moreover have "length ?r < length (path_yield p @ sfx)" "length r < length (path_yield p @ sfx)"
    unfolding l(1) [symmetric] by simp_all
  ultimately show ?thesis using expr_complete(1) [OF assms, of e] stmt_path [OF l(2), of p] by simp
qed

lemma after_else: "after_stmt s (T_ELSE # r) \<longleftrightarrow> \<not> dangling s"
  by (simp add: after_stmt_def)

lemma compound_nonempty [simp]: "compound_yield b \<noteq> []"
  by (cases b) simp_all

lemma stmt_nonempty [simp]: "stmt_yield s \<noteq> []"
  using stmt_opens [of s "[]"] by auto

lemma stmt_complete:
  "resolved s \<Longrightarrow> after_stmt s r \<Longrightarrow> rd_stmt (stmt_yield s @ r) = Some (s, r)"
  "resolved_compound b \<Longrightarrow> rd_compound (compound_yield b @ r) = Some (b, r)"
  "resolved_stmts ss \<Longrightarrow> hd_is (Ch CHR '';'') r \<or> hd_is T_END r \<Longrightarrow> \<exists>s r1. rd_stmt (stmts_yield ss @ r) = Some (s, r1)
     \<and> length r1 < length (stmts_yield ss @ r) \<and> stmts_from (LAST s) r1 = stmts_from ss r"
proof (induction s and b and ss arbitrary: r and r and r)
  case (ASSIGN l e)
  then show ?case by (simp add: assign_complete after_stmt_def)
next
  case (PROC_STATEMENT p)
  then show ?case by (simp add: proc_complete after_stmt_def after_expr_def after_simple_def after_term_def)
next
  case (COMPOUND b)
  moreover have "hd_is T_TBEGIN (compound_yield b @ r)" using compound_opens [of b r] by auto
  ultimately show ?case by (simp add: rd_stmt.simps)
next
  case (IF_THEN c th)
  then have "after_stmt th r" "\<not> hd_is T_ELSE r" by (simp_all add: after_stmt_def)
  with IF_THEN show ?case by (simp add: rd_stmt.simps expr_complete)
next
  case (IF_THEN_ELSE c th el)
  then have "after_stmt el r" by (simp add: after_stmt_def)
  with IF_THEN_ELSE show ?case by (simp add: rd_stmt.simps expr_complete after_else)
next
  case (WHILE_DO c s)
  then have "after_stmt s r" by (simp add: after_stmt_def)
  with WHILE_DO show ?case by (simp add: rd_stmt.simps expr_complete)
next
  case (FOR_TO i a b s)
  then have "after_stmt s r" by (simp add: after_stmt_def)
  with FOR_TO show ?case by (simp add: rd_stmt.simps expr_complete)
next
  case (STATEMENTS ss)
  then obtain s r1 where "rd_stmt (stmts_yield ss @ T_END # r) = Some (s, r1)"
    "length r1 < length (stmts_yield ss @ T_END # r)" "stmts_from (LAST s) r1 = stmts_from ss (T_END # r)"
    using STATEMENTS.IH [of "T_END # r"] by auto
  with stmts_open(3) show ?case by (simp add: rd_compound.simps stmts_from.simps [of ss])
next
  case NO_STATEMENTS
  then show ?case by (simp add: rd_compound.simps)
next
  case (LAST s)
  then have "after_stmt s r" by (auto simp: after_stmt_def elim!: hd_isE)
  with LAST show ?case by simp
next
  case (AND_THEN ss s)
  then obtain s0 r1 where 1: "rd_stmt (stmts_yield ss @ Ch CHR '';'' # stmt_yield s @ r) = Some (s0, r1)"
    "length r1 < length (stmts_yield ss @ Ch CHR '';'' # stmt_yield s @ r)"
    "stmts_from (LAST s0) r1 = stmts_from ss (Ch CHR '';'' # stmt_yield s @ r)"
    using AND_THEN.IH(1) [of "Ch CHR '';'' # stmt_yield s @ r"] by auto
  have "after_stmt s r" using AND_THEN.prems(2) by (auto simp: after_stmt_def elim!: hd_isE)
  with AND_THEN 1 show ?case by (simp add: stmts_from.simps [of ss])
qed

lemma stmt_sound:
  "rd_stmt ts = Some (s, r) \<Longrightarrow> ts = stmt_yield s @ r \<and> resolved s \<and> (dangling s \<longrightarrow> \<not> hd_is T_ELSE r)"
  "rd_compound ts = Some (b, r) \<Longrightarrow> ts = compound_yield b @ r \<and> resolved_compound b"
  "stmts_from acc ts = Some (ss, r) \<Longrightarrow> resolved_stmts acc \<Longrightarrow> stmts_yield acc @ ts = stmts_yield ss @ r \<and> resolved_stmts ss"
proof (induction ts and ts and acc ts arbitrary: s r and b r and ss r rule: rd_stmt_rd_compound_stmts_from.induct)
  case (1 ts)
  consider "hd_is T_TBEGIN ts" | "\<not> hd_is T_TBEGIN ts" "hd_is T_IF ts"
    | "\<not> hd_is T_TBEGIN ts" "\<not> hd_is T_IF ts" "hd_is T_WHILE ts"
    | "\<not> hd_is T_TBEGIN ts" "\<not> hd_is T_IF ts" "\<not> hd_is T_WHILE ts" "hd_is T_FOR ts"
    | "\<not> hd_is T_TBEGIN ts" "\<not> hd_is T_IF ts" "\<not> hd_is T_WHILE ts" "\<not> hd_is T_FOR ts" by blast
  then show ?case
  proof cases
    case 1
    with "1.prems" obtain b where b: "rd_compound ts = Some (b, r)" "s = COMPOUND b"
      by (auto simp: rd_stmt.simps [of ts] go_on_Some)
    from "1.IH"(1) [OF 1 b(1)] b(2) show ?thesis by simp
  next
    case 2
    with "1.prems" obtain c r1 th r2 where c: "rd_expr (tl ts) = Some (c, T_THEN # r1)" "length (T_THEN # r1) < length ts"
        "length r1 < length ts"
      and th: "rd_stmt r1 = Some (th, r2)" "length r2 < length ts"
      and k: "(if hd_is T_ELSE r2 then go_on ts (rd_stmt (tl r2)) (\<lambda>el r. Some (IF_THEN_ELSE c th el, r))
          else Some (IF_THEN c th, r2)) = Some (s, r)"
      by (auto simp: rd_stmt.simps [of ts] go_on_Some)
    have t: "tok T_THEN (T_THEN # r1) = Some ((), r1)" by simp
    note IH = "1.IH"(2) [OF 2 c(1,2) t c(3) th(1)]
    have ts: "ts = T_IF # expr_yield c @ T_THEN # r1" using hd_isD [OF 2(2)] expr_sound(1) [OF c(1)] by simp
    show ?thesis
    proof (cases "hd_is T_ELSE r2")
      case True
      with k obtain el where el: "rd_stmt (tl r2) = Some (el, r)" "s = IF_THEN_ELSE c th el" by (auto simp: go_on_Some)
      from "1.IH"(3) [OF 2 c(1,2) t c(3) th True el(1)] IH True hd_isD [OF True] el(2) ts show ?thesis by simp
    next
      case False
      with k IH ts show ?thesis by auto
    qed
  next
    case 3
    with "1.prems" obtain c r1 w where c: "rd_expr (tl ts) = Some (c, T_DO # r1)" "length (T_DO # r1) < length ts"
      "length r1 < length ts" and w: "rd_stmt r1 = Some (w, r)" "s = WHILE_DO c w"
      by (auto simp: rd_stmt.simps [of ts] go_on_Some)
    have t: "tok T_DO (T_DO # r1) = Some ((), r1)" by simp
    have "ts = T_WHILE # expr_yield c @ T_DO # r1" using hd_isD [OF 3(3)] expr_sound(1) [OF c(1)] by simp
    with "1.IH"(4) [OF 3 c(1,2) t c(3) w(1)] w(2) show ?thesis by simp
  next
    case 4
    with "1.prems" obtain i r0 a r1 b r2 w where i: "tl ts = T_ID i # T_ASSIGNOP # r0" "length (T_ASSIGNOP # r0) < length ts" "length r0 < length ts"
      and a: "rd_expr r0 = Some (a, T_TO # r1)" "length (T_TO # r1) < length ts" "length r1 < length ts"
      and b: "rd_expr r1 = Some (b, T_DO # r2)" "length (T_DO # r2) < length ts" "length r2 < length ts"
      and w: "rd_stmt r2 = Some (w, r)" "s = FOR_TO i a b w"
      by (auto simp: rd_stmt.simps [of ts] go_on_Some)
    have "name (tl ts) = Some (i, T_ASSIGNOP # r0)" using i(1) by simp
    note IH = "1.IH"(5) [OF 4 this i(2) _ i(3) a(1,2) _ a(3) b(1,2) _ b(3) w(1)]
    have "ts = T_FOR # T_ID i # T_ASSIGNOP # expr_yield a @ T_TO # expr_yield b @ T_DO # r2"
      using hd_isD [OF 4(4)] i(1) expr_sound(1) [OF a(1)] expr_sound(1) [OF b(1)] by simp
    with IH w(2) show ?thesis by simp
  next
    case 5
    with "1.prems" obtain p r1 where p: "rd_path ts = Some (p, r1)"
      and k: "(if hd_is (Ch CHR ''('') r1 then
          go_on ts (rd_exprs (tl r1)) (\<lambda>es r. go_on ts (tok (Ch CHR '')'') r) (\<lambda>_ r. Some (PROC_STATEMENT (PROC_ARGS p es), r)))
        else go_on ts (lvalue_from p r1) (\<lambda>l r.
          if hd_is T_ASSIGNOP r then go_on ts (rd_expr (tl r)) (\<lambda>e r. Some (ASSIGN l e, r))
          else (case l of PATH q \<Rightarrow> Some (PROC_STATEMENT (PROC q), r) | _ \<Rightarrow> None))) = Some (s, r)"
      by (auto simp: rd_stmt.simps [of ts] go_on_Some)
    note ts = path_sound [OF p]
    show ?thesis
    proof (cases "hd_is (Ch CHR ''('') r1")
      case True
      with k obtain es where es: "rd_exprs (tl r1) = Some (es, Ch CHR '')'' # r)" "s = PROC_STATEMENT (PROC_ARGS p es)"
        by (auto simp: go_on_Some)
      from ts hd_isD [OF True] expr_sound(8) [OF es(1)] es(2) show ?thesis by simp
    next
      case False
      with k obtain l r2 where l: "lvalue_from p r1 = Some (l, r2)"
        and k2: "(if hd_is T_ASSIGNOP r2 then go_on ts (rd_expr (tl r2)) (\<lambda>e r. Some (ASSIGN l e, r))
          else (case l of PATH q \<Rightarrow> Some (PROC_STATEMENT (PROC q), r2) | _ \<Rightarrow> None)) = Some (s, r)"
        by (auto simp: go_on_Some)
      have ts2: "ts = lvalue_yield l @ r2" using ts expr_sound(7) [OF l] by simp
      show ?thesis
      proof (cases "hd_is T_ASSIGNOP r2")
        case True
        with k2 obtain e where "rd_expr (tl r2) = Some (e, r)" "s = ASSIGN l e" by (auto simp: go_on_Some)
        with ts2 hd_isD [OF True] expr_sound(1) show ?thesis by fastforce
      next
        case False
        with k2 obtain q where "l = PATH q" "s = PROC_STATEMENT (PROC q)" "r = r2" by (auto split: lvalue.splits)
        with ts2 show ?thesis by simp
      qed
    qed
  qed
next
  case (2 ts)
  show ?case
  proof (cases "hd_is T_TBEGIN ts \<and> \<not> hd_is T_END (tl ts)")
    case True
    with "2.prems" obtain s1 r1 ss where s1: "rd_stmt (tl ts) = Some (s1, r1)" "length r1 < length ts"
      and ss: "stmts_from (LAST s1) r1 = Some (ss, T_END # r)" and b: "b = STATEMENTS ss"
      by (auto simp: rd_compound.simps [of ts] go_on_Some)
    from True have h: "hd_is T_TBEGIN ts" "\<not> hd_is T_END (tl ts)" by simp_all
    from "2.IH"(1) [OF h s1(1)] "2.IH"(2) [OF h s1 ss] hd_isD [OF h(1)] b show ?thesis by simp
  next
    case False
    with "2.prems" show ?thesis by (auto simp: rd_compound.simps [of ts] split: if_splits elim!: hd_isE)
  qed
next
  case (3 acc ts)
  show ?case
  proof (cases "hd_is (Ch CHR '';'') ts")
    case True
    with "3.prems" obtain s1 r1 where s1: "rd_stmt (tl ts) = Some (s1, r1)" "length r1 < length ts"
      "stmts_from (AND_THEN acc s1) r1 = Some (ss, r)" by (auto simp: stmts_from.simps [of acc ts] go_on_Some)
    from "3.IH"(1) [OF True s1(1)] "3.IH"(2) [OF True s1] "3.prems"(2) hd_isD [OF True] show ?thesis by simp
  qed (use "3.prems" in \<open>simp add: stmts_from.simps [of acc ts]\<close>)
qed

section \<open>Subprograms and programs\<close>

function (sequential) rd_sub :: "token list \<Rightarrow> subprogram_declaration reading"
  and subs_from :: "subprogram_declarations \<Rightarrow> token list \<Rightarrow> subprogram_declarations reading" where
  "rd_sub ts =
     (if hd_is T_FUNCTION ts then
        go_on ts (name (tl ts)) (\<lambda>n r. go_on ts (rd_args r) (\<lambda>as r. go_on ts (tok (Ch CHR '':'') r) (\<lambda>_ r.
        go_on ts (rd_standard r) (\<lambda>t r. go_on ts (tok (Ch CHR '';'') r) (\<lambda>_ r. go_on ts (subs_from NO_SUBPROGRAMS r) (\<lambda>subs r.
        go_on ts (types_from NO_TYPES r) (\<lambda>tys r. go_on ts (decls_from NO_DECLS r) (\<lambda>ds r. go_on ts (rd_compound r) (\<lambda>b r.
        Some (FUN n as t subs tys ds b, r))))))))))
      else if hd_is T_PROCEDURE ts then
        go_on ts (name (tl ts)) (\<lambda>n r. go_on ts (rd_args r) (\<lambda>as r. go_on ts (tok (Ch CHR '';'') r) (\<lambda>_ r.
        go_on ts (subs_from NO_SUBPROGRAMS r) (\<lambda>subs r. go_on ts (types_from NO_TYPES r) (\<lambda>tys r.
        go_on ts (decls_from NO_DECLS r) (\<lambda>ds r. go_on ts (rd_compound r) (\<lambda>b r.
        Some (PROCEDURE n as subs tys ds b, r))))))))
      else None)"
| "subs_from acc ts = (if hd_is T_FUNCTION ts \<or> hd_is T_PROCEDURE ts
     then go_on ts (rd_sub ts) (\<lambda>s r. go_on ts (tok (Ch CHR '';'') r) (\<lambda>_ r. subs_from (SUBPROGRAMS acc s) r))
     else Some (acc, ts))"
  by pat_completeness auto
termination
  by (relation "measure (\<lambda>x. case x of Inl ts \<Rightarrow> 2 * length ts | Inr (_, ts) \<Rightarrow> 2 * length ts + 1)") auto

declare rd_sub.simps [simp del] subs_from.simps [simp del]

definition rd_program :: "token list \<Rightarrow> program_tree option" where
  "rd_program ts =
     go_on ts (tok T_PROGRAM ts) (\<lambda>_ r. go_on ts (name r) (\<lambda>n r. go_on ts (tok (Ch CHR ''('') r) (\<lambda>_ r.
     go_on ts (if hd_is (Ch CHR '')'') r then Some (NO_IDS, r) else go_on ts (rd_ids r) (\<lambda>ns r. Some (IDS ns, r))) (\<lambda>ns r.
     go_on ts (tok (Ch CHR '')'') r) (\<lambda>_ r. go_on ts (tok (Ch CHR '';'') r) (\<lambda>_ r.
     go_on ts (types_from NO_TYPES r) (\<lambda>tys r. go_on ts (decls_from NO_DECLS r) (\<lambda>ds r.
     go_on ts (subs_from NO_SUBPROGRAMS r) (\<lambda>subs r. go_on ts (rd_compound r) (\<lambda>b r.
     go_on ts (tok (Ch CHR ''.'') r) (\<lambda>_ r. if r = [] then Some (PROGRAM n ns tys ds subs b) else None)))))))))))"

lemma types_open: "types_yield ts @ r = (if ts = NO_TYPES then r else T_TYPE # tl (types_yield ts) @ r)"
proof (induction ts arbitrary: r)
  case (TYPES ts n t)
  then show ?case by (cases "ts = NO_TYPES") (simp_all, metis append_Cons tl_append2 list.sel(3) list.distinct(1))
qed simp

lemma decls_open: "decls_yield ds @ r = (if ds = NO_DECLS then r else T_VAR # tl (decls_yield ds) @ r)"
proof (induction ds arbitrary: r)
  case (DECLS ds ns t)
  then show ?case by (cases "ds = NO_DECLS") (simp_all, metis append_Cons tl_append2 list.sel(3) list.distinct(1))
qed simp

lemma types_read: "\<not> hd_is T_TYPE r \<Longrightarrow> types_from NO_TYPES (types_yield tys @ r) = Some (tys, r)"
  by (simp add: types_complete types_end)

lemma decls_read: "\<not> hd_is T_VAR r \<Longrightarrow> decls_from NO_DECLS (decls_yield ds @ r) = Some (ds, r)"
  by (simp add: decls_complete decls_end)

lemma open_not:
  "\<not> hd_is T_TYPE r \<Longrightarrow> \<not> hd_is T_TYPE (decls_yield ds @ r)"
  "x \<noteq> T_TYPE \<Longrightarrow> \<not> hd_is x r \<Longrightarrow> \<not> hd_is x (types_yield tys @ r)"
  "x \<noteq> T_VAR \<Longrightarrow> \<not> hd_is x r \<Longrightarrow> \<not> hd_is x (decls_yield ds @ r)"
  using types_open [of tys r] decls_open [of ds r] by (auto simp: hd_is_def split: if_splits)

lemma compound_not [simp]: "hd_is x (compound_yield b @ r) \<longleftrightarrow> x = T_TBEGIN"
  using compound_opens [of b r] by auto

lemma subs_open_not:
  "0 \<le> size (s :: subprogram_declaration)"
  "x \<noteq> T_FUNCTION \<Longrightarrow> x \<noteq> T_PROCEDURE \<Longrightarrow> \<not> hd_is x r \<Longrightarrow> \<not> hd_is x (subs_yield ss @ r)"
proof (induction s and ss arbitrary: and r)
  case (SUBPROGRAMS ss s)
  then show ?case by (cases s) simp_all
qed simp_all

lemma sub_nonempty [simp]: "sub_yield s \<noteq> []"
  by (cases s) simp_all

lemma sub_complete:
  "resolved_sub s \<Longrightarrow> rd_sub (sub_yield s @ r) = Some (s, r)"
  "resolved_subs ss \<Longrightarrow> subs_from NO_SUBPROGRAMS (subs_yield ss @ r) = subs_from ss r"
proof (induction s and ss arbitrary: r and r)
  case (FUN n as t subs tys ds b)
  let ?r = "types_yield tys @ decls_yield ds @ compound_yield b @ r"
  have "\<not> hd_is T_FUNCTION ?r \<and> \<not> hd_is T_PROCEDURE ?r" by (simp add: open_not)
  with FUN have "subs_from NO_SUBPROGRAMS (subs_yield subs @ ?r) = Some (subs, ?r)" by (simp add: subs_from.simps [of subs])
  with FUN show ?case
    by (simp add: rd_sub.simps args_complete standard_complete types_read decls_read open_not stmt_complete)
next
  case (PROCEDURE n as subs tys ds b)
  let ?r = "types_yield tys @ decls_yield ds @ compound_yield b @ r"
  have "\<not> hd_is T_FUNCTION ?r \<and> \<not> hd_is T_PROCEDURE ?r" by (simp add: open_not)
  with PROCEDURE have "subs_from NO_SUBPROGRAMS (subs_yield subs @ ?r) = Some (subs, ?r)" by (simp add: subs_from.simps [of subs])
  with PROCEDURE show ?case
    by (simp add: rd_sub.simps args_complete types_read decls_read open_not stmt_complete)
next
  case (SUBPROGRAMS ss s)
  moreover have "hd_is T_FUNCTION (sub_yield s @ Ch CHR '';'' # r) \<or> hd_is T_PROCEDURE (sub_yield s @ Ch CHR '';'' # r)"
    by (cases s) simp_all
  ultimately show ?case by (simp add: subs_from.simps [of ss])
qed simp

lemma sub_sound:
  "rd_sub ts = Some (s, r) \<Longrightarrow> ts = sub_yield s @ r \<and> resolved_sub s"
  "subs_from acc ts = Some (ss, r) \<Longrightarrow> resolved_subs acc \<Longrightarrow> subs_yield acc @ ts = subs_yield ss @ r \<and> resolved_subs ss"
proof (induction ts and acc ts arbitrary: s r and ss r rule: rd_sub_subs_from.induct)
  case (1 ts)
  consider "hd_is T_FUNCTION ts" | "\<not> hd_is T_FUNCTION ts" "hd_is T_PROCEDURE ts" | "\<not> hd_is T_FUNCTION ts" "\<not> hd_is T_PROCEDURE ts"
    by blast
  then show ?case
  proof cases
    case 1
    with "1.prems" obtain n r1 as r2 t r3 subs r4 tys r5 ds r6 b where n: "tl ts = T_ID n # r1" "length r1 < length ts"
      and as: "rd_args r1 = Some (as, Ch CHR '':'' # r2)" "length (Ch CHR '':'' # r2) < length ts" "length r2 < length ts"
      and t: "rd_standard r2 = Some (t, Ch CHR '';'' # r3)" "length (Ch CHR '';'' # r3) < length ts" "length r3 < length ts"
      and subs: "subs_from NO_SUBPROGRAMS r3 = Some (subs, r4)" and tys: "types_from NO_TYPES r4 = Some (tys, r5)"
      and ds: "decls_from NO_DECLS r5 = Some (ds, r6)" and b: "rd_compound r6 = Some (b, r)" and s: "s = FUN n as t subs tys ds b"
      by (auto simp: rd_sub.simps [of ts] go_on_Some)
    have "name (tl ts) = Some (n, r1)" using n(1) by simp
    from "1.IH"(1) [OF 1 this n(2) as(1,2) _ as(3) t(1,2) _ t(3) subs]
    have "r3 = subs_yield subs @ r4 \<and> resolved_subs subs" by simp
    with s hd_isD [OF 1] n(1) args_sound [OF as(1)] standard_sound [OF t(1)] types_sound [OF tys] decls_sound [OF ds]
      stmt_sound(2) [OF b] show ?thesis by simp
  next
    case 2
    with "1.prems" obtain n r1 as r3 subs r4 tys r5 ds r6 b where n: "tl ts = T_ID n # r1" "length r1 < length ts"
      and as: "rd_args r1 = Some (as, Ch CHR '';'' # r3)" "length (Ch CHR '';'' # r3) < length ts" "length r3 < length ts"
      and subs: "subs_from NO_SUBPROGRAMS r3 = Some (subs, r4)" and tys: "types_from NO_TYPES r4 = Some (tys, r5)"
      and ds: "decls_from NO_DECLS r5 = Some (ds, r6)" and b: "rd_compound r6 = Some (b, r)" and s: "s = PROCEDURE n as subs tys ds b"
      by (auto simp: rd_sub.simps [of ts] go_on_Some)
    have "name (tl ts) = Some (n, r1)" using n(1) by simp
    from "1.IH"(2) [OF 2 this n(2) as(1,2) _ as(3) subs]
    have "r3 = subs_yield subs @ r4 \<and> resolved_subs subs" by simp
    with s hd_isD [OF 2(2)] n(1) args_sound [OF as(1)] types_sound [OF tys] decls_sound [OF ds]
      stmt_sound(2) [OF b] show ?thesis by simp
  next
    case 3
    with "1.prems" show ?thesis by (simp add: rd_sub.simps [of ts])
  qed
next
  case (2 acc ts)
  show ?case
  proof (cases "hd_is T_FUNCTION ts \<or> hd_is T_PROCEDURE ts")
    case True
    with "2.prems" obtain s1 r1 where s1: "rd_sub ts = Some (s1, Ch CHR '';'' # r1)" "length (Ch CHR '';'' # r1) < length ts"
      "length r1 < length ts" "subs_from (SUBPROGRAMS acc s1) r1 = Some (ss, r)" by (auto simp: subs_from.simps [of acc ts] go_on_Some)
    from "2.IH"(1) [OF True s1(1)] "2.IH"(2) [OF True s1(1,2) _ s1(3,4)] "2.prems"(2) show ?thesis by simp
  qed (use "2.prems" in \<open>simp add: subs_from.simps [of acc ts]\<close>)
qed

lemma program_complete: "resolved_program t \<Longrightarrow> rd_program (program_yield t) = Some t"
proof (cases t)
  case (PROGRAM n ns tys ds subs b)
  assume "resolved_program t"
  then have s: "resolved_subs subs" "resolved_compound b" by (simp_all add: PROGRAM)
  let ?b = "compound_yield b @ [Ch CHR ''.'']"
  let ?ds = "subs_yield subs @ ?b"
  have "subs_from NO_SUBPROGRAMS ?ds = Some (subs, ?b)" using sub_complete(2) [OF s(1), of ?b] by (simp add: subs_from.simps [of subs])
  moreover have "\<not> hd_is T_VAR ?ds" "\<not> hd_is T_TYPE ?ds" by (simp_all add: subs_open_not)
  moreover have "rd_compound ?b = Some (b, [Ch CHR ''.''])" using s(2) by (rule stmt_complete(2))
  moreover have "\<not> hd_is (Ch CHR '')'') (ids_yield ids @ r)" for ids r by (induction ids arbitrary: r) simp_all
  ultimately show ?thesis
    by (cases ns) (simp_all add: PROGRAM rd_program_def types_read decls_read open_not ids_complete ids_end)
qed

lemma program_sound:
  assumes "rd_program ts = Some t"
  shows "program_yield t = ts \<and> resolved_program t"
proof -
  from assms obtain n r1 ns r2 tys r3 ds r4 subs r5 b where ts: "ts = T_PROGRAM # T_ID n # Ch CHR ''('' # r1"
    and ns: "(if hd_is (Ch CHR '')'') r1 then Some (NO_IDS, r1) else go_on ts (rd_ids r1) (\<lambda>ns r. Some (IDS ns, r)))
        = Some (ns, Ch CHR '')'' # Ch CHR '';'' # r2)"
    and tys: "types_from NO_TYPES r2 = Some (tys, r3)" and ds: "decls_from NO_DECLS r3 = Some (ds, r4)"
    and subs: "subs_from NO_SUBPROGRAMS r4 = Some (subs, r5)" and b: "rd_compound r5 = Some (b, [Ch CHR ''.''])"
    and t: "t = PROGRAM n ns tys ds subs b"
    by (auto simp: rd_program_def go_on_Some split: if_splits)
  have "r1 = opt_ids_yield ns @ Ch CHR '')'' # Ch CHR '';'' # r2"
    using ns by (auto simp: go_on_Some dest!: ids_sound split: if_splits)
  with ts t types_sound [OF tys] decls_sound [OF ds] sub_sound(2) [OF subs] stmt_sound(2) [OF b] show ?thesis by simp
qed

section \<open>Text\<close>

text \<open>The first component is 0 if a program has been read, as for \<open>yyparse\<close>.\<close>

definition read_text :: "string \<Rightarrow> int \<times> ast_program option" where
  "read_text src = (case rd_program (scan src) of
       None \<Rightarrow> (1, None)
     | Some t \<Rightarrow> (case program_act t of Inl e \<Rightarrow> (1, None) | Inr p \<Rightarrow> (0, Some p)))"

lemma read_text_derives: "read_text src = (0, Some p) \<longleftrightarrow> derives src p"
proof
  assume "read_text src = (0, Some p)"
  then obtain t where "rd_program (scan src) = Some t" "program_act t = Inr p"
    by (auto simp: read_text_def split: option.splits sum.splits)
  with program_sound show "derives src p" unfolding derives_def by blast
next
  assume "derives src p"
  then obtain t where t: "program_yield t = scan src" "resolved_program t" "program_act t = Inr p" by (auto simp: derives_def)
  from program_complete [OF t(2)] t show "read_text src = (0, Some p)" by (simp add: read_text_def)
qed

text \<open>C15. The grammar, with its reading of a dangling ELSE, is unambiguous: a text has at most one parse tree, and
  so at most one program is derived from it; reading by recursive descent finds it whenever there is one.\<close>

theorem reading_finds_derivation:
  "(read_text src = (0, Some p) \<longleftrightarrow> derives src p) \<and> Uniq (derives src)
    \<and> (rd_program ts = Some t \<longleftrightarrow> program_yield t = ts \<and> resolved_program t)"
  using read_text_derives program_sound program_complete by (auto simp: Uniq_def) (metis Pair_inject option.inject)

end
