(* ===== verification/Frontend.thy ===== *)
theory Frontend
  imports Programs Parsing Execution Descent
begin

text \<open>
  Scanner, grammar and driver together: what a run of the compiler does with a text.
\<close>

text \<open>The parser that bison makes returns 0 only with a program that the text is derived to.\<close>

definition follows_grammar :: "(string \<Rightarrow> int \<times> ast_program option) \<Rightarrow> bool" where
  "follows_grammar parse \<longleftrightarrow> (\<forall>src p. parse src = (0, Some p) \<longrightarrow> derives src p)"

text \<open>The reader of Descent does so too, and it can be computed with.\<close>

lemma read_text_follows: "follows_grammar read_text"
  by (simp add: follows_grammar_def read_text_derives)

text \<open>C18. A run of the compiler that gets to the end has derived the text to a parseable program without FOR
  statements and type declarations, accepted it, and printed the tokens that the scanner finds and
  the tree, each only if asked for.\<close>

theorem run_of_text:
  assumes "follows_grammar parse" and "compile_input tc scan parse src options = Inr (shown, Some cx)"
  shows "\<exists>p. derives src p \<and> parseable p \<and> for_ids p = [] \<and> type_names p = [] \<and> analyze p = Inr cx
    \<and> shown = (if has_option options DUMP_TOKENS then dump_tokens tc (scan src) @ puts ''-- done dumping tokens --'' else [])
        @ (if has_option options DUMP_AST then print_program tc p 0 @ puts ''-- done dumping ast --'' else [])"
proof -
  from assms(2) [unfolded compile_reaches] obtain p where p: "parse src = (0, Some p)" "analyze p = Inr cx" "distinct (released p)"
    "shown = (if has_option options DUMP_TOKENS then dump_tokens tc (scan src) @ puts ''-- done dumping tokens --'' else [])
        @ (if has_option options DUMP_AST then print_program tc p 0 @ puts ''-- done dumping ast --'' else [])" by blast
  have "derives src p" using assms(1) p(1) by (simp add: follows_grammar_def)
  then show ?thesis using derives_parseable [of src p] p released_distinct [of p] by auto
qed

definition count_text :: string where
  "count_text = ''program p(output); var k, n: integer; begin n := 3; k := 0; while k < n do begin writeln(k); k := k + 1 end end.''"

definition variable :: "string \<Rightarrow> factor" where
  "variable n = LVALUE (PATH (PATH_ID n))"

definition assignment :: "string \<Rightarrow> expression \<Rightarrow> statement" where
  "assignment n e = ASSIGN (PATH (PATH_ID n)) e"

definition count_tree :: program_tree where
  "count_tree = PROGRAM ''p'' (IDS (ID1 ''output'')) NO_TYPES
     (DECLS NO_DECLS (ID_SNOC (ID1 ''k'') ''n'') (STANDARD S_INTEGER)) NO_SUBPROGRAMS
     (STATEMENTS (AND_THEN (AND_THEN (LAST (assignment ''n'' (expr_of_factor (NUM ''3''))))
        (assignment ''k'' (expr_of_factor (NUM ''0''))))
        (WHILE_DO (REL (A_TERM (FACTOR (variable ''k''))) R_LT (A_TERM (FACTOR (variable ''n''))))
          (COMPOUND (STATEMENTS (AND_THEN
             (LAST (PROC_STATEMENT (PROC_ARGS (PATH_ID ''writeln'') (ONE (expr_of_factor (variable ''k''))))))
             (assignment ''k'' (SIMPLE (ADD (A_TERM (FACTOR (variable ''k''))) A_PLUS (FACTOR (NUM ''1'')))))))))))"

lemma count_text_scanned: "program_yield count_tree = scan count_text"
  by code_simp

lemma count_text_derives: "derives count_text count_prog"
proof -
  have "resolved_program count_tree" "program_act count_tree = Inr count_prog" by code_simp+
  with count_text_scanned show ?thesis by (auto simp: derives_def)
qed

theorem run_of_text_witness:
  "\<exists>cx. compile_input (\<lambda>_. 0) scan read_text count_text 0 = Inr ([], Some cx) \<and> derives count_text count_prog \<and> analyze count_prog = Inr cx"
  using count_prog_ok
proof (rule is_okE)
  fix cx assume a: "analyze count_prog = Inr cx"
  have "read_text count_text = (0, Some count_prog)" using count_text_derives by (simp add: read_text_derives)
  moreover have "distinct (released count_prog)" by code_simp
  ultimately have "compile_input (\<lambda>_. 0) scan read_text count_text 0 = Inr ([], Some cx)"
    unfolding compile_reaches using a by (simp add: has_option_def)
  from run_of_text [OF read_text_follows this] this a count_text_derives show ?thesis by blast
qed

end
