(* ===== verification/UnitTests.thy ===== *)
theory UnitTests
  imports Containers
begin

text \<open>
  The unit tests of the containers (test_util.c). A test returns what the destructors are given; a failing \<open>assert\<close>
  is \<open>Abort\<close>, and as in DList a traversal that does not end is \<open>None\<close>. The cells that the tests
  allocate for integers are the integers themselves.
\<close>

section \<open>Lists\<close>

text \<open>One step of a test after another.\<close>

definition thenr :: "'a result option \<Rightarrow> ('a \<Rightarrow> 'b result option) \<Rightarrow> 'b result option" where
  "thenr r f = (case r of None \<Rightarrow> None | Some (Inl e) \<Rightarrow> Some (Inl e) | Some (Inr x) \<Rightarrow> f x)"

lemma thenr_simps [simp]: "thenr (Some (Inl e)) f = Some (Inl e)" "thenr (Some (Inr x)) f = f x"
  by (simp_all add: thenr_def)

definition test_list_empty :: "32 word heap \<Rightarrow> 32 word \<Rightarrow> 32 word list result option" where
  "test_list_empty h x =
     (case list_empty h of (l, h) \<Rightarrow>
      thenr (list_free h l) (\<lambda>(freed, h).
      thenr (Some (list_new h (Some x))) (\<lambda>(l, h).
      thenr (list_free h l) (\<lambda>(freed', h). Some (Inr (freed @ freed'))))))"

text \<open>The loops with \<open>*e == j++\<close> and \<open>*e == --j\<close>; the result is \<open>j\<close>.\<close>

fun check_up :: "32 word option list \<Rightarrow> 32 word \<Rightarrow> 32 word result" where
  "check_up [] j = Inr j"
| "check_up (None # es) j = Inl (Undefined ''null pointer'')"
| "check_up (Some e # es) j = (if e = j then check_up es (j + 1) else Inl Abort)"

fun check_down :: "32 word list \<Rightarrow> 32 word \<Rightarrow> 32 word result" where
  "check_down [] j = Inr j"
| "check_down (e # es) j = (if e = j - 1 then check_down es (j - 1) else Inl Abort)"

fun append_loop :: "nat \<Rightarrow> 32 word \<Rightarrow> dlist \<times> 32 word heap \<Rightarrow> (dlist \<times> 32 word heap) result" where
  "append_loop 0 i s = Inr s"
| "append_loop (Suc n) i s = bindr (list_add (snd s) (fst s) (Some i)) (append_loop n (i + 1))"

definition test_list_append :: "32 word heap \<Rightarrow> 32 word list result option" where
  "test_list_append h =
     thenr (Some (append_loop 256 0 (list_empty h))) (\<lambda>(l, h).
     thenr (Some (lforeach h l)) (\<lambda>es.
     thenr (Some (check_up es 0)) (\<lambda>j.
     thenr (lforeachrev h l) (\<lambda>es.
     thenr (Some (check_down es j)) (\<lambda>j.
     thenr (list_free h l) (\<lambda>(freed, h). Some (Inr freed)))))))"

definition ints :: "nat \<Rightarrow> 32 word list" where
  "ints n = map of_nat [0..<n]"

lemma list_test_frees:
  "list_rep h l (map Some xs) \<Longrightarrow> \<exists>h'. list_free h l = Some (Inr (drop 1 xs @ take 1 xs, h'))"
  using list_free_rep [of h l "map Some xs"] by (auto simp: drop_map take_map)

lemma test_list_empty_frees: "test_list_empty h x = Some (Inr [x])"
proof -
  obtain l h1 where e: "list_empty h = (l, h1)" by (cases "list_empty h")
  with list_test_frees [of h1 l "[]"] list_empty_rep [OF e] obtain h2 where
    f: "list_free h1 l = Some (Inr ([], h2))" by auto
  obtain l2 h3 where n: "list_new h2 (Some x) = Inr (l2, h3)" "list_rep h3 l2 [Some x]"
    using list_new_rep by blast
  with list_test_frees [of h3 l2 "[x]"] obtain h4 where "list_free h3 l2 = Some (Inr ([x], h4))" by auto
  with e f n show ?thesis by (simp add: test_list_empty_def)
qed

lemma append_loop_rep:
  "dl_rep s xs \<Longrightarrow> \<exists>s'. append_loop n i s = Inr s' \<and> dl_rep s' (xs @ map (\<lambda>k. Some (i + of_nat k)) [0..<n])"
proof (induction n arbitrary: i s xs)
  case (Suc n)
  from dl.add [OF Suc.prems, of "Some i"] obtain s1 where
    s1: "list_add (snd s) (fst s) (Some i) = Inr s1" "dl_rep s1 (xs @ [Some i])" by (auto simp: dl_add_def)
  have "map (\<lambda>k. Some (i + of_nat k)) [0..<Suc n] = Some i # map (\<lambda>k. Some (i + 1 + of_nat k)) [0..<n]"
    by (simp add: upt_conv_Cons map_Suc_upt [symmetric] add.assoc del: upt_Suc)
  with Suc.IH [OF s1(2), of "i + 1"] s1(1) show ?case by simp
qed simp

lemma check_up_ints: "check_up (map (\<lambda>k. Some (of_nat k)) [i..<i + n]) (of_nat i) = Inr (of_nat (i + n))"
proof (induction n arbitrary: i)
  case (Suc n)
  have "[i..<i + Suc n] = i # [Suc i..<Suc i + n]" by (simp add: upt_conv_Cons del: upt_Suc)
  then show ?case using Suc.IH [of "Suc i"] by (simp add: add.commute del: upt_Suc)
qed simp

lemma check_down_ints: "check_down (rev (ints n)) (of_nat n) = Inr 0"
  by (induction n) (simp_all add: ints_def)

lemma test_list_append_frees: "test_list_append h = Some (Inr (drop 1 (ints 256) @ take 1 (ints 256)))"
proof -
  obtain l0 h0 where e: "list_empty h = (l0, h0)" by (cases "list_empty h")
  have "dl_rep (l0, h0) []" using list_empty_rep [OF e] by (simp add: dl_rep_def)
  from append_loop_rep [OF this, of 256 0] obtain l h1 where
    l: "append_loop 256 0 (l0, h0) = Inr (l, h1)" "list_rep h1 l (map Some (ints 256))"
    by (auto simp: dl_rep_def ints_def comp_def)
  have r: "lforeach h1 l = Inr (map Some (ints 256))" "lforeachrev h1 l = Some (Inr (rev (ints 256)))"
    using lforeach_rep [OF l(2)] lforeachrev_rep [OF l(2)] by simp_all
  have u: "check_up (map Some (ints 256)) 0 = Inr 256"
    using check_up_ints [of 0 256] by (simp add: ints_def comp_def)
  have d: "check_down (rev (ints 256)) 256 = Inr 0" using check_down_ints [of 256] by simp
  from list_test_frees [OF l(2)] obtain h2 where "list_free h1 l = Some (Inr (drop 1 (ints 256) @ take 1 (ints 256), h2))"
    by blast
  with e l(1) r u d show ?thesis by (simp add: test_list_append_def)
qed

section \<open>Hash tables\<close>

text \<open>\<open>hash_int\<close> hashes the four bytes of an integer, lowest first (x86).\<close>

definition compare_int :: "32 word \<Rightarrow> 32 word \<Rightarrow> bool" where
  "compare_int a b \<longleftrightarrow> a = b"

definition hash_int :: "32 word \<Rightarrow> 64 word" where
  "hash_int a = hashpjw (map (\<lambda>i. char_of (uint (drop_bit (8 * i) a))) [0..<4])"

definition test_hash_empty :: "(string \<Rightarrow> 64 word) \<Rightarrow> (string \<Rightarrow> string \<Rightarrow> bool) \<Rightarrow> (string \<times> string) list" where
  "test_hash_empty no_hash no_comp = hash_free (hash_new 256 no_hash no_comp)"

fun smoke_loop :: "nat \<Rightarrow> 32 word \<Rightarrow> (32 word, 32 word) hash_table \<Rightarrow> (32 word, 32 word) hash_table result" where
  "smoke_loop 0 i h = Inr h"
| "smoke_loop (Suc n) i h =
     bindr (hash_insert h i i) (\<lambda>h.
     bindr (hash_lookup h i) (\<lambda>v. case v of
         None \<Rightarrow> Inl (Undefined ''the pointer -1'')
       | Some v \<Rightarrow> if v = i then smoke_loop n (i + 1) h else Inl Abort))"

definition test_hash_smoke :: "(32 word \<times> 32 word) list result" where
  "test_hash_smoke =
     bindr (smoke_loop 256 0 (hash_new 2 hash_int compare_int)) (\<lambda>h.
     if list_all (\<lambda>(k, v). k = v) (hforeach h) then Inr (hash_free h) else Inl Abort)"

lemma hashpjw_step_zero: "\<not> bit (hashpjw_step h (CHR 0x00)) 0"
  by (simp add: hashpjw_step_def Let_def bit_xor_iff bit_drop_bit_eq bit_and_iff bit_push_bit_iff
      bit_top_nibble)

lemma small_int_bucket:
  assumes "i < 256"
  shows "\<not> bit (hash_int (of_nat i)) 0"
proof -
  have u: "uint (of_nat i :: 32 word) = int i" using assms by (simp add: unsigned_of_nat take_bit_eq_mod)
  then have "uint (drop_bit 24 (of_nat i :: 32 word)) = 0"
    by (simp only: unsigned_drop_bit_eq u) (use assms in \<open>simp add: drop_bit_eq_div take_bit_eq_mod\<close>)
  then have "char_of (uint (drop_bit 24 (of_nat i :: 32 word))) = CHR 0x00" by (simp add: char_of_def)
  moreover have "[0..<4] = [0..<3] @ [3 :: nat]" by (simp add: upt_conv_Cons)
  ultimately show ?thesis using hashpjw_step_zero by (simp add: hash_int_def hashpjw_def)
qed

lemma hash_insert_fields:
  "hash_insert h k v = Inr h' \<Longrightarrow> ht_hash h' = ht_hash h \<and> ht_num_buckets h' = ht_num_buckets h"
  by (auto simp: hash_insert_def split: if_splits)

lemma range_Suc: "(\<lambda>j. i + of_nat j) ` {..<Suc n} = insert i ((\<lambda>j. i + 1 + of_nat j) ` {..<n :: nat})" for i :: "'a :: semiring_1"
  by (simp add: lessThan_Suc_eq_insert_0 image_image add.assoc)

lemma smoke_loop_map:
  "ht_inv h \<Longrightarrow> \<exists>h'. smoke_loop n i h = Inr h' \<and> ht_inv h' \<and> ht_hash h' = ht_hash h \<and> ht_num_buckets h' = ht_num_buckets h
     \<and> ht_map h' = (\<lambda>k. if k \<in> (\<lambda>j. i + of_nat j) ` {..<n} then Some k else ht_map h k)"
proof (induction n arbitrary: i h)
  case (Suc n)
  from ht.insert [OF Suc.prems, of i i] obtain h1 where
    h1: "hash_insert h i i = Inr h1" "ht_inv h1" "ht_map h1 = (ht_map h)(i \<mapsto> i)" by blast
  moreover have "hash_lookup h1 i = Inr (Some i)" using ht.lookup [OF h1(2)] h1(3) by simp
  ultimately show ?case
    using Suc.IH [OF h1(2), of "i + 1"] hash_insert_fields [OF h1(1)] unfolding range_Suc by (auto simp: fun_eq_iff)
qed simp

text \<open>All keys of the test are in bucket 0, which the loop visits (twice): the last bucket, which it misses, is empty.\<close>

lemma test_hash_smoke_frees:
  "\<exists>h. smoke_loop 256 0 (hash_new 2 hash_int compare_int) = Inr h \<and> ht_buckets h 1 = []
     \<and> test_hash_smoke = Inr (hash_free h) \<and> distinct (map fst (hash_free h))
     \<and> set (hash_free h) = (\<lambda>i. (i, i)) ` set (ints 256)"
proof -
  have n: "hash_new 2 hash_int compare_int = hash_new 2 hash_int (=)"
    by (simp add: hash_new_def compare_int_def fun_eq_iff)
  have new_fields: "ht_hash (hash_new m g c) = g" "ht_num_buckets (hash_new m g c) = m"
    for m and g :: "32 word \<Rightarrow> 64 word" and c by (simp_all add: hash_new_def)
  have inv: "ht_inv (hash_new 2 hash_int (=) :: (32 word, 32 word) hash_table)" by (simp add: hash_new_inv)
  from smoke_loop_map [OF inv, of 256 0] obtain h where
    h: "smoke_loop 256 0 (hash_new 2 hash_int compare_int) = Inr h" "ht_inv h" "ht_hash h = hash_int" "ht_num_buckets h = 2"
      "ht_map h = (\<lambda>k. if k \<in> of_nat ` {..<256} then Some k else ht_map (hash_new 2 hash_int (=) :: (32 word, 32 word) hash_table) k)"
    by (auto simp: n new_fields)
  have own: "(k, v) \<in> set (ht_buckets h j) \<longleftrightarrow> k \<in> of_nat ` {..<256} \<and> v = k \<and> ht_index h k = j" for k v j
    using ht_map_bucket [OF h(2), of k v j] by (auto simp: h(5) hash_new_map split: if_splits)
  have "even (uint (hash_int (of_nat i)))" if "i < 256" for i
  proof -
    have "\<not> bit (uint (hash_int (of_nat i))) 0" using small_int_bucket [OF that] by (simp only: bit_uint_iff) blast
    then show ?thesis by (simp add: bit_0)
  qed
  then have "ht_index h k = 0" if "k \<in> of_nat ` {..<256}" for k
    using that by (auto simp: ht_index_def h(3,4) even_iff_mod_2_eq_zero)
  then have "\<forall>k v. (k, v) \<notin> set (ht_buckets h 1)" using own by fastforce
  then have "ht_buckets h 1 = []" by (metis list.set_intros(1) neq_Nil_conv surj_pair)
  moreover have "list_all (\<lambda>(k, v). k = v) (hforeach h)"
    using own by (auto simp: list_all_iff hforeach_def)
  moreover have "distinct (map fst (hash_free h))" "set (hash_free h) = (\<lambda>i. (i, i)) ` set (ints 256)"
    using hash_free_once [OF h(2)] by (auto simp: h(5) hash_new_map ints_def atLeast0LessThan split: if_splits)
  ultimately show ?thesis using h(1) by (simp add: test_hash_smoke_def)
qed

section \<open>Vectors\<close>

text \<open>The test that \<open>main\<close> does not call.\<close>

definition push_check :: "'a ptrvec \<Rightarrow> 'a \<Rightarrow> nat \<Rightarrow> 'a ptrvec result" where
  "push_check p x i = bindr (ptrvec_push p x) (\<lambda>(j, p). if j = i then Inr p else Inl Abort)"

definition test_ptrvec_smoke :: "bool \<Rightarrow> 32 word option list result" where
  "test_ptrvec_smoke calloc0 =
     bindr (ptrvec_wcap calloc0 0) (\<lambda>p.
     bindr (push_check p 0 0) (\<lambda>p.
     bindr (push_check p 1 1) (\<lambda>p.
     bindr (push_check p 2 2) (\<lambda>p.
     bindr (push_check p 3 3) (\<lambda>p. Inr (ptrvec_free p))))))"

lemma test_ptrvec_smoke_fails:
  "test_ptrvec_smoke calloc0 = Inl (if calloc0 then Undefined ''write outside the vector'' else Abort)"
proof (cases calloc0)
  case True
  then obtain v :: "32 word ptrvec" where v: "ptrvec_wcap calloc0 0 = Inr v" by (auto simp: ptrvec_wcap_def)
  with True ptrvec_empty_capacity [OF v] show ?thesis by (simp add: test_ptrvec_smoke_def push_check_def)
qed (simp add: test_ptrvec_smoke_def ptrvec_wcap_def)

section \<open>The program\<close>

text \<open>\<open>main\<close>: what each test hands to the destructors.\<close>

definition test_main ::
  "(string \<Rightarrow> 64 word) \<Rightarrow> (string \<Rightarrow> string \<Rightarrow> bool) \<Rightarrow> 32 word heap \<Rightarrow> 32 word \<Rightarrow>
   (32 word list \<times> 32 word list \<times> (string \<times> string) list \<times> (32 word \<times> 32 word) list) result option" where
  "test_main no_hash no_comp h x =
     thenr (test_list_empty h x) (\<lambda>f1.
     thenr (test_list_append h) (\<lambda>f2.
     thenr (Some (Inr (test_hash_empty no_hash no_comp))) (\<lambda>f3.
     thenr (Some test_hash_smoke) (\<lambda>f4. Some (Inr (f1, f2, f3, f4))))))"

text \<open>C39. The unit tests end with no assertion violated, and the destructors get every cell once. But they do not show
  what they are meant to: the 256 keys of the hash table test are all in the first of its two buckets, so it
  is not noticed that \<open>HFOREACH\<close> misses the last one; and the test of the vectors, which main leaves out,
  writes outside the vector (or the allocation of no bytes has ended it).\<close>

theorem unit_tests:
  "(\<exists>pairs. test_main no_hash no_comp h x = Some (Inr ([x], drop 1 (ints 256) @ take 1 (ints 256), [], pairs))
      \<and> distinct (map fst pairs) \<and> set pairs = (\<lambda>i. (i, i)) ` set (ints 256))
   \<and> (\<exists>t. smoke_loop 256 0 (hash_new 2 hash_int compare_int) = Inr t \<and> ht_buckets t 1 = [])
   \<and> test_ptrvec_smoke calloc0 = Inl (if calloc0 then Undefined ''write outside the vector'' else Abort)"
proof -
  have e: "test_hash_empty no_hash no_comp = []"
    by (simp add: test_hash_empty_def hash_free_def hash_new_def)
  from test_hash_smoke_frees obtain t where t: "smoke_loop 256 0 (hash_new 2 hash_int compare_int) = Inr t"
    "ht_buckets t 1 = []" "test_hash_smoke = Inr (hash_free t)" "distinct (map fst (hash_free t))"
    "set (hash_free t) = (\<lambda>i. (i, i)) ` set (ints 256)" by blast
  have "test_main no_hash no_comp h x = Some (Inr ([x], drop 1 (ints 256) @ take 1 (ints 256), [], hash_free t))"
    by (simp add: test_main_def test_list_empty_frees test_list_append_frees e t(3))
  with t test_ptrvec_smoke_fails [of calloc0] show ?thesis by blast
qed

end
