(* ===== verification/ScanLines.thy ===== *)
theory ScanLines
  imports Scanning
begin

text \<open>
  Two ways to compute the tokens of a text faster, for the tests: with fewer rules, chosen by the first character, and
  line by line. Both are proved to give the tokens of \<open>scan\<close>.
\<close>

section \<open>Scanning by the first character\<close>

text \<open>For evaluation: a blank is skipped, before a letter only the words and names matter, elsewhere only the rest.\<close>

definition word_rules :: "(pat \<times> action) list" where
  "word_rules = map (\<lambda>(w, t). (lit w, \<lambda>_. Some t)) reserved"

definition sign_rules :: "(pat \<times> action) list" where
  "sign_rules = map (\<lambda>(w, t). (lit w, \<lambda>_. Some t)) operators"

definition blank :: "char \<Rightarrow> bool" where
  "blank c \<longleftrightarrow> c = CHR '' '' \<or> c = CHR 0x0A \<or> c = CHR 0x09"

definition rules_at :: "char \<Rightarrow> (pat \<times> action) list" where
  "rules_at c = (if letter c then word_rules @ [(name_pat, \<lambda>w. Some (T_ID w)), (dot, \<lambda>w. Some (char_token (hd w)))]
     else take 3 skips @ sign_rules @ [(number, \<lambda>w. Some (T_NUM w)), (dot, \<lambda>w. Some (char_token (hd w)))])"

definition pick_at :: "string \<Rightarrow> (nat \<times> action) option" where
  "pick_at s = (case s of [] \<Rightarrow> None
   | c # s' \<Rightarrow> if blank c then Some (1, \<lambda>w. None) else pick (rules_at c) s)"

lemma rules_parts: "rules = take 3 skips @ [skips ! 3] @ word_rules @ sign_rules @
    [(name_pat, \<lambda>w. Some (T_ID w)), (number, \<lambda>w. Some (T_NUM w)), (dot, \<lambda>w. Some (char_token (hd w)))]"
  by (simp add: rules_def word_rules_def sign_rules_def skips_def)

definition deaf :: "char \<Rightarrow> (pat \<times> action) list \<Rightarrow> bool" where
  "deaf c rs \<longleftrightarrow> list_all (\<lambda>(p, a). \<not> nullable p \<and> after c p = Fail) rs"

lemma longest_Fail [simp]: "longest Fail s = None"
  by (cases s) auto

lemma pick_deaf: "deaf c rs \<Longrightarrow> pick (rs @ rs') (c # s) = pick rs' (c # s)"
  by (induction rs) (auto simp: deaf_def)

lemma pick_deaf_behind: "deaf c rs \<Longrightarrow> pick (rs1 @ rs @ rs') (c # s) = pick (rs1 @ rs') (c # s)"
  by (induction rs1) (auto simp: pick_deaf split: option.splits)

lemma longest_Eps [simp]: "longest Eps s = Some 0"
  by (cases s; cases "tl s") auto

lemma deaf_skips: "c \<notin> set ''{(/'' \<Longrightarrow> deaf c (take 3 skips)"
  by (auto simp: deaf_def skips_def)

lemma deaf_lits: "list_all (\<lambda>(w, t). w \<noteq> [] \<and> hd w \<noteq> c) ks \<Longrightarrow> deaf c (map (\<lambda>(w, t). (lit w, \<lambda>_. Some t)) ks)"
proof (induction ks)
  case (Cons k ks)
  obtain w t where k: "k = (w, t)" by fastforce
  with Cons obtain d w' where "w = d # w'" "d \<noteq> c" by (cases w) auto
  with Cons k show ?case by (simp add: deaf_def)
qed (simp add: deaf_def)

lemma deaf_words: "\<not> letter c \<Longrightarrow> deaf c word_rules"
  unfolding word_rules_def using reserved_words by (fastforce intro!: deaf_lits simp: list_all_iff)

lemma deaf_signs: "c \<notin> set '':<>.'' \<Longrightarrow> deaf c sign_rules"
  unfolding sign_rules_def by (rule deaf_lits) (auto simp: operators_def)

lemma deaf_name: "\<not> letter c \<Longrightarrow> deaf c [(name_pat, a)]"
  by (simp add: deaf_def name_pat_def)

lemma deaf_number: "\<not> digit c \<Longrightarrow> deaf c [(number, a)]"
  by (simp add: deaf_def number_def some_of_def)

lemma deaf_blank: "\<not> blank c \<Longrightarrow> deaf c [skips ! 3]"
  by (simp add: deaf_def skips_def blank_def)

lemma pick_blank: "blank c \<Longrightarrow> pick (skips ! 3 # [(dot, a)]) (c # s) = Some (1, \<lambda>w. None)"
  by (auto simp: skips_def blank_def dot_def)

lemma blank_not: "blank c \<Longrightarrow> \<not> letter c \<and> \<not> digit c \<and> c \<notin> set ''{(/'' \<and> c \<notin> set '':<>.''"
  by (auto simp: blank_def letter_def digit_def)

lemma letter_not: "letter c \<Longrightarrow> \<not> digit c \<and> c \<notin> set ''{(/'' \<and> c \<notin> set '':<>.''"
  by (auto simp: letter_def digit_def less_eq_char_def)

lemma pick_rules_at: "pick rules s = pick_at s"
proof (cases s)
  case (Cons c s')
  show ?thesis
  proof (cases "blank c")
    case True
    note n = blank_not [OF True]
    have "pick rules s = pick (skips ! 3 # [(dot, \<lambda>w. Some (char_token (hd w)))]) s"
      unfolding Cons rules_parts using n pick_deaf [OF deaf_skips]
        pick_deaf_behind [OF deaf_words, of c "[skips ! 3]"] pick_deaf_behind [OF deaf_signs, of c "[skips ! 3]"]
        pick_deaf_behind [OF deaf_name, of c "[skips ! 3]"] pick_deaf_behind [OF deaf_number, of c "[skips ! 3]"]
      by simp
    with pick_blank [OF True] True show ?thesis by (simp add: Cons pick_at_def rules_at_def)
  next
    case False
    note deaf = pick_deaf_behind [OF deaf_blank [OF False], of "take 3 skips"] pick_deaf [OF deaf_blank [OF False]]
    show ?thesis
    proof (cases "letter c")
      case True
      note n = letter_not [OF True]
      then have "pick rules s = pick (word_rules @ [(name_pat, \<lambda>w. Some (T_ID w)), (dot, \<lambda>w. Some (char_token (hd w)))]) s"
        unfolding Cons rules_parts
        using deaf pick_deaf [OF deaf_skips] pick_deaf_behind [OF deaf_signs, of c word_rules]
          pick_deaf_behind [OF deaf_number, of c "word_rules @ [(name_pat, \<lambda>w. Some (T_ID w))]"] by simp
      with False True show ?thesis by (simp add: Cons pick_at_def rules_at_def)
    next
      case l: False
      then have "pick rules s = pick (take 3 skips @ sign_rules @ [(number, \<lambda>w. Some (T_NUM w)), (dot, \<lambda>w. Some (char_token (hd w)))]) s"
        unfolding Cons rules_parts
        using deaf pick_deaf_behind [OF deaf_words, of c "take 3 skips"]
          pick_deaf_behind [OF deaf_name, of c "take 3 skips @ sign_rules"] by simp
      with False l show ?thesis by (simp add: Cons pick_at_def rules_at_def)
    qed
  qed
qed (simp add: pick_at_def)

text \<open>
  Line by line: \<open>settled\<close> is the longest match in a line if no text behind it can extend it, so that a
  line without an open comment has its tokens whatever follows.
\<close>

fun settled :: "pat \<Rightarrow> string \<Rightarrow> nat option option" where
  "settled p [] = (if p = Fail then Some None else None)"
| "settled p (c # w) = (if p = Fail then Some None else
     map_option (\<lambda>r. case r of Some n \<Rightarrow> Some (Suc n) | None \<Rightarrow> if nullable p then Some 0 else None) (settled (after c p) w))"

lemma settled_longest: "settled p w = Some r \<Longrightarrow> longest p (w @ s) = r \<and> (\<forall>n. r = Some n \<longrightarrow> n \<le> length w)"
proof (induction p w arbitrary: r rule: settled.induct)
  case (2 p c w)
  show ?case
  proof (cases "p = Fail")
    case False
    with 2 show ?thesis by (auto split: option.splits)
  qed (use 2 in simp)
qed (auto split: if_splits)

fun settled_pick :: "(pat \<times> 'a) list \<Rightarrow> string \<Rightarrow> (nat \<times> 'a) option option" where
  "settled_pick [] w = Some None"
| "settled_pick ((p, a) # rs) w = (case settled p w of None \<Rightarrow> None
     | Some None \<Rightarrow> settled_pick rs w
     | Some (Some n) \<Rightarrow> map_option (\<lambda>r. case r of None \<Rightarrow> Some (n, a)
         | Some (m, b) \<Rightarrow> if n < m then Some (m, b) else Some (n, a)) (settled_pick rs w))"

lemma settled_pick_pick: "settled_pick rs w = Some r \<Longrightarrow> pick rs (w @ s) = r \<and> (\<forall>n a. r = Some (n, a) \<longrightarrow> n \<le> length w)"
proof (induction rs arbitrary: r)
  case (Cons x rs)
  obtain p a where x: "x = (p, a)" by fastforce
  from Cons.prems obtain q r' where q: "settled p w = Some q" and r': "settled_pick rs w = Some r'"
    by (auto simp: x split: option.splits)
  note IH = Cons.IH [OF r']
  show ?case
  proof (cases q)
    case None
    with Cons.prems q r' IH settled_longest [OF q, of s] show ?thesis by (simp add: x)
  next
    case (Some n)
    with Cons.prems q r' have "r = (case r' of None \<Rightarrow> Some (n, a) | Some (m, b) \<Rightarrow> if n < m then Some (m, b) else Some (n, a))"
      by (simp add: x)
    with Some IH settled_longest [OF q, of s] show ?thesis by (auto simp: x split: option.splits)
  qed
qed simp

fun line_tokens :: "nat \<Rightarrow> string \<Rightarrow> token list option" where
  "line_tokens k [] = Some []"
| "line_tokens 0 (c # w) = None"
| "line_tokens (Suc k) (c # w) = (if blank c then line_tokens k w else
     (case settled_pick (rules_at c) (c # w) of
        Some (Some (n, a)) \<Rightarrow>
          (case a (take n (c # w)) of
             None \<Rightarrow> line_tokens k (drop n (c # w))
           | Some t \<Rightarrow> if t = TOK_EOF then None else map_option (Cons t) (line_tokens k (drop n (c # w))))
      | _ \<Rightarrow> None))"

lemma line_tokens_of: "line_tokens k w = Some ts \<Longrightarrow> tokens_of (w @ s) = ts @ tokens_of s"
proof (induction k w arbitrary: ts rule: line_tokens.induct)
  case (3 k c w)
  show ?case
  proof (cases "blank c")
    case True
    with 3 show ?thesis by (simp add: tokens_of.simps [of "c # w @ s"] pick_rules_at pick_at_def)
  next
    case False
    with "3.prems" obtain n a where p: "settled_pick (rules_at c) (c # w) = Some (Some (n, a))"
      by (auto split: option.splits prod.splits)
    note n = settled_pick_pick [OF p, of s, simplified]
    then have r: "pick rules (c # w @ s) = Some (n, a)" using False by (simp add: pick_rules_at pick_at_def)
    have t: "take n (c # w @ s) = take n (c # w)" "drop n (c # w @ s) = drop n (c # w) @ s"
      using n take_append [of n "c # w" s] drop_append [of n "c # w" s] by simp_all
    show ?thesis
    proof (cases "a (take n (c # w))")
      case None
      with "3.prems" False p have "line_tokens k (drop n (c # w)) = Some ts" by simp
      from "3.IH"(2) [OF False p refl refl None this] show ?thesis
        using None by (simp add: tokens_of.simps [of "c # w @ s"] r t)
    next
      case (Some t')
      with "3.prems" False p obtain us where u: "t' \<noteq> TOK_EOF" "line_tokens k (drop n (c # w)) = Some us" "ts = t' # us"
        by (auto split: if_splits)
      from "3.IH"(3) [OF False p refl refl Some u(1,2)] show ?thesis
        using Some u by (simp add: tokens_of.simps [of "c # w @ s"] r t)
    qed
  qed
qed auto

text \<open>The tokens of a list of lines; from a line that cannot be read by itself on, as one text.\<close>

definition lines :: "string list \<Rightarrow> string" where
  "lines ls = concat (map (\<lambda>l. l @ nl) ls)"

fun scan_lines :: "string list \<Rightarrow> token list" where
  "scan_lines [] = []"
| "scan_lines (l # ls) = (case line_tokens (Suc (length l)) (l @ nl) of
     Some ts \<Rightarrow> ts @ scan_lines ls
   | None \<Rightarrow> tokens_of (lines (l # ls)))"

lemma scan_lines: "scan (lines ls) = scan_lines ls"
proof (induction ls)
  case (Cons l ls)
  then show ?case using line_tokens_of [of "Suc (length l)" "l @ nl" _ "lines ls"]
    by (auto simp: scan_tokens lines_def split: option.splits)
qed (simp add: scan_tokens lines_def)

lemma tokens_of_code [code]: "tokens_of s = (case pick_at s of None \<Rightarrow> [] | Some (n, act) \<Rightarrow>
     (case act (take n s) of
        None \<Rightarrow> tokens_of (drop n s)
      | Some t \<Rightarrow> if t = TOK_EOF then [] else t # tokens_of (drop n s)))"
  by (simp only: tokens_of.simps [of s] pick_rules_at)

end
