(* ===== verification/Tests.thy ===== *)
theory Tests
  imports Demo Grammar ScanLines
begin

text \<open>
  The tests of the repository (src/dragon/tests) from their text: the dumps of tokens in tests/lexer and of trees in
  tests/parser, and the code or the message for the programs of tests/semantic. A text is the list of its
  lines. A parse tree is given with every text that is parsed; that it is one of the text is part of what is
  checked. \<open>terminal\<close> is what check.sh compares, standard output and standard error in one file.
\<close>

definition tabs :: "nat \<Rightarrow> string \<Rightarrow> string" where
  "tabs n l = replicate n (CHR 0x09) @ l"

definition terminal :: "io list \<Rightarrow> string" where
  "terminal shown = concat (map (\<lambda>w. case w of Stdout s \<Rightarrow> s | Stderr s \<Rightarrow> s) shown)"

definition dumps :: "(io list \<times> acx option) result \<Rightarrow> string list \<Rightarrow> bool" where
  "dumps r expected = (case r of Inr (shown, None) \<Rightarrow> terminal shown = lines expected | _ \<Rightarrow> False)"

definition parsed :: "string list \<Rightarrow> program_tree \<Rightarrow> (ast_program \<Rightarrow> bool) \<Rightarrow> bool" where
  "parsed ls t P \<longleftrightarrow> program_yield t = scan_lines ls \<and> resolved_program t
     \<and> (case program_act t of Inl e \<Rightarrow> False | Inr p \<Rightarrow> P p)"

lemma parsed_derives: "parsed ls t P \<Longrightarrow> \<exists>p. derives (lines ls) p \<and> P p"
  by (auto simp: parsed_def derives_def scan_lines split: sum.splits)

lemma parsed_mono: "parsed ls t P \<Longrightarrow> (\<And>p. P p \<Longrightarrow> Q p) \<Longrightarrow> parsed ls t Q"
  by (auto simp: parsed_def split: sum.splits)

lemma list_all_parsed:
  assumes "list_all Q ts" and "\<And>ls t x. Q (ls, t, x) \<Longrightarrow> parsed ls t (P ls x)"
  shows "list_all (\<lambda>(ls, t, x). \<exists>p. derives (lines ls) p \<and> P ls x p) ts"
  using assms(1) by (rule list.pred_mono_strong) (auto dest!: assms(2) parsed_derives)

section \<open>tests/lexer\<close>

fun tokens_dumped :: "string list \<times> string list \<Rightarrow> bool" where
  "tokens_dumped (ls, expected) \<longleftrightarrow>
     dumps (Inr (dump_tokens (\<lambda>_. 0) (scan_lines ls) @ puts ''-- done dumping tokens --'', None)) expected"

lemma dump_tokens_only:
  "compile_input tc scan parse (lines ls) (or DUMP_TOKENS NO_PARSE)
     = Inr (dump_tokens tc (scan_lines ls) @ puts ''-- done dumping tokens --'', None)"
proof -
  have "has_option (or DUMP_TOKENS NO_PARSE) DUMP_TOKENS" "has_option (or DUMP_TOKENS NO_PARSE) NO_PARSE" by code_simp+
  then show ?thesis by (simp add: compile_input_def scan_lines)
qed

definition lexer_comment :: "string list \<times> string list" where
  "lexer_comment =
    ([''// this ought to be a single-line comment!'', ''{ and this ought to be a'',
      ''  potentially multi-line!'', ''  comment :)'', ''}'', '''', ''{}//'', ''{'', '''', '''', '''', '''',
      ''//'', '''', '''', '''', '''', '''', ''}''],
     [''EOF'', ''-- done dumping tokens --''])"

definition lexer_example :: "string list \<times> string list" where
  "lexer_example =
    ([''program example(input, output);'', ''var x, y: integer;'', ''function gcd(a, b: integer): integer;'',
      ''begin'', ''    if b = 0 then gcd := a'', ''    else gcd := gcd(b, a mod b)'', ''end;'', '''',
      ''begin'', ''    read(x, y);'', ''    write(gcd(x, y))'', ''end.''],
     [''PROGRAM'', ''ID(example)'', ''LPAREN'', ''ID(input)'', ''COMMA'', ''ID(output)'', ''RPAREN'', ''SEMI'',
      ''VAR'', ''ID(x)'', ''COMMA'', ''ID(y)'', ''COLON'', ''INTEGER'', ''SEMI'', ''FUNCTION'', ''ID(gcd)'',
      ''LPAREN'', ''ID(a)'', ''COMMA'', ''ID(b)'', ''COLON'', ''INTEGER'', ''RPAREN'', ''COLON'', ''INTEGER'',
      ''SEMI'', ''TBEGIN'', ''IF'', ''ID(b)'', ''EQ'', ''NUM(0)'', ''THEN'', ''ID(gcd)'', ''ASSIGNOP'',
      ''ID(a)'', ''ELSE'', ''ID(gcd)'', ''ASSIGNOP'', ''ID(gcd)'', ''LPAREN'', ''ID(b)'', ''COMMA'', ''ID(a)'',
      ''MOD'', ''ID(b)'', ''RPAREN'', ''END'', ''SEMI'', ''TBEGIN'', ''ID(read)'', ''LPAREN'', ''ID(x)'',
      ''COMMA'', ''ID(y)'', ''RPAREN'', ''SEMI'', ''ID(write)'', ''LPAREN'', ''ID(gcd)'', ''LPAREN'',
      ''ID(x)'', ''COMMA'', ''ID(y)'', ''RPAREN'', ''RPAREN'', ''END'', ''DOT'', ''EOF'',
      ''-- done dumping tokens --''])"

definition lexer_keywords :: "string list \<times> string list" where
  "lexer_keywords =
    ([''div'', ''mod'', ''and'', ''or'', ''not'', ''function'', ''procedure'', ''begin'', ''end'', ''integer'',
      ''real'', ''array'', ''of'', ''program'', ''do'', ''else'', ''if'', ''then'', ''var'', ''while boop'',
      ''boolean'', ''string'', ''char''],
     [''DIV'', ''MOD'', ''AND'', ''OR'', ''NOT'', ''FUNCTION'', ''PROCEDURE'', ''TBEGIN'', ''END'',
      ''INTEGER'', ''REAL'', ''ARRAY'', ''OF'', ''PROGRAM'', ''DO'', ''ELSE'', ''IF'', ''THEN'', ''VAR'',
      ''WHILE'', ''ID(boop)'', ''BOOLEAN'', ''STRING'', ''CHAR'', ''EOF'', ''-- done dumping tokens --''])"

definition lexer_multiple_id :: "string list \<times> string list" where
  "lexer_multiple_id =
    ([''boop'', ''boop'', ''boop boop boop      boop'', ''hi''],
     [''ID(boop)'', ''ID(boop)'', ''ID(boop)'', ''ID(boop)'', ''ID(boop)'', ''ID(boop)'', ''ID(hi)'', ''EOF'',
      ''-- done dumping tokens --''])"

definition lexer_numbers :: "string list \<times> string list" where
  "lexer_numbers =
    ([''0'', ''1'', ''012'', ''0123.4'', ''0.1234'', ''123e502134'', ''123e1'', ''123e+4'', ''123e-5'',
      ''123E-4'', ''125E+6'', ''0.1234e4'', ''0.1231E+6'', ''1234.134E-5''],
     [''NUM(0)'', ''NUM(1)'', ''NUM(012)'', ''NUM(0123.4)'', ''NUM(0.1234)'', ''NUM(123e502134)'',
      ''NUM(123e1)'', ''NUM(123e+4)'', ''NUM(123e-5)'', ''NUM(123E-4)'', ''NUM(125E+6)'', ''NUM(0.1234e4)'',
      ''NUM(0.1231E+6)'', ''NUM(1234.134E-5)'', ''EOF'', ''-- done dumping tokens --''])"

definition lexer_operators :: "string list \<times> string list" where
  "lexer_operators =
    ([''= <> <= > >= > = < = + - * /''],
     [''EQ'', ''NEQ'', ''LE'', ''GT'', ''GE'', ''GT'', ''EQ'', ''LT'', ''EQ'', ''PLUS'', ''MINUS'', ''STAR'',
      ''SLASH'', ''EOF'', ''-- done dumping tokens --''])"

definition lexer_single_id :: "string list \<times> string list" where
  "lexer_single_id =
    ([''boop''],
     [''ID(boop)'', ''EOF'', ''-- done dumping tokens --''])"

definition lexer_structural :: "string list \<times> string list" where
  "lexer_structural =
    ([''( ) [ ] , .. . ... := : ;''],
     [''LPAREN'', ''RPAREN'', ''LBRACKET'', ''RBRACKET'', ''COMMA'', ''DOTDOT'', ''DOT'', ''DOTDOT'', ''DOT'',
      ''ASSIGNOP'', ''COLON'', ''SEMI'', ''EOF'', ''-- done dumping tokens --''])"

definition lexer_tests :: "(string list \<times> string list) list" where
  "lexer_tests = [lexer_comment, lexer_example, lexer_keywords, lexer_multiple_id, lexer_numbers, lexer_operators,
      lexer_single_id, lexer_structural]"

lemma lexer_tests_checked: "list_all tokens_dumped lexer_tests"
  by code_simp

section \<open>tests/parser\<close>

fun tree_dumped :: "string list \<times> program_tree \<times> string list \<Rightarrow> bool" where
  "tree_dumped (ls, t, expected) = parsed ls t (\<lambda>p.
     dumps (compile_input (\<lambda>_. 0) (\<lambda>_. []) (\<lambda>_. (0, Some p)) [] (or DUMP_AST NO_ANALYSIS)) expected)"

lemma dump_tree_only:
  "compile_input tc lx (\<lambda>_. (0, Some p)) s (or DUMP_AST NO_ANALYSIS)
     = compile_input tc lx' (\<lambda>_. (0, Some p)) s' (or DUMP_AST NO_ANALYSIS)"
proof -
  have "\<not> has_option (or DUMP_AST NO_ANALYSIS) DUMP_TOKENS" by code_simp
  then show ?thesis by (simp add: compile_input_def)
qed

definition parser_array_args :: "string list \<times> program_tree \<times> string list" where
  "parser_array_args =
    ([''program array_assign();'', ''var a, b: array [12..4] of integer;'', ''begin'', '''', ''end.''],
     PROGRAM ''array_assign'' NO_IDS NO_TYPES (DECLS NO_DECLS (ID_SNOC (ID1 ''a'') ''b'') (ARRAY_OF ''12''
      ''4'' S_INTEGER)) NO_SUBPROGRAMS NO_STATEMENTS,
     [''PROGRAM `array_assign` WITH ARGS:'', ''AND VARIABLES:'', ''  DECLARATION WITH TYPE:'',
      ''    ARRAY [`12` .. `4`] OF:'', ''      INTEGER'', ''  OF NAMES:'', ''    `a`'', ''    `b`'',
      ''AND SUBPROGRAMS:'', ''DOES:'', ''-- done dumping ast --''])"

definition parser_array_assign :: "string list \<times> program_tree \<times> string list" where
  "parser_array_assign =
    ([''program array_assign();'', ''var a: array [12..1] of integer;'', ''begin'', ''    a[1] := 42'',
      ''end.''],
     PROGRAM ''array_assign'' NO_IDS NO_TYPES (DECLS NO_DECLS (ID1 ''a'') (ARRAY_OF ''12'' ''1'' S_INTEGER))
      NO_SUBPROGRAMS (STATEMENTS (LAST (ASSIGN (INDEX (PATH_ID ''a'') (SIMPLE (A_TERM (FACTOR (NUM ''1'')))))
      (SIMPLE (A_TERM (FACTOR (NUM ''42''))))))),
     [''PROGRAM `array_assign` WITH ARGS:'', ''AND VARIABLES:'', ''  DECLARATION WITH TYPE:'',
      ''    ARRAY [`12` .. `1`] OF:'', ''      INTEGER'', ''  OF NAMES:'', ''    `a`'', ''AND SUBPROGRAMS:'',
      ''DOES:'', ''  ASSIGN'', ''    INDEX `a` WITH:'', ''      LIT `1`'', ''  TO'', ''    LIT `42`'',
      ''-- done dumping ast --''])"

definition parser_call_empty_exprs :: "string list \<times> program_tree \<times> string list" where
  "parser_call_empty_exprs =
    ([''program example(input, output);'', ''var x: char;'', ''begin'', ''    x := getchar()'', ''end.''],
     PROGRAM ''example'' (IDS (ID_SNOC (ID1 ''input'') ''output'')) NO_TYPES (DECLS NO_DECLS (ID1 ''x'')
      (STANDARD S_CHAR)) NO_SUBPROGRAMS (STATEMENTS (LAST (ASSIGN (PATH (PATH_ID ''x'')) (SIMPLE (A_TERM (FACTOR
      (APP (PATH_ID ''getchar'') NO_EXPRS))))))),
     [''PROGRAM `example` WITH ARGS:'', ''  `input`'', ''  `output`'', ''AND VARIABLES:'',
      ''  DECLARATION WITH TYPE:'', ''    CHAR'', ''  OF NAMES:'', ''    `x`'', ''AND SUBPROGRAMS:'',
      ''DOES:'', ''  ASSIGN'', ''    x'', ''  TO'', ''    APPLY `getchar`'', ''    TO ARGS:'',
      ''-- done dumping ast --''])"

definition parser_empty :: "string list \<times> program_tree \<times> string list" where
  "parser_empty =
    ([''program empty(); begin end.''],
     PROGRAM ''empty'' NO_IDS NO_TYPES NO_DECLS NO_SUBPROGRAMS NO_STATEMENTS,
     [''PROGRAM `empty` WITH ARGS:'', ''AND VARIABLES:'', ''AND SUBPROGRAMS:'', ''DOES:'',
      ''-- done dumping ast --''])"

definition parser_example :: "string list \<times> program_tree \<times> string list" where
  "parser_example =
    ([''program example(input, output);'', ''var x, y: integer;'', '''',
      ''function gcd(a, b: integer): integer;'', ''begin'', ''    if b = 0 then gcd := a'',
      ''    else gcd := gcd(b, a mod b)'', ''end;'', '''', ''procedure nonlocal_varacc;'', ''begin'',
      ''    x := 4'', ''end;'', '''', ''begin'', ''    read(x, y);'', ''    writeln(gcd(x, y));'',
      ''    nonlocal_varacc;'', ''    writeln(x)'', ''end.''],
     PROGRAM ''example'' (IDS (ID_SNOC (ID1 ''input'') ''output'')) NO_TYPES (DECLS NO_DECLS (ID_SNOC (ID1
      ''x'') ''y'') (STANDARD S_INTEGER)) (SUBPROGRAMS (SUBPROGRAMS NO_SUBPROGRAMS (FUN ''gcd'' (ARGS (PARAM1
      (ID_SNOC (ID1 ''a'') ''b'') (STANDARD S_INTEGER))) S_INTEGER NO_SUBPROGRAMS NO_TYPES NO_DECLS (STATEMENTS
      (LAST (IF_THEN_ELSE (REL (A_TERM (FACTOR (LVALUE (PATH (PATH_ID ''b''))))) R_EQ (A_TERM (FACTOR (NUM
      ''0'')))) (ASSIGN (PATH (PATH_ID ''gcd'')) (SIMPLE (A_TERM (FACTOR (LVALUE (PATH (PATH_ID ''a'')))))))
      (ASSIGN (PATH (PATH_ID ''gcd'')) (SIMPLE (A_TERM (FACTOR (APP (PATH_ID ''gcd'') (MORE (ONE (SIMPLE (A_TERM
      (FACTOR (LVALUE (PATH (PATH_ID ''b''))))))) (SIMPLE (A_TERM (MUL (FACTOR (LVALUE (PATH (PATH_ID ''a''))))
      M_MOD (LVALUE (PATH (PATH_ID ''b''))))))))))))))))) (PROCEDURE ''nonlocal_varacc'' NO_ARGS NO_SUBPROGRAMS
      NO_TYPES NO_DECLS (STATEMENTS (LAST (ASSIGN (PATH (PATH_ID ''x'')) (SIMPLE (A_TERM (FACTOR (NUM
      ''4''))))))))) (STATEMENTS (AND_THEN (AND_THEN (AND_THEN (LAST (PROC_STATEMENT (PROC_ARGS (PATH_ID
      ''read'') (MORE (ONE (SIMPLE (A_TERM (FACTOR (LVALUE (PATH (PATH_ID ''x''))))))) (SIMPLE (A_TERM (FACTOR
      (LVALUE (PATH (PATH_ID ''y'')))))))))) (PROC_STATEMENT (PROC_ARGS (PATH_ID ''writeln'') (ONE (SIMPLE
      (A_TERM (FACTOR (APP (PATH_ID ''gcd'') (MORE (ONE (SIMPLE (A_TERM (FACTOR (LVALUE (PATH (PATH_ID
      ''x''))))))) (SIMPLE (A_TERM (FACTOR (LVALUE (PATH (PATH_ID ''y''))))))))))))))) (PROC_STATEMENT (PROC
      (PATH_ID ''nonlocal_varacc'')))) (PROC_STATEMENT (PROC_ARGS (PATH_ID ''writeln'') (ONE (SIMPLE (A_TERM
      (FACTOR (LVALUE (PATH (PATH_ID ''x''))))))))))),
     [''PROGRAM `example` WITH ARGS:'', ''  `input`'', ''  `output`'', ''AND VARIABLES:'',
      ''  DECLARATION WITH TYPE:'', ''    INTEGER'', ''  OF NAMES:'', ''    `x`'', ''    `y`'',
      ''AND SUBPROGRAMS:'', ''  FUNCTION WITH ARGUMENTS:'', ''    DECLARATION WITH TYPE:'', ''      INTEGER'',
      ''    OF NAMES:'', ''      `a`'', ''      `b`'', ''  RETURNING:'', ''    INTEGER'',
      ''  WITH SUBPROGRAMS:'', ''  AND VARIABLES'', ''  DOES:'', ''    IF FOLLOWING IS TRUE:'',
      ''      BINOP EQ'', ''        LEFT:'', ''          b'', ''        RIGHT:'', ''          LIT `0`'',
      ''    THEN:'', ''      ASSIGN'', ''        gcd'', ''      TO'', ''        a'', ''    OTHERWISE:'',
      ''      ASSIGN'', ''        gcd'', ''      TO'', ''        APPLY `gcd`'', ''        TO ARGS:'',
      ''          b'', ''          BINOP MOD'', ''            LEFT:'', ''              a'',
      ''            RIGHT:'', ''              b'', ''  PROCEDURE WITH ARGUMENTS:'', ''  WITH SUBPROGRAMS:'',
      ''  AND VARIABLES'', ''  DOES:'', ''    ASSIGN'', ''      x'', ''    TO'', ''      LIT `4`'', ''DOES:'',
      ''  APPLY `read` WITH:'', ''    x'', ''    y'', ''  APPLY `writeln` WITH:'', ''    APPLY `gcd`'',
      ''    TO ARGS:'', ''      x'', ''      y'', ''  APPLY `nonlocal_varacc`'', ''  APPLY `writeln` WITH:'',
      ''    x'', ''-- done dumping ast --''])"

definition parser_for :: "string list \<times> program_tree \<times> string list" where
  "parser_for =
    ([''program for_test();'', ''begin'', ''    for i := 0 to 10 do'', ''        write(i)'', ''end.''],
     PROGRAM ''for_test'' NO_IDS NO_TYPES NO_DECLS NO_SUBPROGRAMS (STATEMENTS (LAST (FOR_TO ''i'' (SIMPLE
      (A_TERM (FACTOR (NUM ''0'')))) (SIMPLE (A_TERM (FACTOR (NUM ''10'')))) (PROC_STATEMENT (PROC_ARGS (PATH_ID
      ''write'') (ONE (SIMPLE (A_TERM (FACTOR (LVALUE (PATH (PATH_ID ''i'')))))))))))),
     [''PROGRAM `for_test` WITH ARGS:'', ''AND VARIABLES:'', ''AND SUBPROGRAMS:'', ''DOES:'',
      ''  FOR `i` STARTING AT:'', ''    LIT `0`'', ''  AND GOING TO:'', ''    LIT `10`'', ''  DO:'',
      ''    APPLY `write` WITH:'', ''      i'', ''-- done dumping ast --''])"

definition parser_nested :: "string list \<times> program_tree \<times> string list" where
  "parser_nested =
    ([''program example(input, output);'', ''var x, y: integer;'', ''function gcd(a, b: integer): integer;'',
      ''    function md(a, b: integer): integer;'', ''    begin'', ''        md := a mod b;'', ''        foo'',
      ''    end;'', ''begin'', ''    if b = 0 then gcd := a'', ''    else gcd := gcd(b, md(a, b))'', ''end;'',
      '''', ''begin'', ''    read(x, y);'', ''    write(gcd(x, y))'', ''end.''],
     PROGRAM ''example'' (IDS (ID_SNOC (ID1 ''input'') ''output'')) NO_TYPES (DECLS NO_DECLS (ID_SNOC (ID1
      ''x'') ''y'') (STANDARD S_INTEGER)) (SUBPROGRAMS NO_SUBPROGRAMS (FUN ''gcd'' (ARGS (PARAM1 (ID_SNOC (ID1
      ''a'') ''b'') (STANDARD S_INTEGER))) S_INTEGER (SUBPROGRAMS NO_SUBPROGRAMS (FUN ''md'' (ARGS (PARAM1
      (ID_SNOC (ID1 ''a'') ''b'') (STANDARD S_INTEGER))) S_INTEGER NO_SUBPROGRAMS NO_TYPES NO_DECLS (STATEMENTS
      (AND_THEN (LAST (ASSIGN (PATH (PATH_ID ''md'')) (SIMPLE (A_TERM (MUL (FACTOR (LVALUE (PATH (PATH_ID
      ''a'')))) M_MOD (LVALUE (PATH (PATH_ID ''b'')))))))) (PROC_STATEMENT (PROC (PATH_ID ''foo'')))))))
      NO_TYPES NO_DECLS (STATEMENTS (LAST (IF_THEN_ELSE (REL (A_TERM (FACTOR (LVALUE (PATH (PATH_ID ''b'')))))
      R_EQ (A_TERM (FACTOR (NUM ''0'')))) (ASSIGN (PATH (PATH_ID ''gcd'')) (SIMPLE (A_TERM (FACTOR (LVALUE (PATH
      (PATH_ID ''a''))))))) (ASSIGN (PATH (PATH_ID ''gcd'')) (SIMPLE (A_TERM (FACTOR (APP (PATH_ID ''gcd'')
      (MORE (ONE (SIMPLE (A_TERM (FACTOR (LVALUE (PATH (PATH_ID ''b''))))))) (SIMPLE (A_TERM (FACTOR (APP
      (PATH_ID ''md'') (MORE (ONE (SIMPLE (A_TERM (FACTOR (LVALUE (PATH (PATH_ID ''a''))))))) (SIMPLE (A_TERM
      (FACTOR (LVALUE (PATH (PATH_ID ''b'')))))))))))))))))))))) (STATEMENTS (AND_THEN (LAST (PROC_STATEMENT
      (PROC_ARGS (PATH_ID ''read'') (MORE (ONE (SIMPLE (A_TERM (FACTOR (LVALUE (PATH (PATH_ID ''x'')))))))
      (SIMPLE (A_TERM (FACTOR (LVALUE (PATH (PATH_ID ''y'')))))))))) (PROC_STATEMENT (PROC_ARGS (PATH_ID
      ''write'') (ONE (SIMPLE (A_TERM (FACTOR (APP (PATH_ID ''gcd'') (MORE (ONE (SIMPLE (A_TERM (FACTOR (LVALUE
      (PATH (PATH_ID ''x''))))))) (SIMPLE (A_TERM (FACTOR (LVALUE (PATH (PATH_ID ''y'')))))))))))))))),
     [''PROGRAM `example` WITH ARGS:'', ''  `input`'', ''  `output`'', ''AND VARIABLES:'',
      ''  DECLARATION WITH TYPE:'', ''    INTEGER'', ''  OF NAMES:'', ''    `x`'', ''    `y`'',
      ''AND SUBPROGRAMS:'', ''  FUNCTION WITH ARGUMENTS:'', ''    DECLARATION WITH TYPE:'', ''      INTEGER'',
      ''    OF NAMES:'', ''      `a`'', ''      `b`'', ''  RETURNING:'', ''    INTEGER'',
      ''  WITH SUBPROGRAMS:'', ''    FUNCTION WITH ARGUMENTS:'', ''      DECLARATION WITH TYPE:'',
      ''        INTEGER'', ''      OF NAMES:'', ''        `a`'', ''        `b`'', ''    RETURNING:'',
      ''      INTEGER'', ''    WITH SUBPROGRAMS:'', ''    AND VARIABLES'', ''    DOES:'', ''      ASSIGN'',
      ''        md'', ''      TO'', ''        BINOP MOD'', ''          LEFT:'', ''            a'',
      ''          RIGHT:'', ''            b'', ''      APPLY `foo`'', ''  AND VARIABLES'', ''  DOES:'',
      ''    IF FOLLOWING IS TRUE:'', ''      BINOP EQ'', ''        LEFT:'', ''          b'',
      ''        RIGHT:'', ''          LIT `0`'', ''    THEN:'', ''      ASSIGN'', ''        gcd'',
      ''      TO'', ''        a'', ''    OTHERWISE:'', ''      ASSIGN'', ''        gcd'', ''      TO'',
      ''        APPLY `gcd`'', ''        TO ARGS:'', ''          b'', ''          APPLY `md`'',
      ''          TO ARGS:'', ''            a'', ''            b'', ''DOES:'', ''  APPLY `read` WITH:'',
      ''    x'', ''    y'', ''  APPLY `write` WITH:'', ''    APPLY `gcd`'', ''    TO ARGS:'', ''      x'',
      ''      y'', ''-- done dumping ast --''])"

definition parser_pointers :: "string list \<times> program_tree \<times> string list" where
  "parser_pointers =
    ([''program example();'', ''var x, y: integer;'', ''var a, b, c: ^integer;'', ''begin'', ''    a^ := x;'',
      ''    b := a;'', ''    c := @y'', ''end.''],
     PROGRAM ''example'' NO_IDS NO_TYPES (DECLS (DECLS NO_DECLS (ID_SNOC (ID1 ''x'') ''y'') (STANDARD
      S_INTEGER)) (ID_SNOC (ID_SNOC (ID1 ''a'') ''b'') ''c'') (POINTER_TO (STANDARD S_INTEGER))) NO_SUBPROGRAMS
      (STATEMENTS (AND_THEN (AND_THEN (LAST (ASSIGN (DEREF (PATH_ID ''a'')) (SIMPLE (A_TERM (FACTOR (LVALUE
      (PATH (PATH_ID ''x'')))))))) (ASSIGN (PATH (PATH_ID ''b'')) (SIMPLE (A_TERM (FACTOR (LVALUE (PATH (PATH_ID
      ''a'')))))))) (ASSIGN (PATH (PATH_ID ''c'')) (SIMPLE (A_TERM (FACTOR (ADDRESS (LVALUE (PATH (PATH_ID
      ''y'')))))))))),
     [''PROGRAM `example` WITH ARGS:'', ''AND VARIABLES:'', ''  DECLARATION WITH TYPE:'', ''    INTEGER'',
      ''  OF NAMES:'', ''    `x`'', ''    `y`'', ''  DECLARATION WITH TYPE:'', ''    POINTER TO:'',
      ''      INTEGER'', ''  OF NAMES:'', ''    `a`'', ''    `b`'', ''    `c`'', ''AND SUBPROGRAMS:'',
      ''DOES:'', ''  ASSIGN'', ''    DEREF:'', ''      a'', '''', ''  TO'', ''    x'', ''  ASSIGN'', ''    b'',
      ''  TO'', ''    a'', ''  ASSIGN'', ''    c'', ''  TO'', ''    ADDRESS OF:'', ''      y'',
      ''-- done dumping ast --''])"

definition parser_records :: "string list \<times> program_tree \<times> string list" where
  "parser_records =
    ([''program example();'', ''type foo = record'', ''    a: integer;'', ''    b: real;'', ''end;'',
      ''var a: foo;'', ''begin'', ''    a.a := 0;'', ''    a.b := 0'', ''end.''],
     PROGRAM ''example'' NO_IDS (TYPES NO_TYPES ''foo'' (RECORD_OF (FIELDS (FIELDS NO_FIELDS ''a'' (STANDARD
      S_INTEGER)) ''b'' (STANDARD S_REAL)))) (DECLS NO_DECLS (ID1 ''a'') (NAMED ''foo'')) NO_SUBPROGRAMS
      (STATEMENTS (AND_THEN (LAST (ASSIGN (PATH (PATH_DOT (PATH_ID ''a'') ''a'')) (SIMPLE (A_TERM (FACTOR (NUM
      ''0'')))))) (ASSIGN (PATH (PATH_DOT (PATH_ID ''a'') ''b'')) (SIMPLE (A_TERM (FACTOR (NUM ''0''))))))),
     [''PROGRAM `example` WITH ARGS:'', ''AND VARIABLES:'', ''  DECLARATION WITH TYPE:'',
      ''    REFERENCE `foo`  OF NAMES:'', ''    `a`'', ''AND SUBPROGRAMS:'', ''DOES:'', ''  ASSIGN'',
      ''    a.a'', ''  TO'', ''    LIT `0`'', ''  ASSIGN'', ''    a.b'', ''  TO'', ''    LIT `0`'',
      ''-- done dumping ast --''])"

definition parser_types :: "string list \<times> program_tree \<times> string list" where
  "parser_types =
    ([''program empty();'', ''var a: string;'', ''var b: char;'', ''var c: boolean;'', ''begin end.''],
     PROGRAM ''empty'' NO_IDS NO_TYPES (DECLS (DECLS (DECLS NO_DECLS (ID1 ''a'') (STANDARD S_STRING)) (ID1
      ''b'') (STANDARD S_CHAR)) (ID1 ''c'') (STANDARD S_BOOLEAN)) NO_SUBPROGRAMS NO_STATEMENTS,
     [''PROGRAM `empty` WITH ARGS:'', ''AND VARIABLES:'', ''  DECLARATION WITH TYPE:'', ''    STRING'',
      ''  OF NAMES:'', ''    `a`'', ''  DECLARATION WITH TYPE:'', ''    CHAR'', ''  OF NAMES:'', ''    `b`'',
      ''  DECLARATION WITH TYPE:'', ''    BOOLEAN'', ''  OF NAMES:'', ''    `c`'', ''AND SUBPROGRAMS:'',
      ''DOES:'', ''-- done dumping ast --''])"

definition parser_tests :: "(string list \<times> program_tree \<times> string list) list" where
  "parser_tests = [parser_array_args, parser_array_assign, parser_call_empty_exprs, parser_empty, parser_example,
      parser_for, parser_nested, parser_pointers, parser_records, parser_types]"

lemma parser_tests_checked: "list_all tree_dumped parser_tests"
  by code_simp


section \<open>tests/semantic\<close>

fun accepted :: "string list \<times> program_tree \<times> string list \<Rightarrow> bool" where
  "accepted (ls, t, code) = parsed ls t (\<lambda>p. compiled p = Inr (output_header @ lines code))"

definition semantic_t1_3 :: "string list \<times> program_tree \<times> string list" where
  "semantic_t1_3 =
    ([''(* LEGAL: non-local names visible from inner scopes *)'', ''program main( input, output );'',
      ''  var a: integer;'', ''  procedure boo(x: integer);'', ''  begin'', ''    a := x'', ''  end;'',
      ''begin'', ''  boo(a)'', ''end.'', ''''],
     PROGRAM ''main'' (IDS (ID_SNOC (ID1 ''input'') ''output'')) NO_TYPES (DECLS NO_DECLS (ID1 ''a'') (STANDARD
      S_INTEGER)) (SUBPROGRAMS NO_SUBPROGRAMS (PROCEDURE ''boo'' (ARGS (PARAM1 (ID1 ''x'') (STANDARD
      S_INTEGER))) NO_SUBPROGRAMS NO_TYPES NO_DECLS (STATEMENTS (LAST (ASSIGN (PATH (PATH_ID ''a'')) (SIMPLE
      (A_TERM (FACTOR (LVALUE (PATH (PATH_ID ''x''))))))))))) (STATEMENTS (LAST (PROC_STATEMENT (PROC_ARGS
      (PATH_ID ''boo'') (ONE (SIMPLE (A_TERM (FACTOR (LVALUE (PATH (PATH_ID ''a''))))))))))),
     [''global boo@'', ''boo@:'', ''sub rsp, -4'', ''mov rbx, [display@ + 0]'', ''lea rcx, [rbp+16]'',
      ''mov rcx, [rcx]'', ''mov [rbx], rcx'', ''add rsp, -4'', ''ret'', ''global main'', ''main:'',
      ''mov rbp, rsp'', '';'', ''sub rsp, 8'', ''lea rbx, [rbp+0]'', ''mov [display@ + 0], rbx'',
      ''lea rbx, [rbp+0]'', ''mov rbx, [rbx]'', ''push rbx'', ''push rbp'', '''', ''mov rbp, rsp'',
      ''call boo@'', ''pop rcx'', ''pop rbp'', ''pop rbx'', ''; and we're done!'', ''mov rax, 60'',
      ''xor rdi, rdi'', ''syscall''])"

definition semantic_t1_4 :: "string list \<times> program_tree \<times> string list" where
  "semantic_t1_4 =
    ([''(* LEGAL: scope of the name of subprograms *)'', ''program main( input, output );'',
      ''  procedure boo;'', ''    procedure foo;'', ''    begin'', ''    end;'', ''  begin'', ''    foo'',
      ''  end;'', ''begin'', ''  boo'', ''end.'', ''''],
     PROGRAM ''main'' (IDS (ID_SNOC (ID1 ''input'') ''output'')) NO_TYPES NO_DECLS (SUBPROGRAMS NO_SUBPROGRAMS
      (PROCEDURE ''boo'' NO_ARGS (SUBPROGRAMS NO_SUBPROGRAMS (PROCEDURE ''foo'' NO_ARGS NO_SUBPROGRAMS NO_TYPES
      NO_DECLS NO_STATEMENTS)) NO_TYPES NO_DECLS (STATEMENTS (LAST (PROC_STATEMENT (PROC (PATH_ID ''foo'')))))))
      (STATEMENTS (LAST (PROC_STATEMENT (PROC (PATH_ID ''boo''))))),
     [''global boo@'', ''boo@:'', ''global foo@'', ''foo@:'', ''sub rsp, -4'', ''add rsp, -4'', ''ret'',
      ''sub rsp, -4'', ''push rbp'', ''sub rsp, 8'', ''mov rbp, rsp'', ''call foo@'', ''pop rbx'', ''pop rbp'',
      ''add rsp, -4'', ''ret'', ''global main'', ''main:'', ''mov rbp, rsp'', '';'', ''sub rsp, 0'',
      ''push rbp'', ''sub rsp, 8'', ''mov rbp, rsp'', ''call boo@'', ''pop rbx'', ''pop rbp'',
      ''; and we're done!'', ''mov rax, 60'', ''xor rdi, rdi'', ''syscall''])"

definition semantic_t3_3 :: "string list \<times> program_tree \<times> string list" where
  "semantic_t3_3 =
    ([''(* dangling ELSE binds to closest IF *)'', ''program main( input, output );'', ''  var a: integer;'',
      ''begin'', ''  read(a);'', ''  if ( a < 10 ) then'', ''    if ( a >= 10 ) then'', ''      a := 1'',
      ''  else'', ''      a := 0;'', ''  write(a)'', ''end.'', ''''],
     PROGRAM ''main'' (IDS (ID_SNOC (ID1 ''input'') ''output'')) NO_TYPES (DECLS NO_DECLS (ID1 ''a'') (STANDARD
      S_INTEGER)) NO_SUBPROGRAMS (STATEMENTS (AND_THEN (AND_THEN (LAST (PROC_STATEMENT (PROC_ARGS (PATH_ID
      ''read'') (ONE (SIMPLE (A_TERM (FACTOR (LVALUE (PATH (PATH_ID ''a'')))))))))) (IF_THEN (SIMPLE (A_TERM
      (FACTOR (PAR (REL (A_TERM (FACTOR (LVALUE (PATH (PATH_ID ''a''))))) R_LT (A_TERM (FACTOR (NUM
      ''10'')))))))) (IF_THEN_ELSE (SIMPLE (A_TERM (FACTOR (PAR (REL (A_TERM (FACTOR (LVALUE (PATH (PATH_ID
      ''a''))))) R_GE (A_TERM (FACTOR (NUM ''10'')))))))) (ASSIGN (PATH (PATH_ID ''a'')) (SIMPLE (A_TERM (FACTOR
      (NUM ''1''))))) (ASSIGN (PATH (PATH_ID ''a'')) (SIMPLE (A_TERM (FACTOR (NUM ''0'')))))))) (PROC_STATEMENT
      (PROC_ARGS (PATH_ID ''write'') (ONE (SIMPLE (A_TERM (FACTOR (LVALUE (PATH (PATH_ID ''a''))))))))))),
     [''global main'', ''main:'', ''mov rbp, rsp'', '';'', ''sub rsp, 8'', ''lea rbx, [rbp+0]'', ''push rbx'',
      ''call read_integer@'', ''add rsp, 8'', ''lea rbx, [rbp+0]'', ''mov rbx, [rbx]'', ''mov rcx, 10'',
      ''cmp rbx, rcx'', ''setl cl'', ''movzx rbx, cl'', ''cmp rbx, 1'', ''jne .L0'', ''lea rbx, [rbp+0]'',
      ''mov rbx, [rbx]'', ''mov rcx, 10'', ''cmp rbx, rcx'', ''setge cl'', ''movzx rbx, cl'', ''cmp rbx, 1'',
      ''jne .L2'', ''lea rbx, [rbp+0]'', ''mov rcx, 1'', ''mov [rbx], rcx'', ''jmp .L3'', ''.L2:'',
      ''lea rbx, [rbp+0]'', ''mov rcx, 0'', ''mov [rbx], rcx'', ''.L3:'', ''jmp .L1'', ''.L0:'', ''.L1:'',
      ''lea rbx, [rbp+0]'', ''mov rbx, [rbx]'', ''push rbx'', ''call write_integer@'', ''add rsp, 8'',
      ''; and we're done!'', ''mov rax, 60'', ''xor rdi, rdi'', ''syscall''])"

definition accepted_tests :: "(string list \<times> program_tree \<times> string list) list" where
  "accepted_tests = [semantic_t1_3, semantic_t1_4, semantic_t3_3]"

lemma accepted_tests_checked: "list_all accepted accepted_tests"
  by code_simp


text \<open>
  The messages of the tests that are to be rejected are those of their .expected files, where a prefix ERROR: stands
  before each that \<open>span_err\<close> does not print.
\<close>

definition error_of :: "ast_program \<Rightarrow> failure option" where
  "error_of p = (case analyze p of Inl e \<Rightarrow> Some e | Inr _ \<Rightarrow> None)"

lemma error_of_iff: "error_of p = Some e \<longleftrightarrow> analyze p = Inl e"
  by (simp add: error_of_def split: sum.splits)

fun rejected :: "string list \<times> program_tree \<times> string \<Rightarrow> bool" where
  "rejected (ls, t, message) = parsed ls t (\<lambda>p. error_of p = Some (Span_Err message))"

definition semantic_t1_1a :: "string list \<times> program_tree \<times> string" where
  "semantic_t1_1a =
    ([''(* ERROR: variable redeclared *)'', ''program main( input, output );'', ''  var a,b,c: integer;'',
      ''  var x,y,c: real;'', ''begin'', ''end.'', ''''],
     PROGRAM ''main'' (IDS (ID_SNOC (ID1 ''input'') ''output'')) NO_TYPES (DECLS (DECLS NO_DECLS (ID_SNOC
      (ID_SNOC (ID1 ''a'') ''b'') ''c'') (STANDARD S_INTEGER)) (ID_SNOC (ID_SNOC (ID1 ''x'') ''y'') ''c'')
      (STANDARD S_REAL)) NO_SUBPROGRAMS NO_STATEMENTS,
     ''c is already defined'')"

definition semantic_t1_1b :: "string list \<times> program_tree \<times> string" where
  "semantic_t1_1b =
    ([''(* ERROR: variable redeclared *)'', ''program main( input, output );'', ''  var a: integer;'', '''',
      ''  procedure boo;'', ''  begin'', ''  end;'', '''', ''  function boo(b:integer):integer;'', ''  begin'',
      tabs 1 ''boo := 1'', ''  end;'', '''', ''begin'', ''end.'', ''''],
     PROGRAM ''main'' (IDS (ID_SNOC (ID1 ''input'') ''output'')) NO_TYPES (DECLS NO_DECLS (ID1 ''a'') (STANDARD
      S_INTEGER)) (SUBPROGRAMS (SUBPROGRAMS NO_SUBPROGRAMS (PROCEDURE ''boo'' NO_ARGS NO_SUBPROGRAMS NO_TYPES
      NO_DECLS NO_STATEMENTS)) (FUN ''boo'' (ARGS (PARAM1 (ID1 ''b'') (STANDARD S_INTEGER))) S_INTEGER
      NO_SUBPROGRAMS NO_TYPES NO_DECLS (STATEMENTS (LAST (ASSIGN (PATH (PATH_ID ''boo'')) (SIMPLE (A_TERM
      (FACTOR (NUM ''1''))))))))) NO_STATEMENTS,
     ''boo is already defined'')"

definition semantic_t1_2 :: "string list \<times> program_tree \<times> string" where
  "semantic_t1_2 =
    ([''(* LEGAL: local names should hide non-local names *)'', ''program main( input, output );'',
      ''  var a,b: integer;'', ''  procedure boo(a: integer);'', ''    var b: real;'', ''  begin'',
      ''    b := 1.23 '', ''  end;'', ''begin'', ''  boo(b)'', ''end.'', ''''],
     PROGRAM ''main'' (IDS (ID_SNOC (ID1 ''input'') ''output'')) NO_TYPES (DECLS NO_DECLS (ID_SNOC (ID1 ''a'')
      ''b'') (STANDARD S_INTEGER)) (SUBPROGRAMS NO_SUBPROGRAMS (PROCEDURE ''boo'' (ARGS (PARAM1 (ID1 ''a'')
      (STANDARD S_INTEGER))) NO_SUBPROGRAMS NO_TYPES (DECLS NO_DECLS (ID1 ''b'') (STANDARD S_REAL)) (STATEMENTS
      (LAST (ASSIGN (PATH (PATH_ID ''b'')) (SIMPLE (A_TERM (FACTOR (NUM ''1.23''))))))))) (STATEMENTS (LAST
      (PROC_STATEMENT (PROC_ARGS (PATH_ID ''boo'') (ONE (SIMPLE (A_TERM (FACTOR (LVALUE (PATH (PATH_ID
      ''b''))))))))))),
     ''cannot assign incompatible type'')"

definition semantic_t1_5 :: "string list \<times> program_tree \<times> string" where
  "semantic_t1_5 =
    ([''(* ERROR: local objects not defined outside their scopes *)'', ''program main( input, output );'',
      ''  var a: integer;'', ''  procedure boo(a: integer);'', ''    var x: integer;'', ''  begin'',
      ''  end;'', ''begin'', ''  a := x'', ''end.'', ''''],
     PROGRAM ''main'' (IDS (ID_SNOC (ID1 ''input'') ''output'')) NO_TYPES (DECLS NO_DECLS (ID1 ''a'') (STANDARD
      S_INTEGER)) (SUBPROGRAMS NO_SUBPROGRAMS (PROCEDURE ''boo'' (ARGS (PARAM1 (ID1 ''a'') (STANDARD
      S_INTEGER))) NO_SUBPROGRAMS NO_TYPES (DECLS NO_DECLS (ID1 ''x'') (STANDARD S_INTEGER)) NO_STATEMENTS))
      (STATEMENTS (LAST (ASSIGN (PATH (PATH_ID ''a'')) (SIMPLE (A_TERM (FACTOR (LVALUE (PATH (PATH_ID
      ''x''))))))))),
     ''resolution failure! variable `x` not found'')"

definition semantic_t2_2 :: "string list \<times> program_tree \<times> string" where
  "semantic_t2_2 =
    ([''(* ERROR: objects must be declared before used in expressions *)'', ''program main( input, output );'',
      ''begin'', ''  a := 1'', ''end.'', ''''],
     PROGRAM ''main'' (IDS (ID_SNOC (ID1 ''input'') ''output'')) NO_TYPES NO_DECLS NO_SUBPROGRAMS (STATEMENTS
      (LAST (ASSIGN (PATH (PATH_ID ''a'')) (SIMPLE (A_TERM (FACTOR (NUM ''1''))))))),
     ''resolution failure! variable `a` not found'')"

definition scope_tests :: "(string list \<times> program_tree \<times> string) list" where
  "scope_tests = [semantic_t1_1a, semantic_t1_1b, semantic_t1_2, semantic_t1_5, semantic_t2_2]"

lemma scope_tests_checked: "list_all rejected scope_tests"
  by code_simp

definition semantic_t2_3 :: "string list \<times> program_tree \<times> string" where
  "semantic_t2_3 =
    ([''(* ERROR: objects of different types appear in the same expression *)'',
      ''program main( input, output );'', ''  var a: integer;'', ''  var x: real;'', ''begin'',
      ''  a := a + 1.23;'', ''  x := x + 123'', ''end.'', ''''],
     PROGRAM ''main'' (IDS (ID_SNOC (ID1 ''input'') ''output'')) NO_TYPES (DECLS (DECLS NO_DECLS (ID1 ''a'')
      (STANDARD S_INTEGER)) (ID1 ''x'') (STANDARD S_REAL)) NO_SUBPROGRAMS (STATEMENTS (AND_THEN (LAST (ASSIGN
      (PATH (PATH_ID ''a'')) (SIMPLE (ADD (A_TERM (FACTOR (LVALUE (PATH (PATH_ID ''a''))))) A_PLUS (FACTOR (NUM
      ''1.23'')))))) (ASSIGN (PATH (PATH_ID ''x'')) (SIMPLE (ADD (A_TERM (FACTOR (LVALUE (PATH (PATH_ID
      ''x''))))) A_PLUS (FACTOR (NUM ''123''))))))),
     ''incompatible types for binary operation'')"

definition semantic_t3_2 :: "string list \<times> program_tree \<times> string" where
  "semantic_t3_2 =
    ([''(* ERROR: test expressions in IF/WHILE statements must be Boolean *)'',
      ''program main( input, output );'', ''  var a: integer;'', ''begin'', ''  while a + 123 do'',
      ''    a := a + 1'', ''end.'', ''''],
     PROGRAM ''main'' (IDS (ID_SNOC (ID1 ''input'') ''output'')) NO_TYPES (DECLS NO_DECLS (ID1 ''a'') (STANDARD
      S_INTEGER)) NO_SUBPROGRAMS (STATEMENTS (LAST (WHILE_DO (SIMPLE (ADD (A_TERM (FACTOR (LVALUE (PATH (PATH_ID
      ''a''))))) A_PLUS (FACTOR (NUM ''123'')))) (ASSIGN (PATH (PATH_ID ''a'')) (SIMPLE (ADD (A_TERM (FACTOR
      (LVALUE (PATH (PATH_ID ''a''))))) A_PLUS (FACTOR (NUM ''1'')))))))),
     ''type of while condition not boolean'')"

definition semantic_t3_4 :: "string list \<times> program_tree \<times> string" where
  "semantic_t3_4 =
    ([''(* ERROR: mismatched type for index variable in FOR loops *)'', ''program main( input, output );'',
      ''  var a: integer;'', ''  var x: real;'', ''begin'', ''  for x := 1 to 5 do'', ''    a := a + 1'',
      ''end.'', ''''],
     PROGRAM ''main'' (IDS (ID_SNOC (ID1 ''input'') ''output'')) NO_TYPES (DECLS (DECLS NO_DECLS (ID1 ''a'')
      (STANDARD S_INTEGER)) (ID1 ''x'') (STANDARD S_REAL)) NO_SUBPROGRAMS (STATEMENTS (LAST (FOR_TO ''x''
      (SIMPLE (A_TERM (FACTOR (NUM ''1'')))) (SIMPLE (A_TERM (FACTOR (NUM ''5'')))) (ASSIGN (PATH (PATH_ID
      ''a'')) (SIMPLE (ADD (A_TERM (FACTOR (LVALUE (PATH (PATH_ID ''a''))))) A_PLUS (FACTOR (NUM ''1'')))))))),
     ''type of induction variable not integer'')"

definition semantic_t4_1 :: "string list \<times> program_tree \<times> string" where
  "semantic_t4_1 =
    ([''(* ERROR: non-integer type for array index *)'', ''program main( input, output );'',
      ''  var a: array[3 .. 7] of real;'', ''  var x: real;'', ''begin'', ''  a[x] := 1.23'', ''end.'', ''''],
     PROGRAM ''main'' (IDS (ID_SNOC (ID1 ''input'') ''output'')) NO_TYPES (DECLS (DECLS NO_DECLS (ID1 ''a'')
      (ARRAY_OF ''3'' ''7'' S_REAL)) (ID1 ''x'') (STANDARD S_REAL)) NO_SUBPROGRAMS (STATEMENTS (LAST (ASSIGN
      (INDEX (PATH_ID ''a'') (SIMPLE (A_TERM (FACTOR (LVALUE (PATH (PATH_ID ''x''))))))) (SIMPLE (A_TERM (FACTOR
      (NUM ''1.23''))))))),
     ''tried to index array with non-integer'')"

definition type_tests :: "(string list \<times> program_tree \<times> string) list" where
  "type_tests = [semantic_t2_3, semantic_t3_2, semantic_t3_4, semantic_t4_1]"

lemma type_tests_checked: "list_all rejected type_tests"
  by code_simp

definition semantic_t5_2 :: "string list \<times> program_tree \<times> string" where
  "semantic_t5_2 =
    ([''(* ERROR: function missing return statement *)'', ''program main( input, output );'',
      ''  function foo(a: integer): integer;'', ''  begin'', ''  end;'', ''begin'', ''end.'', ''''],
     PROGRAM ''main'' (IDS (ID_SNOC (ID1 ''input'') ''output'')) NO_TYPES NO_DECLS (SUBPROGRAMS NO_SUBPROGRAMS
      (FUN ''foo'' (ARGS (PARAM1 (ID1 ''a'') (STANDARD S_INTEGER))) S_INTEGER NO_SUBPROGRAMS NO_TYPES NO_DECLS
      NO_STATEMENTS)) NO_STATEMENTS,
     ''return value of foo not assigned'')"

definition semantic_t5_3 :: "string list \<times> program_tree \<times> string" where
  "semantic_t5_3 =
    ([''(* ERROR: function passed wrong number/type of arguments *)'', ''program main( input, output );'',
      ''  var b: integer;'', ''  var y: real;'', '''', ''  function foo(a: integer; x: real): integer;'',
      ''  begin'', ''    foo := a'', ''  end;'', ''begin'', ''  b := foo(y,b) + foo(b,y,10)'', ''end.'', ''''],
     PROGRAM ''main'' (IDS (ID_SNOC (ID1 ''input'') ''output'')) NO_TYPES (DECLS (DECLS NO_DECLS (ID1 ''b'')
      (STANDARD S_INTEGER)) (ID1 ''y'') (STANDARD S_REAL)) (SUBPROGRAMS NO_SUBPROGRAMS (FUN ''foo'' (ARGS
      (PARAM_SNOC (PARAM1 (ID1 ''a'') (STANDARD S_INTEGER)) (ID1 ''x'') (STANDARD S_REAL))) S_INTEGER
      NO_SUBPROGRAMS NO_TYPES NO_DECLS (STATEMENTS (LAST (ASSIGN (PATH (PATH_ID ''foo'')) (SIMPLE (A_TERM
      (FACTOR (LVALUE (PATH (PATH_ID ''a''))))))))))) (STATEMENTS (LAST (ASSIGN (PATH (PATH_ID ''b'')) (SIMPLE
      (ADD (A_TERM (FACTOR (APP (PATH_ID ''foo'') (MORE (ONE (SIMPLE (A_TERM (FACTOR (LVALUE (PATH (PATH_ID
      ''y''))))))) (SIMPLE (A_TERM (FACTOR (LVALUE (PATH (PATH_ID ''b'')))))))))) A_PLUS (FACTOR (APP (PATH_ID
      ''foo'') (MORE (MORE (ONE (SIMPLE (A_TERM (FACTOR (LVALUE (PATH (PATH_ID ''b''))))))) (SIMPLE (A_TERM
      (FACTOR (LVALUE (PATH (PATH_ID ''y''))))))) (SIMPLE (A_TERM (FACTOR (NUM ''10'')))))))))))),
     ''wanted 2, given 3'')"

definition semantic_t5_4 :: "string list \<times> program_tree \<times> string" where
  "semantic_t5_4 =
    ([''(* ERROR: function updating non-local variable *)'', ''program main( input, output );'',
      ''  var a: integer;'', ''  '', ''  function foo(b: integer): integer;'', ''  begin'', ''    foo := a;'',
      ''    a := b'', ''  end;'', '''', ''begin'', '''', ''end.'', ''''],
     PROGRAM ''main'' (IDS (ID_SNOC (ID1 ''input'') ''output'')) NO_TYPES (DECLS NO_DECLS (ID1 ''a'') (STANDARD
      S_INTEGER)) (SUBPROGRAMS NO_SUBPROGRAMS (FUN ''foo'' (ARGS (PARAM1 (ID1 ''b'') (STANDARD S_INTEGER)))
      S_INTEGER NO_SUBPROGRAMS NO_TYPES NO_DECLS (STATEMENTS (AND_THEN (LAST (ASSIGN (PATH (PATH_ID ''foo''))
      (SIMPLE (A_TERM (FACTOR (LVALUE (PATH (PATH_ID ''a'')))))))) (ASSIGN (PATH (PATH_ID ''a'')) (SIMPLE
      (A_TERM (FACTOR (LVALUE (PATH (PATH_ID ''b''))))))))))) NO_STATEMENTS,
     ''assigned to non-local in function'')"

definition semantic_t6_1 :: "string list \<times> program_tree \<times> string" where
  "semantic_t6_1 =
    ([''(* ERROR: procedures don't return values *)'', ''program main( input, output );'',
      ''  var a: integer;'', ''  procedure boo(b: integer);'', ''  begin'', ''    a := 1'', ''  end;'',
      ''begin'', ''  a := boo(a)'', ''end.'', ''''],
     PROGRAM ''main'' (IDS (ID_SNOC (ID1 ''input'') ''output'')) NO_TYPES (DECLS NO_DECLS (ID1 ''a'') (STANDARD
      S_INTEGER)) (SUBPROGRAMS NO_SUBPROGRAMS (PROCEDURE ''boo'' (ARGS (PARAM1 (ID1 ''b'') (STANDARD
      S_INTEGER))) NO_SUBPROGRAMS NO_TYPES NO_DECLS (STATEMENTS (LAST (ASSIGN (PATH (PATH_ID ''a'')) (SIMPLE
      (A_TERM (FACTOR (NUM ''1''))))))))) (STATEMENTS (LAST (ASSIGN (PATH (PATH_ID ''a'')) (SIMPLE (A_TERM
      (FACTOR (APP (PATH_ID ''boo'') (ONE (SIMPLE (A_TERM (FACTOR (LVALUE (PATH (PATH_ID ''a'')))))))))))))),
     ''cannot assign incompatible type'')"

definition semantic_t6_2 :: "string list \<times> program_tree \<times> string" where
  "semantic_t6_2 =
    ([''(* ERROR: procedure passed wrong number/type of arguments *)'', ''program main( input, output );'',
      ''  var b: integer;'', ''  var y: real;'', '''', ''  procedure boo(a: integer; x: real);'', ''  begin'',
      ''  end;'', ''begin'', ''  boo(y,10);'', ''  boo(b,y,b)'', ''end.'', ''''],
     PROGRAM ''main'' (IDS (ID_SNOC (ID1 ''input'') ''output'')) NO_TYPES (DECLS (DECLS NO_DECLS (ID1 ''b'')
      (STANDARD S_INTEGER)) (ID1 ''y'') (STANDARD S_REAL)) (SUBPROGRAMS NO_SUBPROGRAMS (PROCEDURE ''boo'' (ARGS
      (PARAM_SNOC (PARAM1 (ID1 ''a'') (STANDARD S_INTEGER)) (ID1 ''x'') (STANDARD S_REAL))) NO_SUBPROGRAMS
      NO_TYPES NO_DECLS NO_STATEMENTS)) (STATEMENTS (AND_THEN (LAST (PROC_STATEMENT (PROC_ARGS (PATH_ID ''boo'')
      (MORE (ONE (SIMPLE (A_TERM (FACTOR (LVALUE (PATH (PATH_ID ''y''))))))) (SIMPLE (A_TERM (FACTOR (NUM
      ''10'')))))))) (PROC_STATEMENT (PROC_ARGS (PATH_ID ''boo'') (MORE (MORE (ONE (SIMPLE (A_TERM (FACTOR
      (LVALUE (PATH (PATH_ID ''b''))))))) (SIMPLE (A_TERM (FACTOR (LVALUE (PATH (PATH_ID ''y''))))))) (SIMPLE
      (A_TERM (FACTOR (LVALUE (PATH (PATH_ID ''b''))))))))))),
     ''wanted 2, given 3'')"

definition call_tests :: "(string list \<times> program_tree \<times> string) list" where
  "call_tests = [semantic_t5_2, semantic_t5_3, semantic_t5_4, semantic_t6_1, semantic_t6_2]"

lemma call_tests_checked: "list_all rejected call_tests"
  by code_simp

definition semantic_semantic :: "string list \<times> program_tree \<times> string" where
  "semantic_semantic =
    (['''', ''program main( input, output );'', '''', ''  (* local variables *)'', ''  var x, y: integer;'',
      ''  var a, b: real;'', ''  var c: array[ 1..10 ] of integer;'', ''  var d: array[ 11..20 ] of real;'',
      '''', ''  (* local function: mixed argument types *)'',
      ''  function foo( a: integer; x: real; z: integer ): integer;'', tabs 1 ''procedure boo( a: real );'',
      tabs 1 ''begin'', tabs 2 ''(* scope check on boo's a, main's b, d[] and y; and foo's z*)'',
      tabs 2 ''boo( a * b + d[y + z] )'', tabs 1 ''end;'', ''  begin'',
      tabs 1 ''(* boo is visible; so is main's b *)'', tabs 1 ''boo( b );'', '''',
      tabs 1 ''(* function return statement; scope and type check on foo's a and main's y *)'',
      tabs 1 ''foo := a + y'', ''  end;'', '''', ''  (* local procedure *)'',
      ''  procedure bar( c: integer );'', ''  begin'', tabs 1 ''(* nonlocal update *)'',
      tabs 1 ''d[ c[foo(x,a,y)] ] := b'', ''  end;'', '''', ''  (* location function: recursive *)'',
      ''  function moo( d: integer ): integer;'', ''  begin'', tabs 1 ''if ( d = 0 ) then'',
      tabs 2 ''moo := 1'', tabs 1 ''else'', tabs 2 ''moo := d * moo( d - 1 )'', ''  end;'', '''', ''begin'',
      '''', ''  (* FUNCTION call check: recursive and correct arguments *)'',
      ''  y := foo( x + foo( y, 0.001, a ) * 1, 2.3, b );'', '''',
      ''  (* ARRAY access check: recursive, correct arguments *)'', ''  y := c[ x + c[y] * 45 ];'', '''',
      ''  (* FUNCTION call and ARRAY access *)'',
      ''  y := foo( x + c[y + foo(c[1], d[2], a)] * 1, 2.3 + d[c[foo(c[3],b,d[y])]] );'', '''',
      ''  (* IF-THEN check *)'', ''  if ( (c[x] * 6 < 7 + moo( y )) and (a > d[c[x]]) ) then'', ''  begin'',
      tabs 1 ''c[moo(foo(8,9.10,11.0)) + c[12]] := moo( c[y - 1] )'', ''  end;'', '''',
      ''  (* PROCEDURE call: correct arguments, not used as expression *)'', ''  bar( c[x] );'', '''',
      ''  (* FOR check *)'', ''  b := 10.0;'', ''  for a := 1.0 to 2.0 * b do'', ''  begin'',
      tabs 1 ''bar( c[x + moo( c[x + moo( c[x + moo(1)] )] )] );'', tabs 1 ''a := a + 0.0000001'', ''  end'',
      '''', ''end.'', ''''],
     PROGRAM ''main'' (IDS (ID_SNOC (ID1 ''input'') ''output'')) NO_TYPES (DECLS (DECLS (DECLS (DECLS NO_DECLS
      (ID_SNOC (ID1 ''x'') ''y'') (STANDARD S_INTEGER)) (ID_SNOC (ID1 ''a'') ''b'') (STANDARD S_REAL)) (ID1
      ''c'') (ARRAY_OF ''1'' ''10'' S_INTEGER)) (ID1 ''d'') (ARRAY_OF ''11'' ''20'' S_REAL)) (SUBPROGRAMS
      (SUBPROGRAMS (SUBPROGRAMS NO_SUBPROGRAMS (FUN ''foo'' (ARGS (PARAM_SNOC (PARAM_SNOC (PARAM1 (ID1 ''a'')
      (STANDARD S_INTEGER)) (ID1 ''x'') (STANDARD S_REAL)) (ID1 ''z'') (STANDARD S_INTEGER))) S_INTEGER
      (SUBPROGRAMS NO_SUBPROGRAMS (PROCEDURE ''boo'' (ARGS (PARAM1 (ID1 ''a'') (STANDARD S_REAL)))
      NO_SUBPROGRAMS NO_TYPES NO_DECLS (STATEMENTS (LAST (PROC_STATEMENT (PROC_ARGS (PATH_ID ''boo'') (ONE
      (SIMPLE (ADD (A_TERM (MUL (FACTOR (LVALUE (PATH (PATH_ID ''a'')))) M_TIMES (LVALUE (PATH (PATH_ID
      ''b''))))) A_PLUS (FACTOR (LVALUE (INDEX (PATH_ID ''d'') (SIMPLE (ADD (A_TERM (FACTOR (LVALUE (PATH
      (PATH_ID ''y''))))) A_PLUS (FACTOR (LVALUE (PATH (PATH_ID ''z'')))))))))))))))))) NO_TYPES NO_DECLS
      (STATEMENTS (AND_THEN (LAST (PROC_STATEMENT (PROC_ARGS (PATH_ID ''boo'') (ONE (SIMPLE (A_TERM (FACTOR
      (LVALUE (PATH (PATH_ID ''b'')))))))))) (ASSIGN (PATH (PATH_ID ''foo'')) (SIMPLE (ADD (A_TERM (FACTOR
      (LVALUE (PATH (PATH_ID ''a''))))) A_PLUS (FACTOR (LVALUE (PATH (PATH_ID ''y''))))))))))) (PROCEDURE
      ''bar'' (ARGS (PARAM1 (ID1 ''c'') (STANDARD S_INTEGER))) NO_SUBPROGRAMS NO_TYPES NO_DECLS (STATEMENTS
      (LAST (ASSIGN (INDEX (PATH_ID ''d'') (SIMPLE (A_TERM (FACTOR (LVALUE (INDEX (PATH_ID ''c'') (SIMPLE
      (A_TERM (FACTOR (APP (PATH_ID ''foo'') (MORE (MORE (ONE (SIMPLE (A_TERM (FACTOR (LVALUE (PATH (PATH_ID
      ''x''))))))) (SIMPLE (A_TERM (FACTOR (LVALUE (PATH (PATH_ID ''a''))))))) (SIMPLE (A_TERM (FACTOR (LVALUE
      (PATH (PATH_ID ''y''))))))))))))))))) (SIMPLE (A_TERM (FACTOR (LVALUE (PATH (PATH_ID ''b''))))))))))) (FUN
      ''moo'' (ARGS (PARAM1 (ID1 ''d'') (STANDARD S_INTEGER))) S_INTEGER NO_SUBPROGRAMS NO_TYPES NO_DECLS
      (STATEMENTS (LAST (IF_THEN_ELSE (SIMPLE (A_TERM (FACTOR (PAR (REL (A_TERM (FACTOR (LVALUE (PATH (PATH_ID
      ''d''))))) R_EQ (A_TERM (FACTOR (NUM ''0'')))))))) (ASSIGN (PATH (PATH_ID ''moo'')) (SIMPLE (A_TERM
      (FACTOR (NUM ''1''))))) (ASSIGN (PATH (PATH_ID ''moo'')) (SIMPLE (A_TERM (MUL (FACTOR (LVALUE (PATH
      (PATH_ID ''d'')))) M_TIMES (APP (PATH_ID ''moo'') (ONE (SIMPLE (ADD (A_TERM (FACTOR (LVALUE (PATH (PATH_ID
      ''d''))))) A_MINUS (FACTOR (NUM ''1''))))))))))))))) (STATEMENTS (AND_THEN (AND_THEN (AND_THEN (AND_THEN
      (AND_THEN (AND_THEN (LAST (ASSIGN (PATH (PATH_ID ''y'')) (SIMPLE (A_TERM (FACTOR (APP (PATH_ID ''foo'')
      (MORE (MORE (ONE (SIMPLE (ADD (A_TERM (FACTOR (LVALUE (PATH (PATH_ID ''x''))))) A_PLUS (MUL (FACTOR (APP
      (PATH_ID ''foo'') (MORE (MORE (ONE (SIMPLE (A_TERM (FACTOR (LVALUE (PATH (PATH_ID ''y''))))))) (SIMPLE
      (A_TERM (FACTOR (NUM ''0.001''))))) (SIMPLE (A_TERM (FACTOR (LVALUE (PATH (PATH_ID ''a''))))))))) M_TIMES
      (NUM ''1''))))) (SIMPLE (A_TERM (FACTOR (NUM ''2.3''))))) (SIMPLE (A_TERM (FACTOR (LVALUE (PATH (PATH_ID
      ''b''))))))))))))) (ASSIGN (PATH (PATH_ID ''y'')) (SIMPLE (A_TERM (FACTOR (LVALUE (INDEX (PATH_ID ''c'')
      (SIMPLE (ADD (A_TERM (FACTOR (LVALUE (PATH (PATH_ID ''x''))))) A_PLUS (MUL (FACTOR (LVALUE (INDEX (PATH_ID
      ''c'') (SIMPLE (A_TERM (FACTOR (LVALUE (PATH (PATH_ID ''y''))))))))) M_TIMES (NUM ''45'')))))))))))
      (ASSIGN (PATH (PATH_ID ''y'')) (SIMPLE (A_TERM (FACTOR (APP (PATH_ID ''foo'') (MORE (ONE (SIMPLE (ADD
      (A_TERM (FACTOR (LVALUE (PATH (PATH_ID ''x''))))) A_PLUS (MUL (FACTOR (LVALUE (INDEX (PATH_ID ''c'')
      (SIMPLE (ADD (A_TERM (FACTOR (LVALUE (PATH (PATH_ID ''y''))))) A_PLUS (FACTOR (APP (PATH_ID ''foo'') (MORE
      (MORE (ONE (SIMPLE (A_TERM (FACTOR (LVALUE (INDEX (PATH_ID ''c'') (SIMPLE (A_TERM (FACTOR (NUM
      ''1'')))))))))) (SIMPLE (A_TERM (FACTOR (LVALUE (INDEX (PATH_ID ''d'') (SIMPLE (A_TERM (FACTOR (NUM
      ''2'')))))))))) (SIMPLE (A_TERM (FACTOR (LVALUE (PATH (PATH_ID ''a'')))))))))))))) M_TIMES (NUM ''1'')))))
      (SIMPLE (ADD (A_TERM (FACTOR (NUM ''2.3''))) A_PLUS (FACTOR (LVALUE (INDEX (PATH_ID ''d'') (SIMPLE (A_TERM
      (FACTOR (LVALUE (INDEX (PATH_ID ''c'') (SIMPLE (A_TERM (FACTOR (APP (PATH_ID ''foo'') (MORE (MORE (ONE
      (SIMPLE (A_TERM (FACTOR (LVALUE (INDEX (PATH_ID ''c'') (SIMPLE (A_TERM (FACTOR (NUM ''3''))))))))))
      (SIMPLE (A_TERM (FACTOR (LVALUE (PATH (PATH_ID ''b''))))))) (SIMPLE (A_TERM (FACTOR (LVALUE (INDEX
      (PATH_ID ''d'') (SIMPLE (A_TERM (FACTOR (LVALUE (PATH (PATH_ID ''y'')))))))))))))))))))))))))))))))))
      (IF_THEN (SIMPLE (A_TERM (FACTOR (PAR (SIMPLE (A_TERM (MUL (FACTOR (PAR (REL (A_TERM (MUL (FACTOR (LVALUE
      (INDEX (PATH_ID ''c'') (SIMPLE (A_TERM (FACTOR (LVALUE (PATH (PATH_ID ''x''))))))))) M_TIMES (NUM ''6'')))
      R_LT (ADD (A_TERM (FACTOR (NUM ''7''))) A_PLUS (FACTOR (APP (PATH_ID ''moo'') (ONE (SIMPLE (A_TERM (FACTOR
      (LVALUE (PATH (PATH_ID ''y''))))))))))))) M_AND (PAR (REL (A_TERM (FACTOR (LVALUE (PATH (PATH_ID
      ''a''))))) R_GT (A_TERM (FACTOR (LVALUE (INDEX (PATH_ID ''d'') (SIMPLE (A_TERM (FACTOR (LVALUE (INDEX
      (PATH_ID ''c'') (SIMPLE (A_TERM (FACTOR (LVALUE (PATH (PATH_ID ''x'')))))))))))))))))))))))) (COMPOUND
      (STATEMENTS (LAST (ASSIGN (INDEX (PATH_ID ''c'') (SIMPLE (ADD (A_TERM (FACTOR (APP (PATH_ID ''moo'') (ONE
      (SIMPLE (A_TERM (FACTOR (APP (PATH_ID ''foo'') (MORE (MORE (ONE (SIMPLE (A_TERM (FACTOR (NUM ''8'')))))
      (SIMPLE (A_TERM (FACTOR (NUM ''9.10''))))) (SIMPLE (A_TERM (FACTOR (NUM ''11.0''))))))))))))) A_PLUS
      (FACTOR (LVALUE (INDEX (PATH_ID ''c'') (SIMPLE (A_TERM (FACTOR (NUM ''12'')))))))))) (SIMPLE (A_TERM
      (FACTOR (APP (PATH_ID ''moo'') (ONE (SIMPLE (A_TERM (FACTOR (LVALUE (INDEX (PATH_ID ''c'') (SIMPLE (ADD
      (A_TERM (FACTOR (LVALUE (PATH (PATH_ID ''y''))))) A_MINUS (FACTOR (NUM ''1''))))))))))))))))))))
      (PROC_STATEMENT (PROC_ARGS (PATH_ID ''bar'') (ONE (SIMPLE (A_TERM (FACTOR (LVALUE (INDEX (PATH_ID ''c'')
      (SIMPLE (A_TERM (FACTOR (LVALUE (PATH (PATH_ID ''x''))))))))))))))) (ASSIGN (PATH (PATH_ID ''b'')) (SIMPLE
      (A_TERM (FACTOR (NUM ''10.0'')))))) (FOR_TO ''a'' (SIMPLE (A_TERM (FACTOR (NUM ''1.0'')))) (SIMPLE (A_TERM
      (MUL (FACTOR (NUM ''2.0'')) M_TIMES (LVALUE (PATH (PATH_ID ''b'')))))) (COMPOUND (STATEMENTS (AND_THEN
      (LAST (PROC_STATEMENT (PROC_ARGS (PATH_ID ''bar'') (ONE (SIMPLE (A_TERM (FACTOR (LVALUE (INDEX (PATH_ID
      ''c'') (SIMPLE (ADD (A_TERM (FACTOR (LVALUE (PATH (PATH_ID ''x''))))) A_PLUS (FACTOR (APP (PATH_ID
      ''moo'') (ONE (SIMPLE (A_TERM (FACTOR (LVALUE (INDEX (PATH_ID ''c'') (SIMPLE (ADD (A_TERM (FACTOR (LVALUE
      (PATH (PATH_ID ''x''))))) A_PLUS (FACTOR (APP (PATH_ID ''moo'') (ONE (SIMPLE (A_TERM (FACTOR (LVALUE
      (INDEX (PATH_ID ''c'') (SIMPLE (ADD (A_TERM (FACTOR (LVALUE (PATH (PATH_ID ''x''))))) A_PLUS (FACTOR (APP
      (PATH_ID ''moo'') (ONE (SIMPLE (A_TERM (FACTOR (NUM ''1'')))))))))))))))))))))))))))))))))))))) (ASSIGN
      (PATH (PATH_ID ''a'')) (SIMPLE (ADD (A_TERM (FACTOR (LVALUE (PATH (PATH_ID ''a''))))) A_PLUS (FACTOR (NUM
      ''0.0000001''))))))))))),
     ''incompatible types for binary operation'')"

definition whole_test :: "(string list \<times> program_tree \<times> string) list" where
  "whole_test = [semantic_semantic]"

lemma whole_test_checked: "list_all rejected whole_test"
  by code_simp

definition rejected_tests :: "(string list \<times> program_tree \<times> string) list" where
  "rejected_tests = scope_tests @ type_tests @ call_tests @ whole_test"

lemma rejected_tests_checked: "list_all rejected rejected_tests"
  by (simp add: rejected_tests_def scope_tests_checked type_tests_checked call_tests_checked whole_test_checked)


end
